(* ===== verification/Iot_Prelude.thy ===== *)
theory Iot_Prelude
  imports Main "HOL-Library.AList" "HOL-Library.Char_ord"
begin

text \<open>
  What every component of the model shares.

  \<^item> Python strings are lists of Unicode code points (\<open>pystr\<close>); \<open>lit\<close> embeds an ASCII
    literal. \<open>split_on\<close>, \<open>replace_char\<close> and \<open>utf8_encode\<close> are the string methods
    the services call.
  \<^item> Exceptions (\<open>exn\<close>) carry the class names of their method resolution order, so that an
    \<open>except\<close> clause is the membership test \<open>isinstance\<close> and \<open>type(exc).__name__\<close>
    is the first of them.
  \<^item> An action of type \<open>('s, 'a) io\<close> takes a state and returns a result (\<open>Inl\<close> an
    exception, \<open>Inr\<close> a value) with the state it leaves, whether or not it raised: what a
    Python function did before it raised stays done. \<open>try_except\<close> and \<open>try_finally\<close> are
    the two forms of the \<open>try\<close> statement.
\<close>

section \<open>Collections of facts\<close>

named_theorems io_defs \<open>definitions of the action combinators\<close>
named_theorems model_defs \<open>definitions that proofs about a component unfold together\<close>
named_theorems ref_defs \<open>definitions of the reference services, unfolded to evaluate a witness\<close>

section \<open>Strings\<close>

type_synonym pystr = "nat list"

definition lit :: "string \<Rightarrow> pystr" where
  "lit s = map of_char s"

lemma inj_of_char_nat: "inj (of_char :: char \<Rightarrow> nat)"
  by (rule inj_of_char)

lemma lit_eq_iff [simp]: "lit a = lit b \<longleftrightarrow> a = b"
  by (simp add: lit_def inj_map_eq_map [OF inj_of_char_nat])

lemma lit_Nil [simp]: "lit [] = []"
  by (simp add: lit_def)

lemma lit_eq_Nil_iff [simp]: "lit s = [] \<longleftrightarrow> s = []" "[] = lit s \<longleftrightarrow> s = []"
  by (auto simp: lit_def)

lemma length_lit [simp]: "length (lit s) = length s"
  by (simp add: lit_def)

lemma lit_append: "lit (a @ b) = lit a @ lit b"
  by (simp add: lit_def)

text \<open>\<open>s.split(sep)\<close> for a one-character separator: never the empty list.\<close>

fun split_on :: "nat \<Rightarrow> pystr \<Rightarrow> pystr list" where
  "split_on sep [] = [[]]"
| "split_on sep (c # cs) =
     (if c = sep then [] # split_on sep cs
      else case split_on sep cs of [] \<Rightarrow> [[c]] | p # ps \<Rightarrow> (c # p) # ps)"

lemma split_on_not_Nil [simp]: "split_on sep s \<noteq> []"
  by (induction s) (auto split: list.splits)

lemma split_on_no_sep: "sep \<notin> set s \<Longrightarrow> split_on sep s = [s]"
  by (induction s) auto

lemma split_on_append:
  "sep \<notin> set a \<Longrightarrow> split_on sep (a @ sep # b) = a # split_on sep b"
  by (induction a) auto

lemma split_on_parts: "p \<in> set (split_on sep s) \<Longrightarrow> sep \<notin> set p"
  by (induction s arbitrary: p) (auto split: list.splits if_splits)

text \<open>\<open>s.replace(c, r)\<close> for a one-character pattern.\<close>

definition replace_char :: "nat \<Rightarrow> pystr \<Rightarrow> pystr \<Rightarrow> pystr" where
  "replace_char c r s = concat (map (\<lambda>x. if x = c then r else [x]) s)"

lemma replace_char_append: "replace_char c r (a @ b) = replace_char c r a @ replace_char c r b"
  by (simp add: replace_char_def)

lemma replace_char_id: "c \<notin> set s \<Longrightarrow> replace_char c r s = s"
  by (induction s) (auto simp: replace_char_def)

text \<open>\<open>s.encode("utf-8")\<close>: lone surrogates raise UnicodeEncodeError, everything else encodes.\<close>

definition surrogate :: "nat \<Rightarrow> bool" where
  "surrogate c \<longleftrightarrow> 0xD800 \<le> c \<and> c \<le> 0xDFFF"

definition utf8_cp :: "nat \<Rightarrow> nat list" where
  "utf8_cp c =
     (if c < 0x80 then [c]
      else if c < 0x800 then [0xC0 + c div 0x40, 0x80 + c mod 0x40]
      else if c < 0x10000 then [0xE0 + c div 0x1000, 0x80 + c div 0x40 mod 0x40, 0x80 + c mod 0x40]
      else [0xF0 + c div 0x40000, 0x80 + c div 0x1000 mod 0x40, 0x80 + c div 0x40 mod 0x40,
            0x80 + c mod 0x40])"

definition encodable :: "pystr \<Rightarrow> bool" where
  "encodable s \<longleftrightarrow> list_all (\<lambda>c. \<not> surrogate c) s"

lemma encodable_append [simp]: "encodable (a @ b) \<longleftrightarrow> encodable a \<and> encodable b"
  by (simp add: encodable_def)

lemma encodable_ascii: "\<forall>c \<in> set s. c < 128 \<Longrightarrow> encodable s"
  by (auto simp: encodable_def list_all_iff surrogate_def)

lemma encodable_lit [simp]: "encodable (lit s)"
proof -
  have "\<not> surrogate (of_char c)" for c :: char
  proof -
    have "of_char c < (256 :: nat)" by (rule nat_of_char_less_256)
    then show ?thesis unfolding surrogate_def by linarith
  qed
  then show ?thesis by (simp add: encodable_def lit_def list_all_iff)
qed

section \<open>Exceptions\<close>

datatype exn = Exn (mro: "string list") (msg: pystr)

definition isinstance :: "exn \<Rightarrow> string \<Rightarrow> bool" where
  "isinstance e c \<longleftrightarrow> List.member (mro e) c"

definition exn_name :: "exn \<Rightarrow> pystr" where
  "exn_name e = (case mro e of [] \<Rightarrow> [] | c # _ \<Rightarrow> lit c)"

abbreviation ordinary :: "exn \<Rightarrow> bool" where
  "ordinary e \<equiv> isinstance e ''Exception''"

definition NameError :: "pystr \<Rightarrow> exn" where
  "NameError m = Exn [''NameError'', ''Exception'', ''BaseException''] m"

definition TypeError :: "pystr \<Rightarrow> exn" where
  "TypeError m = Exn [''TypeError'', ''Exception'', ''BaseException''] m"

definition AttributeError :: "pystr \<Rightarrow> exn" where
  "AttributeError m = Exn [''AttributeError'', ''Exception'', ''BaseException''] m"

definition RuntimeError :: "pystr \<Rightarrow> exn" where
  "RuntimeError m = Exn [''RuntimeError'', ''Exception'', ''BaseException''] m"

definition AssertionError :: exn where
  "AssertionError = Exn [''AssertionError'', ''Exception'', ''BaseException''] []"

definition ValueError :: "pystr \<Rightarrow> exn" where
  "ValueError m = Exn [''ValueError'', ''Exception'', ''BaseException''] m"

definition OverflowError :: "pystr \<Rightarrow> exn" where
  "OverflowError m = Exn [''OverflowError'', ''ArithmeticError'', ''Exception'', ''BaseException''] m"

definition UnicodeEncodeError :: "pystr \<Rightarrow> exn" where
  "UnicodeEncodeError m =
     Exn [''UnicodeEncodeError'', ''UnicodeError'', ''ValueError'', ''Exception'', ''BaseException''] m"

definition CancelledError :: exn where
  "CancelledError = Exn [''CancelledError'', ''BaseException''] []"

lemmas exn_defs = NameError_def TypeError_def AttributeError_def RuntimeError_def AssertionError_def
  ValueError_def OverflowError_def UnicodeEncodeError_def CancelledError_def

lemma isinstance_Exn [simp]: "isinstance (Exn cs m) c \<longleftrightarrow> c \<in> set cs"
  by (simp add: isinstance_def)

definition utf8_encode :: "pystr \<Rightarrow> exn + nat list" where
  "utf8_encode s =
     (if encodable s then Inr (concat (map utf8_cp s))
      else Inl (UnicodeEncodeError (lit ''surrogates not allowed'')))"

section \<open>Actions\<close>

type_synonym ('s, 'a) io = "'s \<Rightarrow> (exn + 'a) \<times> 's"

definition ret :: "'a \<Rightarrow> ('s, 'a) io" where
  "ret x = (\<lambda>s. (Inr x, s))"

definition raise :: "exn \<Rightarrow> ('s, 'a) io" where
  "raise e = (\<lambda>s. (Inl e, s))"

definition bind :: "('s, 'a) io \<Rightarrow> ('a \<Rightarrow> ('s, 'b) io) \<Rightarrow> ('s, 'b) io" where
  "bind m f = (\<lambda>s. case m s of (Inl e, s') \<Rightarrow> (Inl e, s') | (Inr x, s') \<Rightarrow> f x s')"

definition andthen :: "('s, 'a) io \<Rightarrow> ('s, 'b) io \<Rightarrow> ('s, 'b) io" where
  "andthen m n = bind m (\<lambda>_. n)"

definition gets :: "('s \<Rightarrow> 'a) \<Rightarrow> ('s, 'a) io" where
  "gets f = (\<lambda>s. (Inr (f s), s))"

definition modify :: "('s \<Rightarrow> 's) \<Rightarrow> ('s, unit) io" where
  "modify f = (\<lambda>s. (Inr (), f s))"

definition of_result :: "exn + 'a \<Rightarrow> ('s, 'a) io" where
  "of_result r = (\<lambda>s. (r, s))"

text \<open>\<open>try: m except ...: h\<close>. The handler is given every exception and re-raises what it does
  not catch; \<open>catching c h\<close> is an \<open>except c\<close> clause.\<close>

definition try_except :: "('s, 'a) io \<Rightarrow> (exn \<Rightarrow> ('s, 'a) io) \<Rightarrow> ('s, 'a) io" where
  "try_except m h = (\<lambda>s. case m s of (Inl e, s') \<Rightarrow> h e s' | (Inr x, s') \<Rightarrow> (Inr x, s'))"

definition catching :: "string \<Rightarrow> (exn \<Rightarrow> ('s, 'a) io) \<Rightarrow> exn \<Rightarrow> ('s, 'a) io" where
  "catching c h e = (if isinstance e c then h e else raise e)"

text \<open>\<open>try: m finally: f\<close>. An exception of the \<open>finally\<close> block replaces the result.\<close>

definition try_finally :: "('s, 'a) io \<Rightarrow> ('s, unit) io \<Rightarrow> ('s, 'a) io" where
  "try_finally m f = (\<lambda>s. case m s of (r, s') \<Rightarrow>
     (case f s' of (Inl e, s'') \<Rightarrow> (Inl e, s'') | (Inr _, s'') \<Rightarrow> (r, s'')))"

lemmas [io_defs] = ret_def raise_def bind_def andthen_def gets_def modify_def of_result_def
  try_except_def catching_def try_finally_def

lemma bind_ret [simp]: "bind (ret x) f = f x"
  by (simp add: io_defs)

lemma ret_bind [simp]: "bind m ret = m"
  by (auto simp: io_defs fun_eq_iff split: prod.splits sum.splits)

lemma bind_raise [simp]: "bind (raise e) f = raise e"
  by (simp add: io_defs)

lemma bind_bind: "bind (bind m f) g = bind m (\<lambda>x. bind (f x) g)"
  by (auto simp: io_defs fun_eq_iff split: prod.splits sum.splits)

lemma try_except_ret [simp]: "try_except (ret x) h = ret x"
  by (simp add: io_defs)

lemma try_except_raise [simp]: "try_except (raise e) h = h e"
  by (simp add: io_defs)

subsection \<open>Local variables and the context of a handler\<close>

text \<open>
  A pipeline handler works on the context object it was given and on the world: its state is a
  pair. \<open>eff\<close> runs a world action under a context. A local variable that an inner function
  assigns (\<open>nonlocal\<close>) is one more component: \<open>with_var\<close> opens its scope and \<open>up\<close> runs,
  inside the scope, an action that does not touch it.
\<close>

definition eff :: "('w, 'a) io \<Rightarrow> ('c \<times> 'w, 'a) io" where
  "eff m = (\<lambda>(c, w). case m w of (r, w') \<Rightarrow> (r, (c, w')))"

definition with_var :: "'l \<Rightarrow> (('l \<times> 'c) \<times> 'w, 'a) io \<Rightarrow> ('c \<times> 'w, 'a) io" where
  "with_var v m = (\<lambda>(c, w). case m ((v, c), w) of (r, ((_, c'), w')) \<Rightarrow> (r, (c', w')))"

definition up :: "('c \<times> 'w, 'a) io \<Rightarrow> (('l \<times> 'c) \<times> 'w, 'a) io" where
  "up m = (\<lambda>((l, c), w). case m (c, w) of (r, (c', w')) \<Rightarrow> (r, ((l, c'), w')))"

lemmas [io_defs] = eff_def with_var_def up_def

subsection \<open>What an action may raise\<close>

text \<open>\<open>raises P m\<close>: in whatever state \<open>m\<close> runs, an exception it ends with satisfies \<open>P\<close>.
  A \<open>quiet\<close> action never raises; a \<open>mild\<close> one raises only what \<open>except Exception\<close>
  catches (so it is not cancelled while it runs). The rules below go through an action by its
  syntax, and are what the proofs that an operation never raises consist of.\<close>

definition raises :: "(exn \<Rightarrow> bool) \<Rightarrow> ('s, 'a) io \<Rightarrow> bool" where
  "raises P m \<longleftrightarrow> (\<forall>s e s'. m s = (Inl e, s') \<longrightarrow> P e)"

abbreviation quiet :: "('s, 'a) io \<Rightarrow> bool" where
  "quiet m \<equiv> raises (\<lambda>_. False) m"

abbreviation mild :: "('s, 'a) io \<Rightarrow> bool" where
  "mild m \<equiv> raises (\<lambda>e. ordinary e) m"

named_theorems raises_intros \<open>rules that go through an action by its syntax\<close>

lemma raisesI: "(\<And>s e s'. m s = (Inl e, s') \<Longrightarrow> P e) \<Longrightarrow> raises P m"
  by (simp add: raises_def)

lemma raisesD: "raises P m \<Longrightarrow> m s = (Inl e, s') \<Longrightarrow> P e"
  by (auto simp: raises_def)

lemma raises_mono: "raises P m \<Longrightarrow> (\<And>e. P e \<Longrightarrow> Q e) \<Longrightarrow> raises Q m"
  by (fastforce simp: raises_def)

lemma quiet_raises: "quiet m \<Longrightarrow> raises P m"
  by (auto simp: raises_def)

lemma quiet_result:
  assumes "quiet m" obtains x s' where "m s = (Inr x, s')"
proof (cases "m s")
  case (Pair r s')
  with assms show thesis by (cases r) (auto simp: raises_def intro: that)
qed

lemma raises_ret [raises_intros]: "raises P (ret x)"
  by (simp add: raises_def io_defs)

lemma raises_modify [raises_intros]: "raises P (modify f)"
  by (simp add: raises_def io_defs)

lemma raises_gets [raises_intros]: "raises P (gets f)"
  by (simp add: raises_def io_defs)

lemma raises_raise [raises_intros]: "P e \<Longrightarrow> raises P (raise e)"
  by (simp add: raises_def io_defs)

lemma raises_of_result [raises_intros]: "(\<And>e. r = Inl e \<Longrightarrow> P e) \<Longrightarrow> raises P (of_result r)"
  by (simp add: raises_def io_defs)

lemma raises_bind [raises_intros]:
  "raises P m \<Longrightarrow> (\<And>x. raises P (f x)) \<Longrightarrow> raises P (bind m f)"
  by (fastforce simp: raises_def bind_def split: prod.splits sum.splits)

lemma raises_andthen [raises_intros]:
  "raises P m \<Longrightarrow> raises P n \<Longrightarrow> raises P (andthen m n)"
  by (simp add: andthen_def raises_bind)

lemma raises_try:
  "raises Q m \<Longrightarrow> (\<And>e. Q e \<Longrightarrow> raises P (h e)) \<Longrightarrow> raises P (try_except m h)"
  by (fastforce simp: raises_def try_except_def split: prod.splits sum.splits)

lemma raises_catching [raises_intros]:
  "(isinstance e c \<Longrightarrow> raises P (h e)) \<Longrightarrow> (\<not> isinstance e c \<Longrightarrow> P e) \<Longrightarrow> raises P (catching c h e)"
  by (simp add: catching_def raises_raise)

lemma raises_try_Exception [raises_intros]:
  assumes "mild m" "\<And>e. ordinary e \<Longrightarrow> raises P (h e)"
  shows "raises P (try_except m (catching ''Exception'' h))"
  by (rule raises_try [OF assms(1)]) (auto simp: catching_def intro: assms(2))

lemma raises_finally [raises_intros]:
  "raises P m \<Longrightarrow> raises P f \<Longrightarrow> raises P (try_finally m f)"
  by (fastforce simp: raises_def try_finally_def split: prod.splits sum.splits)

lemma raises_eff [raises_intros]: "raises P m \<Longrightarrow> raises P (eff m)"
  by (auto simp: raises_def eff_def split: prod.splits)

lemma raises_up [raises_intros]: "raises P m \<Longrightarrow> raises P (up m)"
  by (fastforce simp: raises_def up_def split: prod.splits)

lemma raises_with_var [raises_intros]: "raises P m \<Longrightarrow> raises P (with_var v m)"
  by (fastforce simp: raises_def with_var_def split: prod.splits)

lemma raises_If [raises_intros]:
  "(b \<Longrightarrow> raises P m) \<Longrightarrow> (\<not> b \<Longrightarrow> raises P n) \<Longrightarrow> raises P (if b then m else n)"
  by simp

subsection \<open>What an action does to its state\<close>

text \<open>\<open>leads R m\<close>: however \<open>m\<close> ends, the state it leaves is related by \<open>R\<close> to the one it started
  in. For a preorder \<open>R\<close> the rules below go through an action by its syntax. \<open>on_snd R\<close> is
  \<open>R\<close> on the world under a context.\<close>

definition leads :: "('s \<Rightarrow> 's \<Rightarrow> bool) \<Rightarrow> ('s, 'a) io \<Rightarrow> bool" where
  "leads R m \<longleftrightarrow> (\<forall>s r s'. m s = (r, s') \<longrightarrow> R s s')"

definition preorder_rel :: "('s \<Rightarrow> 's \<Rightarrow> bool) \<Rightarrow> bool" where
  "preorder_rel R \<longleftrightarrow> (\<forall>x. R x x) \<and> (\<forall>x y z. R x y \<longrightarrow> R y z \<longrightarrow> R x z)"

definition on_snd :: "('w \<Rightarrow> 'w \<Rightarrow> bool) \<Rightarrow> 'c \<times> 'w \<Rightarrow> 'c \<times> 'w \<Rightarrow> bool" where
  "on_snd R p q \<longleftrightarrow> R (snd p) (snd q)"

named_theorems leads_intros \<open>rules on what actions do to their state, by syntax\<close>

lemma leadsI: "(\<And>s r s'. m s = (r, s') \<Longrightarrow> R s s') \<Longrightarrow> leads R m"
  by (simp add: leads_def)

lemma leadsD: "leads R m \<Longrightarrow> m s = (r, s') \<Longrightarrow> R s s'"
  by (simp add: leads_def)

lemma preorder_on_snd [leads_intros]: "preorder_rel R \<Longrightarrow> preorder_rel (on_snd R)"
  by (fastforce simp: preorder_rel_def on_snd_def)

lemma leads_ret [leads_intros]: "preorder_rel R \<Longrightarrow> leads R (ret x)"
  by (simp add: leads_def preorder_rel_def io_defs)

lemma leads_raise [leads_intros]: "preorder_rel R \<Longrightarrow> leads R (raise e)"
  by (simp add: leads_def preorder_rel_def io_defs)

lemma leads_gets [leads_intros]: "preorder_rel R \<Longrightarrow> leads R (gets f)"
  by (simp add: leads_def preorder_rel_def io_defs)

lemma leads_of_result [leads_intros]: "preorder_rel R \<Longrightarrow> leads R (of_result r)"
  by (simp add: leads_def preorder_rel_def io_defs)

lemma leads_modify: "(\<And>s. R s (f s)) \<Longrightarrow> leads R (modify f)"
  by (simp add: leads_def io_defs)

lemma leads_modify_ctx [leads_intros]:
  "preorder_rel R \<Longrightarrow> (\<And>s. snd (f s) = snd s) \<Longrightarrow> leads (on_snd R) (modify f)"
  by (rule leads_modify) (simp add: on_snd_def preorder_rel_def)

lemma leads_bind [leads_intros]:
  assumes "preorder_rel R" "leads R m" "\<And>x. leads R (f x)" shows "leads R (bind m f)"
proof (rule leadsI)
  fix s r s' assume "bind m f s = (r, s')"
  then consider (stop) e where "m s = (Inl e, s')" | (go) x t where "m s = (Inr x, t)" "f x t = (r, s')"
    by (auto simp: bind_def split: prod.splits sum.splits)
  then show "R s s'"
  proof cases
    case stop
    then show ?thesis by (rule leadsD [OF assms(2)])
  next
    case go
    from leadsD [OF assms(2) go(1)] leadsD [OF assms(3) go(2)] assms(1) show ?thesis
      unfolding preorder_rel_def by blast
  qed
qed

lemma leads_andthen [leads_intros]:
  "preorder_rel R \<Longrightarrow> leads R m \<Longrightarrow> leads R n \<Longrightarrow> leads R (andthen m n)"
  by (simp add: andthen_def leads_bind)

lemma leads_try [leads_intros]:
  assumes "preorder_rel R" "leads R m" "\<And>e. leads R (h e)" shows "leads R (try_except m h)"
proof (rule leadsI)
  fix s r s' assume "try_except m h s = (r, s')"
  then consider (ok) x where "m s = (Inr x, s')" | (exc) e t where "m s = (Inl e, t)" "h e t = (r, s')"
    by (auto simp: try_except_def split: prod.splits sum.splits)
  then show "R s s'"
  proof cases
    case ok
    then show ?thesis by (rule leadsD [OF assms(2)])
  next
    case exc
    from leadsD [OF assms(2) exc(1)] leadsD [OF assms(3) exc(2)] assms(1) show ?thesis
      unfolding preorder_rel_def by blast
  qed
qed

lemma leads_catching [leads_intros]:
  "preorder_rel R \<Longrightarrow> leads R (h e) \<Longrightarrow> leads R (catching c h e)"
  by (simp add: catching_def leads_raise)

lemma leads_finally [leads_intros]:
  assumes "preorder_rel R" "leads R m" "leads R f" shows "leads R (try_finally m f)"
proof (rule leadsI)
  fix s r s' assume "try_finally m f s = (r, s')"
  then obtain r1 t r2 where "m s = (r1, t)" "f t = (r2, s')"
    by (auto simp: try_finally_def split: prod.splits sum.splits)
  with leadsD [OF assms(2)] leadsD [OF assms(3)] assms(1) show "R s s'"
    unfolding preorder_rel_def by blast
qed

lemma leads_eff [leads_intros]: "leads R m \<Longrightarrow> leads (on_snd R) (eff m)"
  by (auto simp: leads_def eff_def on_snd_def split: prod.splits)

lemma leads_up [leads_intros]: "leads (on_snd R) m \<Longrightarrow> leads (on_snd R) (up m)"
  by (fastforce simp: leads_def up_def on_snd_def split: prod.splits)

lemma leads_with_var [leads_intros]: "leads (on_snd R) m \<Longrightarrow> leads (on_snd R) (with_var v m)"
  by (fastforce simp: leads_def with_var_def on_snd_def split: prod.splits)

lemma leads_If [leads_intros]:
  "(b \<Longrightarrow> leads R m) \<Longrightarrow> (\<not> b \<Longrightarrow> leads R n) \<Longrightarrow> leads R (if b then m else n)"
  by simp

end
