(* ===== verification/Metrics.thy ===== *)
theory Metrics
  imports Complex_Main Iot_Prelude
begin

text \<open>
  The Prometheus metrics of the two services (\<open>metrics.py\<close> of each). A counter or gauge with
  labels is a constructor that takes the label values, one time series for each; a histogram is
  observed once at the end of every \<open>with X.time():\<close> block, whether or not the block raises.
\<close>

datatype counter =
    EVENTS_RECEIVED pystr pystr \<comment> \<open>\<open>device_id\<close>, \<open>event_type\<close>\<close>
  | EVENTS_VALIDATED
  | EVENTS_DROPPED pystr \<comment> \<open>\<open>reason\<close>\<close>
  | KAFKA_PRODUCE_ERRORS pystr \<comment> \<open>\<open>error_type\<close>\<close>
  | EVENTS_CONSUMED
  | EVENTS_PROCESSED pystr \<comment> \<open>\<open>event_type\<close>\<close>
  | EVENTS_DUPLICATE
  | EVENTS_DLQ pystr \<comment> \<open>\<open>error_type\<close>\<close>
  | RETRY_ATTEMPTS pystr \<comment> \<open>\<open>attempt_number\<close>\<close>
  | DB_ERRORS pystr \<comment> \<open>\<open>error_type\<close>\<close>

datatype gauge = MQTT_CONNECTED | QUEUE_SIZE | CONSUMER_LAG pystr | ACTIVE_TASKS

datatype histogram = VALIDATION_LATENCY | KAFKA_PRODUCE_LATENCY | PROCESSING_LATENCY
  | DB_WRITE_LATENCY | IDEMPOTENCY_CHECK_LATENCY

record metrics =
  counters :: "counter \<Rightarrow> nat"
  gauges :: "gauge \<Rightarrow> int"
  observed :: "histogram \<Rightarrow> nat"

definition no_metrics :: metrics where
  "no_metrics = \<lparr>counters = (\<lambda>_. 0), gauges = (\<lambda>_. 0), observed = (\<lambda>_. 0)\<rparr>"

section \<open>Declarations\<close>

text \<open>The metrics as they are declared: the exported name, the kind, and the label names. The buckets
  of a histogram are its upper bounds in seconds.\<close>

datatype metric_kind = Counter | Histogram "rat list" | Gauge

record metric_decl =
  md_name :: string
  md_kind :: metric_kind
  md_labels :: "string list"

definition counter_decl :: "string \<Rightarrow> string list \<Rightarrow> metric_decl" where
  "counter_decl n ls = \<lparr>md_name = n, md_kind = Counter, md_labels = ls\<rparr>"

definition histogram_decl :: "string \<Rightarrow> rat list \<Rightarrow> metric_decl" where
  "histogram_decl n bs = \<lparr>md_name = n, md_kind = Histogram bs, md_labels = []\<rparr>"

definition gauge_decl :: "string \<Rightarrow> string list \<Rightarrow> metric_decl" where
  "gauge_decl n ls = \<lparr>md_name = n, md_kind = Gauge, md_labels = ls\<rparr>"

definition ingest_metrics :: "metric_decl list" where
  "ingest_metrics =
     [counter_decl ''iotflow_ingestion_events_received_total'' [''device_id'', ''event_type''],
      counter_decl ''iotflow_ingestion_events_validated_total'' [],
      counter_decl ''iotflow_ingestion_events_dropped_total'' [''reason''],
      counter_decl ''iotflow_ingestion_kafka_produce_errors_total'' [''error_type''],
      histogram_decl ''iotflow_ingestion_validation_duration_seconds''
        [0.0005, 0.001, 0.005, 0.01, 0.025, 0.05, 0.1],
      histogram_decl ''iotflow_ingestion_kafka_produce_duration_seconds''
        [0.001, 0.005, 0.01, 0.05, 0.1, 0.5, 1],
      gauge_decl ''iotflow_ingestion_mqtt_connected'' [],
      gauge_decl ''iotflow_ingestion_internal_queue_size'' []]"

definition worker_metrics :: "metric_decl list" where
  "worker_metrics =
     [counter_decl ''iotflow_worker_events_consumed_total'' [],
      counter_decl ''iotflow_worker_events_processed_total'' [''event_type''],
      counter_decl ''iotflow_worker_events_duplicate_total'' [],
      counter_decl ''iotflow_worker_events_dlq_total'' [''error_type''],
      counter_decl ''iotflow_worker_retry_attempts_total'' [''attempt_number''],
      counter_decl ''iotflow_worker_db_errors_total'' [''error_type''],
      histogram_decl ''iotflow_worker_processing_duration_seconds''
        [0.005, 0.01, 0.025, 0.05, 0.1, 0.25, 0.5, 1, 2.5, 5],
      histogram_decl ''iotflow_worker_db_write_duration_seconds''
        [0.001, 0.005, 0.01, 0.05, 0.1, 0.5, 1],
      histogram_decl ''iotflow_worker_idempotency_check_duration_seconds''
        [0.0005, 0.001, 0.005, 0.01, 0.05],
      gauge_decl ''iotflow_worker_consumer_lag'' [''partition''],
      gauge_decl ''iotflow_worker_active_tasks'' []]"

lemmas decl_defs = ingest_metrics_def worker_metrics_def counter_decl_def histogram_decl_def
  gauge_decl_def

text \<open>A registry refuses a second metric of the same name and buckets that do not ascend: both
  services load.\<close>

lemma metric_names_distinct: "distinct (map md_name ingest_metrics)" "distinct (map md_name worker_metrics)"
  by (simp_all add: decl_defs)

lemma buckets_ascend:
  "d \<in> set (ingest_metrics @ worker_metrics) \<Longrightarrow> md_kind d = Histogram bs \<Longrightarrow> sorted_wrt (<) bs"
  by (auto simp: decl_defs)

text \<open>The series a counter or gauge of the model stands for: the name and the label values. As many
  values as labels are declared, so that \<open>labels(...)\<close> does not raise.\<close>

fun counter_series :: "counter \<Rightarrow> string \<times> pystr list" where
  "counter_series (EVENTS_RECEIVED d t) = (''iotflow_ingestion_events_received_total'', [d, t])"
| "counter_series EVENTS_VALIDATED = (''iotflow_ingestion_events_validated_total'', [])"
| "counter_series (EVENTS_DROPPED r) = (''iotflow_ingestion_events_dropped_total'', [r])"
| "counter_series (KAFKA_PRODUCE_ERRORS t) = (''iotflow_ingestion_kafka_produce_errors_total'', [t])"
| "counter_series EVENTS_CONSUMED = (''iotflow_worker_events_consumed_total'', [])"
| "counter_series (EVENTS_PROCESSED t) = (''iotflow_worker_events_processed_total'', [t])"
| "counter_series EVENTS_DUPLICATE = (''iotflow_worker_events_duplicate_total'', [])"
| "counter_series (EVENTS_DLQ t) = (''iotflow_worker_events_dlq_total'', [t])"
| "counter_series (RETRY_ATTEMPTS n) = (''iotflow_worker_retry_attempts_total'', [n])"
| "counter_series (DB_ERRORS t) = (''iotflow_worker_db_errors_total'', [t])"

lemma counter_labels_match:
  "\<exists>d \<in> set (ingest_metrics @ worker_metrics). md_name d = fst (counter_series c) \<and> md_kind d = Counter \<and>
     length (md_labels d) = length (snd (counter_series c))"
  by (cases c) (simp_all add: decl_defs)

text \<open>\<open>libs/shared/metrics.py\<close>; the server is one of the library.\<close>

definition start_shared_metrics_server :: "(int \<Rightarrow> ('s, unit) io) \<Rightarrow> int \<Rightarrow> ('s, unit) io" where
  "start_shared_metrics_server start_http_server port = start_http_server port"

declare start_shared_metrics_server_def [simp]

lemma counter_series_inj: "counter_series c = counter_series c' \<Longrightarrow> c = c'"
  by (cases c; cases c') simp_all

end
