(* ===== verification/Json.thy ===== *)
theory Json
  imports Complex_Main Iot_Prelude
begin

text \<open>
  The dynamically typed values of the services: what \<open>json.loads\<close> returns and
  \<open>json.dumps\<close> takes, and the dict operations the handlers use on them. A Python dict is an
  association list in insertion order; \<open>d.get(k)\<close> is \<open>map_of d k\<close> and \<open>d[k] = v\<close> is
  \<open>AList.update k v d\<close>, which keeps the place of a key that is present and appends one that is
  not. The operations on a value that may not be a dict raise as Python does.
\<close>

section \<open>Values\<close>

text \<open>A float is an IEEE double: \<open>Fin m e\<close> is \<open>m\<close> times the power \<open>e\<close> of 2. The doubles have one
  representation each, with an odd mantissa (or 0 and the exponent 0 for positive zero): this is
  \<open>double\<close>, and \<open>double_unique\<close> says so.\<close>

datatype pyfloat = Fin int int | NegZero | PosInf | NegInf | NaN

datatype json =
    JNull
  | JBool bool
  | JInt int
  | JFloat pyfloat
  | JStr pystr
  | JArr "json list"
  | JObj "(pystr \<times> json) list"

type_synonym dict = "(pystr \<times> json) list"

fun finite_float :: "pyfloat \<Rightarrow> bool" where
  "finite_float (Fin m e) = True"
| "finite_float NegZero = True"
| "finite_float _ = False"

fun double :: "pyfloat \<Rightarrow> bool" where
  "double (Fin m e) \<longleftrightarrow> m = 0 \<and> e = 0 \<or> odd m \<and> \<bar>m\<bar> < 2 ^ 53 \<and> - 1074 \<le> e \<and> \<bar>m\<bar> < 2 ^ nat (1024 - e)"
| "double _ \<longleftrightarrow> True"

definition fin_value :: "int \<Rightarrow> int \<Rightarrow> rat" where
  "fin_value m e = of_int m * 2 powi e"

lemma odd_mantissa:
  assumes "fin_value m e = fin_value m' e'" "e < e'" shows "even m"
proof -
  have "(2 :: rat) powi e' = 2 ^ nat (e' - e) * 2 powi e"
    using assms(2) by (simp add: power_int_add [symmetric] flip: power_int_of_nat)
  with assms(1) have "of_int m = (of_int (m' * 2 ^ nat (e' - e)) :: rat)"
    by (simp add: fin_value_def)
  then have "m = m' * 2 ^ nat (e' - e)" by (simp only: of_int_eq_iff)
  with assms(2) show ?thesis by simp
qed

lemma double_unique:
  assumes "double (Fin m e)" "double (Fin m' e')" "fin_value m e = fin_value m' e'"
  shows "m = m' \<and> e = e'"
proof -
  have zero: "fin_value 0 e = 0" "fin_value m e = 0 \<longleftrightarrow> m = 0" for m e by (simp_all add: fin_value_def)
  show ?thesis
  proof (cases "m = 0 \<or> m' = 0")
    case True
    with assms(3) zero have "m = 0" "m' = 0" by metis+
    with assms(1,2) show ?thesis by simp
  next
    case False
    with assms(1,2) have "odd m" "odd m'" by simp_all
    with odd_mantissa [OF assms(3)] odd_mantissa [OF assms(3) [symmetric]] have "e = e'"
      using linorder_neq_iff [of e e'] by blast
    with assms(3) show ?thesis by (simp add: fin_value_def)
  qed
qed

text \<open>The dict that is made of pairs: a key that occurs again keeps its place and takes the new
  value.\<close>

definition dict_of :: "(pystr \<times> json) list \<Rightarrow> dict" where
  "dict_of ps = foldl (\<lambda>d (k, v). AList.update k v d) [] ps"

text \<open>The truth value of \<open>if not x\<close>, \<open>x or y\<close>.\<close>

fun truthy :: "json \<Rightarrow> bool" where
  "truthy JNull = False"
| "truthy (JBool b) = b"
| "truthy (JInt i) = (i \<noteq> 0)"
| "truthy (JFloat (Fin m _)) = (m \<noteq> 0)"
| "truthy (JFloat NegZero) = False"
| "truthy (JFloat _) = True"
| "truthy (JStr s) = (s \<noteq> [])"
| "truthy (JArr xs) = (xs \<noteq> [])"
| "truthy (JObj d) = (d \<noteq> [])"

text \<open>\<open>str(i)\<close> for an int, and the text an f-string makes of a value. The text of a float, a
  list or a dict (\<open>repr\<close>) is the argument \<open>repr\<close>.\<close>

fun nat_str :: "nat \<Rightarrow> pystr" where
  "nat_str n = (if n < 10 then [48 + n] else nat_str (n div 10) @ [48 + n mod 10])"

declare nat_str.simps [simp del]

definition int_str :: "int \<Rightarrow> pystr" where
  "int_str i = (if i < 0 then 45 # nat_str (nat (- i)) else nat_str (nat i))"

fun py_str :: "(json \<Rightarrow> pystr) \<Rightarrow> json \<Rightarrow> pystr" where
  "py_str repr (JStr s) = s"
| "py_str repr JNull = lit ''None''"
| "py_str repr (JBool b) = lit (if b then ''True'' else ''False'')"
| "py_str repr (JInt i) = int_str i"
| "py_str repr v = repr v"

fun py_type :: "json \<Rightarrow> string" where
  "py_type JNull = ''NoneType''"
| "py_type (JBool _) = ''bool''"
| "py_type (JInt _) = ''int''"
| "py_type (JFloat _) = ''float''"
| "py_type (JStr _) = ''str''"
| "py_type (JArr _) = ''list''"
| "py_type (JObj _) = ''dict''"

section \<open>Attribute and item access\<close>

definition no_attribute :: "json \<Rightarrow> string \<Rightarrow> exn" where
  "no_attribute v a =
     AttributeError
       (39 # lit (py_type v) @ 39 # lit '' object has no attribute '' @ 39 # lit a @ [39])"

text \<open>\<open>v.get(k)\<close> of a value that should be a dict (\<open>None\<close> is the missing key).\<close>

fun dict_get :: "json \<Rightarrow> pystr \<Rightarrow> exn + json option" where
  "dict_get (JObj d) k = Inr (map_of d k)"
| "dict_get v k = Inl (no_attribute v ''get'')"

text \<open>\<open>v.encode("utf-8")\<close> of a value that should be a str.\<close>

fun str_encode :: "json \<Rightarrow> exn + nat list" where
  "str_encode (JStr s) = utf8_encode s"
| "str_encode v = Inl (no_attribute v ''encode'')"

lemma dict_get_Inl: "dict_get v k = Inl e \<Longrightarrow> isinstance e ''AttributeError'' \<and> ordinary e"
  by (cases v) (auto simp: no_attribute_def AttributeError_def)

lemma str_encode_ok: "encodable s \<Longrightarrow> \<exists>b. str_encode (JStr s) = Inr b"
  by (simp add: utf8_encode_def)

lemma map_of_update [simp]:
  "map_of (AList.update k v d) x = (if x = k then Some v else map_of d x)"
  by (simp add: update_conv)

lemma dict_of_distinct:
  assumes "distinct (map fst ms)" shows "dict_of ms = ms"
proof -
  have "foldl (\<lambda>d (k, v). AList.update k v d) acc ms = acc @ ms"
    if "distinct (map fst (acc @ ms))" for acc
    using that
  proof (induction ms arbitrary: acc)
    case (Cons m ms)
    obtain k v where m: "m = (k, v)" by (cases m)
    have "k \<notin> fst ` set acc" using Cons.prems m by auto
    then have "AList.update k v acc = acc @ [(k, v)]" by (induction acc) auto
    with Cons m show ?case by simp
  qed simp
  from this [of "[]"] assms show ?thesis by (simp add: dict_of_def)
qed

lemma update_not_Nil: "AList.update k v d \<noteq> []"
  by (cases d) auto

lemma dict_of_Nil: "dict_of ps = [] \<longleftrightarrow> ps = []"
proof -
  have grown: "foldl (\<lambda>d (k, v). AList.update k v d) d qs \<noteq> []" if "d \<noteq> []" for d and qs :: dict
    using that
  proof (induction qs arbitrary: d)
    case (Cons q qs)
    show ?case using Cons.IH [OF update_not_Nil] by (cases q) simp
  qed simp
  show ?thesis
  proof (cases ps)
    case (Cons p qs)
    then show ?thesis using grown [OF update_not_Nil, of "fst p" "snd p" "[]" qs]
      by (simp add: dict_of_def case_prod_beta)
  qed (simp add: dict_of_def)
qed

section \<open>Decimal text\<close>

lemma nat_str_not_Nil [simp]: "nat_str n \<noteq> []"
  by (subst nat_str.simps) simp

lemma nat_str_digits: "\<forall>c \<in> set (nat_str n). 48 \<le> c \<and> c \<le> 57"
proof (induction n rule: nat_str.induct)
  case (1 n)
  show ?case
  proof (cases "n < 10")
    case True
    then show ?thesis by (subst nat_str.simps) simp
  next
    case False
    with 1 have "\<forall>c \<in> set (nat_str (n div 10)). 48 \<le> c \<and> c \<le> 57" by simp
    with False show ?thesis by (subst nat_str.simps) auto
  qed
qed

lemma int_str_ascii: "c \<in> set (int_str i) \<Longrightarrow> c < 128"
  using nat_str_digits [of "nat i"] nat_str_digits [of "nat (- i)"]
  by (fastforce simp: int_str_def split: if_splits)

lemma encodable_int_str [simp]: "encodable (int_str i)"
  by (rule encodable_ascii) (blast dest: int_str_ascii)

end
