(* ===== verification/Datetimes.thy ===== *)
theory Datetimes
  imports Iot_Prelude
begin

text \<open>
  The part of Python's \<open>datetime\<close> that \<open>IoTEvent.ensure_utc\<close> uses: aware and naive
  datetimes by their civil fields, and \<open>astimezone(timezone.utc)\<close>, which goes through the
  proleptic ordinal of the day and raises OverflowError outside the years 1 to 9999. The two
  calendar conversions are proved inverse, so that the conversion keeps the instant.

  \<open>datetime.fromisoformat\<close> and the form in which pydantic writes a datetime are not code of
  this repository; they are arguments wherever they are used, and the locale \<open>iso_codec\<close> states
  what is relied on. \<open>iso_print\<close> and \<open>iso_parse\<close>, for the extended format that the devices of
  this repository send, satisfy it.
\<close>

section \<open>Civil dates\<close>

datatype datetime = DateTime (year: int) (month: int) (day: int) (hour: int) (minute: int)
  (second: int) (microsecond: int) (utcoffset: "int option") \<comment> \<open>in microseconds; None: naive\<close>

definition is_leap :: "int \<Rightarrow> bool" where
  "is_leap y \<longleftrightarrow> y mod 4 = 0 \<and> (y mod 100 \<noteq> 0 \<or> y mod 400 = 0)"

definition days_before_month :: "int \<Rightarrow> int \<Rightarrow> int" where
  "days_before_month y m =
     (if m \<le> 1 then 0 else if m = 2 then 31 else if m = 3 then 59 else if m = 4 then 90
      else if m = 5 then 120 else if m = 6 then 151 else if m = 7 then 181 else if m = 8 then 212
      else if m = 9 then 243 else if m = 10 then 273 else if m = 11 then 304 else 334)
     + (if 2 < m \<and> is_leap y then 1 else 0)"

definition days_in_month :: "int \<Rightarrow> int \<Rightarrow> int" where
  "days_in_month y m =
     (if m = 2 then (if is_leap y then 29 else 28)
      else if m = 4 \<or> m = 6 \<or> m = 9 \<or> m = 11 then 30 else 31)"

definition days_before_year :: "int \<Rightarrow> int" where
  "days_before_year y =
     (y - 1) * 365 + (y - 1) div 4 - (y - 1) div 100 + (y - 1) div 400"

definition ymd2ord :: "int \<Rightarrow> int \<Rightarrow> int \<Rightarrow> int" where
  "ymd2ord y m d = days_before_year y + days_before_month y m + d"

definition month_of :: "int \<Rightarrow> int \<Rightarrow> int" where
  "month_of y n =
     (if n < days_before_month y 2 then 1 else if n < days_before_month y 3 then 2
      else if n < days_before_month y 4 then 3 else if n < days_before_month y 5 then 4
      else if n < days_before_month y 6 then 5 else if n < days_before_month y 7 then 6
      else if n < days_before_month y 8 then 7 else if n < days_before_month y 9 then 8
      else if n < days_before_month y 10 then 9 else if n < days_before_month y 11 then 10
      else if n < days_before_month y 12 then 11 else 12)"

definition ord2ymd :: "int \<Rightarrow> int \<times> int \<times> int" where
  "ord2ymd k =
     (let n = k - 1; n400 = n div 146097; n = n mod 146097;
          n100 = n div 36524; n = n mod 36524;
          n4 = n div 1461; n = n mod 1461;
          n1 = n div 365; n = n mod 365;
          y = n400 * 400 + n100 * 100 + n4 * 4 + n1 + 1
      in if n1 = 4 \<or> n100 = 4 then (y - 1, 12, 31)
         else let m = month_of y n in (y, m, n - days_before_month y m + 1))"

section \<open>Instants\<close>

definition max_ordinal :: int where
  "max_ordinal = 3652059"

definition day_us :: int where
  "day_us = 86400000000"

definition time_us :: "datetime \<Rightarrow> int" where
  "time_us dt = ((hour dt * 60 + minute dt) * 60 + second dt) * 1000000 + microsecond dt"

definition local_us :: "datetime \<Rightarrow> int" where
  "local_us dt = ymd2ord (year dt) (month dt) (day dt) * day_us + time_us dt"

text \<open>The instant of an aware datetime, in microseconds.\<close>

definition instant :: "datetime \<Rightarrow> int" where
  "instant dt = local_us dt - (case utcoffset dt of None \<Rightarrow> 0 | Some off \<Rightarrow> off)"

definition valid_datetime :: "datetime \<Rightarrow> bool" where
  "valid_datetime dt \<longleftrightarrow>
     1 \<le> year dt \<and> year dt \<le> 9999 \<and> 1 \<le> month dt \<and> month dt \<le> 12 \<and>
     1 \<le> day dt \<and> day dt \<le> days_in_month (year dt) (month dt) \<and>
     0 \<le> hour dt \<and> hour dt < 24 \<and> 0 \<le> minute dt \<and> minute dt < 60 \<and>
     0 \<le> second dt \<and> second dt < 60 \<and> 0 \<le> microsecond dt \<and> microsecond dt < 1000000 \<and>
     (case utcoffset dt of None \<Rightarrow> True | Some off \<Rightarrow> - day_us < off \<and> off < day_us)"

definition of_us :: "int \<Rightarrow> datetime" where
  "of_us t =
     (case ord2ymd (t div day_us) of (y, m, d) \<Rightarrow>
      let u = t mod day_us; s = u div 1000000
      in DateTime y m d (s div 3600) (s div 60 mod 60) (s mod 60) (u mod 1000000) (Some 0))"

text \<open>\<open>dt.astimezone(timezone.utc)\<close> of an aware datetime.\<close>

definition astimezone_utc :: "datetime \<Rightarrow> exn + datetime" where
  "astimezone_utc dt =
     (case utcoffset dt of
        None \<Rightarrow> Inl (ValueError (lit ''naive datetime''))
      | Some off \<Rightarrow>
          if off = 0 then Inr dt
          else let t = local_us dt - off; k = t div day_us
               in if 0 < k \<and> k \<le> max_ordinal then Inr (of_us t)
                  else Inl (OverflowError (lit ''date value out of range'')))"

section \<open>The calendar conversions are inverse\<close>

lemma days_before_year_split:
  assumes "0 \<le> b" "b < 4" "0 \<le> c" "c < 25" "0 \<le> d" "d < 4"
  shows "days_before_year (a * 400 + b * 100 + c * 4 + d + 1) =
         146097 * a + 36524 * b + 1461 * c + 365 * d"
proof -
  let ?y = "a * 400 + b * 100 + c * 4 + d"
  have "?y div 4 = a * 100 + b * 25 + c" using assms by linarith
  moreover have "?y div 100 = a * 4 + b" using assms by linarith
  moreover have "?y div 400 = a" using assms by linarith
  ultimately show ?thesis by (simp add: days_before_year_def)
qed

lemma is_leap_split:
  assumes "0 \<le> b" "b < 4" "0 \<le> c" "c < 25" "0 \<le> d" "d < 4"
  shows "is_leap (a * 400 + b * 100 + c * 4 + d + 1) \<longleftrightarrow> d = 3 \<and> (c \<noteq> 24 \<or> b = 3)"
proof -
  let ?y = "a * 400 + b * 100 + c * 4 + d + 1"
  have "?y = (d + 1) + (a * 100 + b * 25 + c) * 4" by simp
  then have m4: "?y mod 4 = (d + 1) mod 4" by (metis mod_mult_self1)
  have "?y = (c * 4 + d + 1) + (a * 4 + b) * 100" by simp
  then have m100: "?y mod 100 = (c * 4 + d + 1) mod 100" by (metis mod_mult_self1)
  have "?y = (b * 100 + c * 4 + d + 1) + a * 400" by simp
  then have m400: "?y mod 400 = (b * 100 + c * 4 + d + 1) mod 400" by (metis mod_mult_self1)
  have d4: "(d + 1) mod 4 = 0 \<longleftrightarrow> d = 3"
    using assms mod_pos_pos_trivial [of "d + 1" 4] by (cases "d = 3") auto
  have c100: "(4 + c * 4) mod 100 = 0 \<longleftrightarrow> c = 24"
    using assms mod_pos_pos_trivial [of "4 + c * 4" 100] by (cases "c = 24") auto
  have b400: "(100 + b * 100) mod 400 = 0 \<longleftrightarrow> b = 3"
    using assms mod_pos_pos_trivial [of "100 + b * 100" 400] by (cases "b = 3") auto
  show ?thesis
    unfolding is_leap_def m4 m100 m400 d4
    using c100 b400 by (cases "d = 3"; cases "c = 24") simp_all
qed

lemma month_of_bounds:
  assumes "0 \<le> n" "n < 365 + (if is_leap y then 1 else 0)"
  shows "1 \<le> month_of y n" "month_of y n \<le> 12"
    and "days_before_month y (month_of y n) \<le> n"
    and "n < days_before_month y (month_of y n) + days_in_month y (month_of y n)"
  using assms
  by (cases "is_leap y"; auto simp: month_of_def days_before_month_def days_in_month_def)+

lemma ord2ymd_inverse:
  assumes "ord2ymd k = (y, m, d)"
  shows "ymd2ord y m d = k \<and> 1 \<le> m \<and> m \<le> 12 \<and> 1 \<le> d \<and> d \<le> days_in_month y m"
proof -
  define a where "a = (k - 1) div 146097"
  define r1 where "r1 = (k - 1) mod 146097"
  define b where "b = r1 div 36524"
  define r2 where "r2 = r1 mod 36524"
  define c where "c = r2 div 1461"
  define r3 where "r3 = r2 mod 1461"
  define e where "e = r3 div 365"
  define n where "n = r3 mod 365"
  define z where "z = a * 400 + b * 100 + c * 4 + e"
  note defs = a_def r1_def b_def r2_def c_def r3_def e_def n_def
  have k: "k = 146097 * a + r1 + 1" "0 \<le> r1" "r1 < 146097" by (simp_all add: defs)
  have r1: "r1 = 36524 * b + r2" "0 \<le> r2" "r2 < 36524" by (simp_all add: defs)
  have r2: "r2 = 1461 * c + r3" "0 \<le> r3" "r3 < 1461" by (simp_all add: defs)
  have r3: "r3 = 365 * e + n" "0 \<le> n" "n < 365" by (simp_all add: defs)
  have bounds: "0 \<le> b" "b \<le> 4" "0 \<le> c" "c < 25" "0 \<le> e" "e \<le> 4"
    using k r1 r2 r3 by linarith+
  have unfold: "ord2ymd k =
      (if e = 4 \<or> b = 4 then (z, 12, 31)
       else (z + 1, month_of (z + 1) n, n - days_before_month (z + 1) (month_of (z + 1) n) + 1))"
    by (simp only: ord2ymd_def Let_def z_def a_def [symmetric] r1_def [symmetric]
        b_def [symmetric] r2_def [symmetric] c_def [symmetric] r3_def [symmetric]
        e_def [symmetric] n_def [symmetric] add_diff_cancel_right')
  show ?thesis
  proof (cases "e = 4 \<or> b = 4")
    case True
    have full: "days_before_month z 12 + 31 = 365 + (if is_leap z then 1 else 0)" for z
      by (simp add: days_before_month_def)
    have "b = 4 \<longrightarrow> c = 0 \<and> e = 0 \<and> n = 0" using k r1 r2 r3 bounds by linarith
    moreover have "b \<noteq> 4 \<longrightarrow> e = 4 \<and> n = 0" using True k r1 r2 r3 bounds by linarith
    moreover have "\<not> (b \<noteq> 4 \<and> c = 24 \<and> b \<noteq> 3)" if "e = 4"
      using that r1 r2 r3 bounds by linarith
    ultimately have shape: "b = 4 \<and> c = 0 \<and> e = 0 \<and> n = 0 \<or>
        b < 4 \<and> e = 4 \<and> n = 0 \<and> (c \<noteq> 24 \<or> b = 3)"
      using True bounds by linarith
    then have "days_before_year z + 365 + (if is_leap z then 1 else 0) = k"
    proof
      assume *: "b = 4 \<and> c = 0 \<and> e = 0 \<and> n = 0"
      then have z: "z = a * 400 + 3 * 100 + 24 * 4 + 3 + 1" by (simp add: z_def)
      show ?thesis unfolding z
        using days_before_year_split [of 3 24 3 a] is_leap_split [of 3 24 3 a] * k r1 r2 r3
        by simp
    next
      assume *: "b < 4 \<and> e = 4 \<and> n = 0 \<and> (c \<noteq> 24 \<or> b = 3)"
      then have z: "z = a * 400 + b * 100 + c * 4 + 3 + 1" by (simp add: z_def)
      show ?thesis unfolding z
        using days_before_year_split [of b c 3 a] is_leap_split [of b c 3 a] * bounds k r1 r2 r3
        by simp
    qed
    with True assms unfold full [of z] show ?thesis
      by (auto simp: ymd2ord_def days_in_month_def)
  next
    case False
    then have lt: "b < 4" "e < 4" using bounds by auto
    have leap: "is_leap (z + 1) \<longleftrightarrow> e = 3 \<and> (c \<noteq> 24 \<or> b = 3)"
      unfolding z_def using is_leap_split [of b c e a] bounds lt by simp
    have dby: "days_before_year (z + 1) = 146097 * a + 36524 * b + 1461 * c + 365 * e"
      unfolding z_def using days_before_year_split [of b c e a] bounds lt by simp
    have "n < 365 + (if is_leap (z + 1) then 1 else 0)" using r3 by simp
    note mb = month_of_bounds [OF \<open>0 \<le> n\<close> this]
    from False assms unfold have
      "y = z + 1" "m = month_of (z + 1) n" "d = n - days_before_month (z + 1) m + 1"
      by auto
    with mb dby k r1 r2 r3 show ?thesis by (simp add: ymd2ord_def)
  qed
qed

lemma split_time:
  "((u div 1000000 div 3600 * 60 + u div 1000000 div 60 mod 60) * 60
      + u div 1000000 mod 60) * 1000000 + u mod 1000000 = (u :: int)"
proof -
  have hours: "s div 3600 = s div 60 div 60" for s :: int
    using zdiv_zmult2_eq [of 60 s 60] by simp
  show ?thesis unfolding hours by (simp only: div_mult_mod_eq)
qed

lemma utcoffset_of_us [simp]: "utcoffset (of_us t) = Some 0"
  by (simp add: of_us_def Let_def split: prod.splits)

lemma of_us_instant: "instant (of_us t) = t"
proof -
  obtain y m d where ymd: "ord2ymd (t div day_us) = (y, m, d)" by (cases "ord2ymd (t div day_us)")
  have ord: "ymd2ord y m d = t div day_us" using ord2ymd_inverse [OF ymd] by simp
  define u where "u = t mod day_us"
  have "of_us t = DateTime y m d (u div 1000000 div 3600) (u div 1000000 div 60 mod 60)
      (u div 1000000 mod 60) (u mod 1000000) (Some 0)"
    by (simp add: of_us_def ymd Let_def u_def)
  moreover from this have "time_us (of_us t) = u"
    by (simp only: time_us_def datetime.sel split_time)
  ultimately have "instant (of_us t) = t div day_us * day_us + u"
    by (simp only: instant_def local_us_def datetime.sel ord option.case diff_0_right)
  then show ?thesis by (simp add: u_def)
qed

text \<open>The ordinals 1 to \<open>max_ordinal\<close> are exactly the days of the years 1 to 9999.\<close>

lemma days_before_year_mono:
  assumes "x \<le> y" shows "days_before_year x \<le> days_before_year y"
proof -
  have century: "z div 100 = z div 4 div 25" for z :: int
    using zdiv_zmult2_eq [of 25 z 4] by simp
  have "(x - 1) div 4 \<le> (y - 1) div 4" "(x - 1) div 400 \<le> (y - 1) div 400"
    using assms by (simp_all add: zdiv_mono1)
  moreover from this(1)
  have "(x - 1) div 4 - (x - 1) div 4 div 25 \<le> (y - 1) div 4 - (y - 1) div 4 div 25" by linarith
  ultimately show ?thesis using assms by (simp add: days_before_year_def century)
qed

lemma days_in_year:
  assumes "1 \<le> m" "m \<le> 12" "1 \<le> d" "d \<le> days_in_month y m"
  shows "1 \<le> days_before_month y m + d" "days_before_month y m + d \<le> 366"
  using assms by (auto simp: days_before_month_def days_in_month_def split: if_splits)

lemma ord2ymd_year:
  assumes "ord2ymd k = (y, m, d)" "0 < k" "k \<le> max_ordinal"
  shows "1 \<le> y \<and> y \<le> 9999"
proof -
  note inv = ord2ymd_inverse [OF assms(1)]
  note yr = days_in_year [of m d y]
  have k: "k = days_before_year y + days_before_month y m + d" using inv by (simp add: ymd2ord_def)
  have "1 \<le> y"
  proof (rule ccontr)
    assume "\<not> 1 \<le> y"
    then have "days_before_year y \<le> days_before_year 0" by (intro days_before_year_mono) simp
    then have "days_before_year y \<le> - 366" by (simp add: days_before_year_def)
    with k yr inv assms(2) show False by linarith
  qed
  moreover have "y \<le> 9999"
  proof (rule ccontr)
    assume "\<not> y \<le> 9999"
    then have "days_before_year 10000 \<le> days_before_year y" by (intro days_before_year_mono) simp
    then have "3652059 \<le> days_before_year y" by (simp add: days_before_year_def)
    with k yr inv assms(3) show False by (simp add: max_ordinal_def)
  qed
  ultimately show ?thesis by simp
qed

lemma of_us_valid:
  assumes "0 < t div day_us" "t div day_us \<le> max_ordinal"
  shows "valid_datetime (of_us t)"
proof -
  obtain y m d where ymd: "ord2ymd (t div day_us) = (y, m, d)" by (cases "ord2ymd (t div day_us)")
  define u where "u = t mod day_us"
  define s where "s = u div 1000000"
  have "0 \<le> u" "u < 86400000000" by (simp_all add: u_def day_us_def)
  then have "0 \<le> s" "s < 86400" unfolding s_def by linarith+
  then have "0 \<le> s div 3600" "s div 3600 < 24" by linarith+
  moreover have "of_us t = DateTime y m d (s div 3600) (s div 60 mod 60) (s mod 60)
      (u mod 1000000) (Some 0)"
    by (simp add: of_us_def ymd Let_def u_def s_def)
  ultimately show ?thesis
    using ord2ymd_inverse [OF ymd] ord2ymd_year [OF ymd] assms
    by (simp add: valid_datetime_def day_us_def)
qed

text \<open>What \<open>astimezone(timezone.utc)\<close> returns is valid, in UTC, and the same instant.\<close>

lemma astimezone_utc_Inr:
  assumes "astimezone_utc dt = Inr dt'" "valid_datetime dt"
  shows "utcoffset dt' = Some 0 \<and> instant dt' = instant dt \<and> valid_datetime dt'"
proof (cases "utcoffset dt")
  case None
  with assms show ?thesis by (simp add: astimezone_utc_def)
next
  case (Some off)
  show ?thesis
  proof (cases "off = 0")
    case True
    with Some assms show ?thesis by (simp add: astimezone_utc_def)
  next
    case False
    with Some assms(1) have "dt' = of_us (local_us dt - off)"
      "0 < (local_us dt - off) div day_us" "(local_us dt - off) div day_us \<le> max_ordinal"
      by (auto simp: astimezone_utc_def Let_def split: if_splits)
    with Some show ?thesis
      by (simp add: of_us_valid of_us_instant) (simp add: instant_def)
  qed
qed

lemma astimezone_utc_fixed: "utcoffset dt = Some 0 \<Longrightarrow> astimezone_utc dt = Inr dt"
  by (simp add: astimezone_utc_def)

lemma astimezone_utc_ordinary: "astimezone_utc dt = Inl e \<Longrightarrow> ordinary e"
  by (auto simp: astimezone_utc_def Let_def exn_defs split: option.splits if_splits)

section \<open>The text of a datetime\<close>

text \<open>What the services rely on: \<open>fromisoformat\<close>, after \<open>ensure_utc\<close> has replaced the suffix
  \<open>Z\<close>, reads back the UTC datetimes that pydantic writes.\<close>

locale iso_codec =
  fixes fromiso :: "pystr \<Rightarrow> datetime option"
    and ser :: "datetime \<Rightarrow> pystr"
  assumes read_back: "valid_datetime dt \<Longrightarrow> utcoffset dt = Some 0 \<Longrightarrow>
    fromiso (replace_char 90 (lit ''+00:00'') (ser dt)) = Some dt"

definition dig :: "int \<Rightarrow> nat" where
  "dig n = nat (48 + n mod 10)"

definition pad2 :: "int \<Rightarrow> pystr" where
  "pad2 n = [dig (n div 10), dig n]"

definition pad4 :: "int \<Rightarrow> pystr" where
  "pad4 n = pad2 (n div 100) @ pad2 n"

definition pad6 :: "int \<Rightarrow> pystr" where
  "pad6 n = pad2 (n div 10000) @ pad4 n"

definition iso_print :: "datetime \<Rightarrow> pystr" where
  "iso_print dt =
     pad4 (year dt) @ 45 # pad2 (month dt) @ 45 # pad2 (day dt) @ 84 #
     pad2 (hour dt) @ 58 # pad2 (minute dt) @ 58 # pad2 (second dt) @
     (if microsecond dt = 0 then [] else 46 # pad6 (microsecond dt)) @ [90]"

text \<open>Decimal digits; \<open>None\<close> when a character is not one.\<close>

fun num_acc :: "int \<Rightarrow> pystr \<Rightarrow> int option" where
  "num_acc a [] = Some a"
| "num_acc a (c # cs) = (if 48 \<le> c \<and> c \<le> 57 then num_acc (a * 10 + (int c - 48)) cs else None)"

definition num :: "nat \<Rightarrow> nat \<Rightarrow> pystr \<Rightarrow> int option" where
  "num i k s = num_acc 0 (take k (drop i s))"

definition iso_offset :: "pystr \<Rightarrow> int option option" where
  "iso_offset s =
     (case s of [] \<Rightarrow> Some None
      | c # hm \<Rightarrow>
          if (c = 43 \<or> c = 45) \<and> length hm = 5 \<and> hm ! 2 = 58 then
            (case (num 0 2 hm, num 3 2 hm) of
               (Some h, Some m) \<Rightarrow>
                 if h < 24 \<and> m < 60
                 then Some (Some ((if c = 45 then - 1 else 1) * (h * 60 + m) * 60000000))
                 else None
             | _ \<Rightarrow> None)
          else None)"

definition iso_time :: "pystr \<Rightarrow> (int \<times> int \<times> int \<times> int \<times> int option) option" where
  "iso_time s =
     (if length s < 8 \<or> s ! 2 \<noteq> 58 \<or> s ! 5 \<noteq> 58 then None
      else
        let frac = 8 < length s \<and> s ! 8 = 46;
            us = (if frac then (if length s < 15 then None else num 9 6 s) else Some 0)
        in case (num 0 2 s, num 3 2 s, num 6 2 s, us, iso_offset (drop (if frac then 15 else 8) s)) of
             (Some h, Some mi, Some se, Some u, Some off) \<Rightarrow> Some (h, mi, se, u, off)
           | _ \<Rightarrow> None)"

definition iso_parse :: "pystr \<Rightarrow> datetime option" where
  "iso_parse s =
     (if length s < 19 \<or> s ! 4 \<noteq> 45 \<or> s ! 7 \<noteq> 45 then None
      else case (num 0 4 s, num 5 2 s, num 8 2 s, iso_time (drop 11 s)) of
        (Some y, Some m, Some d, Some (h, mi, se, u, off)) \<Rightarrow>
          let dt = DateTime y m d h mi se u off
          in if valid_datetime dt then Some dt else None
      | _ \<Rightarrow> None)"

lemma dig_range [simp]: "48 \<le> dig n" "dig n \<le> 57" "dig n \<noteq> 90" "dig n \<noteq> 46"
  by (auto simp: dig_def)

lemma int_dig: "int (dig n) = 48 + n mod 10"
  by (simp add: dig_def)

lemma num_acc_pad2: "0 \<le> n \<Longrightarrow> n < 100 \<Longrightarrow> num_acc a (pad2 n @ cs) = num_acc (a * 100 + n) cs"
proof -
  assume "0 \<le> n" "n < 100"
  then have "n div 10 mod 10 = n div 10" by (intro mod_pos_pos_trivial) auto
  then have "n div 10 mod 10 * 10 + n mod 10 = n" by (simp only: div_mult_mod_eq)
  then show ?thesis by (simp add: pad2_def int_dig algebra_simps)
qed

lemma pad2_mod: "pad2 n = pad2 (n mod 100)"
proof -
  have "n mod 100 = 10 * (n div 10 mod 10) + n mod 10" using zmod_zmult2_eq [of 10 n 10] by simp
  then have "n mod 100 div 10 = n div 10 mod 10" by simp
  moreover have "n mod 100 mod 10 = n mod 10" by (simp add: mod_mod_cancel)
  ultimately have "n mod 100 div 10 mod 10 = n div 10 mod 10" "n mod 100 mod 10 = n mod 10"
    by (simp_all only: mod_mod_trivial)
  then show ?thesis by (simp add: pad2_def dig_def)
qed

lemma num_acc_pad4:
  assumes "0 \<le> n" "n < 10000" shows "num_acc 0 (pad4 n) = Some n"
proof -
  have low: "pad2 n = pad2 (n mod 100)" by (rule pad2_mod)
  have "n div 100 < 100" "0 \<le> n div 100" "n div 100 * 100 + n mod 100 = n" using assms by auto
  then show ?thesis
    unfolding pad4_def low using num_acc_pad2 [of "n mod 100" _ "[]"] by (simp add: num_acc_pad2)
qed

lemma num_acc_pad6:
  assumes "0 \<le> n" "n < 1000000" shows "num_acc 0 (pad6 n) = Some n"
proof -
  let ?a = "n div 10000" and ?b = "n div 100 mod 100" and ?c = "n mod 100"
  have p6: "pad6 n = pad2 ?a @ pad2 ?b @ pad2 ?c @ []"
    unfolding pad6_def pad4_def append_Nil2 pad2_mod [symmetric] by simp
  have a: "0 \<le> ?a" "?a < 100" using assms by auto
  have "?a = n div 100 div 100" using zdiv_zmult2_eq [of 100 n 100] by simp
  then have sum: "(?a * 100 + ?b) * 100 + ?c = n" by (simp only: div_mult_mod_eq)
  have "num_acc 0 (pad6 n) = num_acc ?a (pad2 ?b @ pad2 ?c @ [])"
    unfolding p6 using num_acc_pad2 [OF a, of 0] by simp
  also have "\<dots> = num_acc (?a * 100 + ?b) (pad2 ?c @ [])" by (rule num_acc_pad2) simp_all
  also have "\<dots> = num_acc ((?a * 100 + ?b) * 100 + ?c) []" by (rule num_acc_pad2) simp_all
  finally show ?thesis unfolding sum by simp
qed

lemma pad2_chars: "pad2 n = [dig (n div 10), dig n]"
  by (simp add: pad2_def)

lemma pad4_chars: "pad4 n = [dig (n div 1000), dig (n div 100), dig (n div 10), dig n]"
proof -
  have "n div 100 div 10 = n div 1000" using zdiv_zmult2_eq [of 10 n 100] by simp
  then show ?thesis by (simp add: pad4_def pad2_def)
qed

lemma length_pads [simp]: "length (pad2 n) = 2" "length (pad4 n) = 4" "length (pad6 n) = 6"
  by (simp_all add: pad2_def pad4_def pad6_def)

lemma pads_no_Z [simp]: "90 \<notin> set (pad2 n)" "90 \<notin> set (pad4 n)" "90 \<notin> set (pad6 n)"
  by (auto simp: pad2_def pad4_def pad6_def dest: sym)

lemma num_acc_pad2_Nil: "0 \<le> n \<Longrightarrow> n < 100 \<Longrightarrow> num_acc 0 (pad2 n) = Some n"
  using num_acc_pad2 [of n 0 "[]"] by simp

definition iso_utc :: "datetime \<Rightarrow> pystr" where
  "iso_utc dt =
     pad2 (hour dt) @ 58 # pad2 (minute dt) @ 58 # pad2 (second dt) @
     (if microsecond dt = 0 then [] else 46 # pad6 (microsecond dt)) @ lit ''+00:00''"

lemma lit_utc: "lit ''+00:00'' = [43, 48, 48, 58, 48, 48]"
  by (simp add: lit_def)

lemma iso_print_utc:
  "replace_char 90 (lit ''+00:00'') (iso_print dt) =
     pad4 (year dt) @ 45 # pad2 (month dt) @ 45 # pad2 (day dt) @ 84 # iso_utc dt"
  using replace_char_id [of 90 "pad4 (year dt)"] replace_char_id [of 90 "pad6 (microsecond dt)"]
    replace_char_id [OF pads_no_Z(1)]
  by (simp add: iso_print_def iso_utc_def replace_char_append)
     (simp add: replace_char_def)

lemma iso_offset_utc: "iso_offset (lit ''+00:00'') = Some (Some 0)"
  by (simp add: iso_offset_def lit_utc num_def)

lemma iso_time_utc:
  assumes "valid_datetime dt"
  shows "iso_time (iso_utc dt) = Some (hour dt, minute dt, second dt, microsecond dt, Some 0)"
proof -
  have fields: "num_acc 0 (pad2 (hour dt)) = Some (hour dt)"
    "num_acc 0 (pad2 (minute dt)) = Some (minute dt)" "num_acc 0 (pad2 (second dt)) = Some (second dt)"
    "num_acc 0 (pad6 (microsecond dt)) = Some (microsecond dt)"
    using assms by (auto intro!: num_acc_pad2_Nil num_acc_pad6 simp: valid_datetime_def)
  show ?thesis
  proof (cases "microsecond dt = 0")
    case True
    with fields(1-3) show ?thesis
      using iso_offset_utc by (simp add: iso_time_def iso_utc_def num_def pad2_chars lit_utc)
  next
    case False
    obtain a b c d e f where p6: "pad6 (microsecond dt) = [a, b, c, d, e, f]"
      by (simp add: pad6_def pad4_chars pad2_chars)
    with False fields show ?thesis
      using iso_offset_utc by (simp add: iso_time_def iso_utc_def num_def pad2_chars lit_utc)
  qed
qed

lemma iso_parse_print:
  assumes "valid_datetime dt" "utcoffset dt = Some 0"
  shows "iso_parse (replace_char 90 (lit ''+00:00'') (iso_print dt)) = Some dt"
proof -
  have fields: "num_acc 0 (pad4 (year dt)) = Some (year dt)"
    "num_acc 0 (pad2 (month dt)) = Some (month dt)" "num_acc 0 (pad2 (day dt)) = Some (day dt)"
    using assms(1)
    by (auto intro!: num_acc_pad2_Nil num_acc_pad4 simp: valid_datetime_def days_in_month_def
        split: if_splits)
  have len: "8 \<le> length (iso_utc dt)" by (simp add: iso_utc_def)
  have "DateTime (year dt) (month dt) (day dt) (hour dt) (minute dt) (second dt) (microsecond dt)
      (Some 0) = dt"
    using assms(2) by (cases dt) simp
  moreover define s where
    "s = pad4 (year dt) @ 45 # pad2 (month dt) @ 45 # pad2 (day dt) @ 84 # iso_utc dt"
  then have s: "s = [dig (year dt div 1000), dig (year dt div 100), dig (year dt div 10),
      dig (year dt), 45, dig (month dt div 10), dig (month dt), 45, dig (day dt div 10),
      dig (day dt), 84] @ iso_utc dt"
    by (simp add: pad2_chars pad4_chars)
  have "num 0 4 s = Some (year dt)" "num 5 2 s = Some (month dt)" "num 8 2 s = Some (day dt)"
    using fields by (simp_all add: s num_def pad2_chars pad4_chars)
  moreover have "drop 11 s = iso_utc dt" "s ! 4 = 45" "s ! 7 = 45" "\<not> length s < 19"
    using len by (simp_all add: s)
  ultimately show ?thesis
    using iso_time_utc [OF assms(1)] assms(1)
    by (simp add: iso_print_utc s_def [symmetric] iso_parse_def)
qed

interpretation iso: iso_codec iso_parse iso_print
  by unfold_locales (rule iso_parse_print)

end
