(* ===== verification/World.thy ===== *)
theory World
  imports Config Metrics Json Datetimes
begin

text \<open>
  The state the services run on, and what they call outside their own code.

  Redis, PostgreSQL, Kafka and the host (clock, random numbers, uuid4) are not code of this
  repository. Their states are the type parameters \<open>'r\<close>, \<open>'p\<close>, \<open>'k\<close>, \<open>'h\<close> of the world, and
  their operations are the arguments \<open>redis_api\<close>, \<open>pg_api\<close>, \<open>kafka_api\<close>, \<open>host_api\<close> that every
  definition using them takes. An operation returns an exception or a value with the state the
  service is left in, so it may fail in any way, also after it took effect. What a property needs
  of a service is stated by the locale of that service.

  The rest of the world is the processes' own: the metrics, and the two module or object variables
  that outlive a call, \<open>KafkaProducerClient._producer\<close> and \<open>db._pool\<close>.
\<close>

section \<open>Services\<close>

record 'r redis_api =
  r_set_nx :: "pystr \<Rightarrow> pystr \<Rightarrow> int \<Rightarrow> ('r, bool) io"
    \<comment> \<open>\<open>set(key, value, nx=True, ex=ttl)\<close>: True is the reply True, False the reply None\<close>
  r_pipeline :: "(pystr \<times> pystr \<times> int) list \<Rightarrow> ('r, bool list) io"
    \<comment> \<open>a pipeline of such commands and its \<open>execute()\<close>\<close>
  r_delete :: "pystr \<Rightarrow> ('r, int) io"
  r_incr :: "pystr \<Rightarrow> ('r, int) io"
  r_expire :: "pystr \<Rightarrow> int \<Rightarrow> ('r, int) io"
  r_script :: "('r, int) io \<Rightarrow> ('r, int) io"
    \<comment> \<open>runs a registered script, whose commands are the argument\<close>
  r_ping :: "('r, unit) io"
  r_close :: "('r, unit) io"

text \<open>The statements the code sends, by the SQL text they stand for and its arguments.\<close>

datatype sql =
    InsertEvent pystr pystr pystr pystr json json datetime
      \<comment> \<open>\<open>event_id\<close>, \<open>device_id\<close>, \<open>event_type\<close>, \<open>schema_version\<close>, \<open>payload\<close>, \<open>metadata\<close>, \<open>raw_timestamp\<close>\<close>
  | InsertDevice pystr
  | UpsertDeviceState pystr pystr pystr datetime json
      \<comment> \<open>\<open>device_id\<close>, \<open>event_id\<close>, \<open>event_type\<close>, \<open>last_seen_at\<close>, \<open>last_payload\<close>\<close>
  | InsertDlqEvent json json pystr json pystr int
      \<comment> \<open>\<open>event_id\<close>, \<open>device_id\<close>, \<open>original_topic\<close>, \<open>raw_payload\<close>, \<open>error_message\<close>, \<open>retry_count\<close>\<close>

record 'p pg_api =
  pg_execute :: "sql \<Rightarrow> ('p, pystr) io" \<comment> \<open>returns the command tag\<close>
  pg_create_pool :: "worker_settings \<Rightarrow> ('p, unit) io"
  pg_close_pool :: "('p, unit) io"

text \<open>A record's value is the JSON value whose text \<open>json.dumps\<close> sends, its key is bytes.\<close>

record producer_config =
  bootstrap_servers :: pystr
  acks :: pystr
  linger_ms :: int
  compression_type :: "pystr option"
  enable_idempotence :: bool

record 'k kafka_api =
  k_start :: "producer_config \<Rightarrow> ('k, unit) io"
  k_stop :: "('k, unit) io"
  k_send_and_wait :: "pystr \<Rightarrow> json \<Rightarrow> nat list option \<Rightarrow> ('k, unit) io"
  k_send :: "pystr \<Rightarrow> json \<Rightarrow> nat list option \<Rightarrow> ('k, unit) io"
  k_flush :: "('k, unit) io"

record 'h host_api =
  h_uuid4 :: "'h \<Rightarrow> pystr \<times> 'h"
  h_monotonic :: "'h \<Rightarrow> rat \<times> 'h"
  h_now_iso :: "'h \<Rightarrow> pystr \<times> 'h" \<comment> \<open>\<open>datetime.now(timezone.utc).isoformat()\<close>\<close>
  h_uniform :: "rat \<Rightarrow> rat \<Rightarrow> 'h \<Rightarrow> rat \<times> 'h"
  h_sleep :: "rat \<Rightarrow> ('h, unit) io"

text \<open>Pure functions of the libraries: \<open>datetime.fromisoformat\<close>, the text in which pydantic
  writes a datetime, \<open>repr\<close> of the values other than str, int, bool and None, pydantic's text
  for a list of validation errors (field and message), what its serializer makes of a key that
  UTF-8 does not encode, and the depth beyond which it refuses to serialize.\<close>

record pylib =
  fromisoformat :: "pystr \<Rightarrow> datetime option"
  ser_datetime :: "datetime \<Rightarrow> pystr"
  py_repr :: "json \<Rightarrow> pystr"
  error_text :: "(string \<times> string) list \<Rightarrow> pystr"
  lossy_key :: "pystr \<Rightarrow> pystr"
  dump_limit :: nat

record ('r, 'p, 'k, 'h) services =
  redis_of :: "'r redis_api"
  pg_of :: "'p pg_api"
  kafka_of :: "'k kafka_api"
  host_of :: "'h host_api"
  py_of :: pylib

section \<open>The world\<close>

record ('r, 'p, 'k, 'h) world =
  redis :: 'r
  postgres :: 'p
  kafka :: 'k
  host :: 'h
  met :: metrics
  producer_set :: bool \<comment> \<open>\<open>KafkaProducerClient._producer is not None\<close>\<close>
  pool_set :: bool \<comment> \<open>\<open>db._pool is not None\<close>\<close>

definition on_redis :: "('r, 'a) io \<Rightarrow> (('r, 'p, 'k, 'h) world, 'a) io" where
  "on_redis m = (\<lambda>w. case m (redis w) of (r, s) \<Rightarrow> (r, w\<lparr>redis := s\<rparr>))"

definition on_pg :: "('p, 'a) io \<Rightarrow> (('r, 'p, 'k, 'h) world, 'a) io" where
  "on_pg m = (\<lambda>w. case m (postgres w) of (r, s) \<Rightarrow> (r, w\<lparr>postgres := s\<rparr>))"

definition on_kafka :: "('k, 'a) io \<Rightarrow> (('r, 'p, 'k, 'h) world, 'a) io" where
  "on_kafka m = (\<lambda>w. case m (kafka w) of (r, s) \<Rightarrow> (r, w\<lparr>kafka := s\<rparr>))"

definition on_host :: "('h, 'a) io \<Rightarrow> (('r, 'p, 'k, 'h) world, 'a) io" where
  "on_host m = (\<lambda>w. case m (host w) of (r, s) \<Rightarrow> (r, w\<lparr>host := s\<rparr>))"

definition ask_host :: "('h \<Rightarrow> 'a \<times> 'h) \<Rightarrow> (('r, 'p, 'k, 'h) world, 'a) io" where
  "ask_host f = (\<lambda>w. case f (host w) of (x, s) \<Rightarrow> (Inr x, w\<lparr>host := s\<rparr>))"

definition bump :: "counter \<Rightarrow> ('r, 'p, 'k, 'h) world \<Rightarrow> ('r, 'p, 'k, 'h) world" where
  "bump c w = w\<lparr>met := (met w)\<lparr>counters := (counters (met w))(c := counters (met w) c + 1)\<rparr>\<rparr>"

definition inc :: "counter \<Rightarrow> (('r, 'p, 'k, 'h) world, unit) io" where
  "inc c = modify (bump c)"

definition set_gauge :: "gauge \<Rightarrow> int \<Rightarrow> (('r, 'p, 'k, 'h) world, unit) io" where
  "set_gauge g v = modify (\<lambda>w. w\<lparr>met := (met w)\<lparr>gauges := (gauges (met w))(g := v)\<rparr>\<rparr>)"

definition add_gauge :: "gauge \<Rightarrow> int \<Rightarrow> (('r, 'p, 'k, 'h) world, unit) io" where
  "add_gauge g v = modify (\<lambda>w. w\<lparr>met := (met w)\<lparr>gauges := (gauges (met w))(g := gauges (met w) g + v)\<rparr>\<rparr>)"

definition tick :: "histogram \<Rightarrow> ('r, 'p, 'k, 'h) world \<Rightarrow> ('r, 'p, 'k, 'h) world" where
  "tick h w = w\<lparr>met := (met w)\<lparr>observed := (observed (met w))(h := observed (met w) h + 1)\<rparr>\<rparr>"

definition observe :: "histogram \<Rightarrow> (('r, 'p, 'k, 'h) world, unit) io" where
  "observe h = modify (tick h)"

text \<open>\<open>with H.time(): m\<close>\<close>

definition timed :: "histogram \<Rightarrow> (('r, 'p, 'k, 'h) world, 'a) io \<Rightarrow> (('r, 'p, 'k, 'h) world, 'a) io" where
  "timed h m = try_finally m (observe h)"

lemmas [io_defs] = on_redis_def on_pg_def on_kafka_def on_host_def ask_host_def inc_def
  set_gauge_def add_gauge_def observe_def timed_def

abbreviation tally :: "counter \<Rightarrow> ('r, 'p, 'k, 'h) world \<Rightarrow> nat" where
  "tally c w \<equiv> counters (met w) c"

lemma bump_fields [simp]:
  "redis (bump c w) = redis w" "postgres (bump c w) = postgres w" "kafka (bump c w) = kafka w"
  "host (bump c w) = host w" "producer_set (bump c w) = producer_set w"
  "pool_set (bump c w) = pool_set w" "gauges (met (bump c w)) = gauges (met w)"
  by (simp_all add: bump_def)

lemma tick_fields [simp]:
  "redis (tick h w) = redis w" "postgres (tick h w) = postgres w" "kafka (tick h w) = kafka w"
  "host (tick h w) = host w" "producer_set (tick h w) = producer_set w"
  "pool_set (tick h w) = pool_set w" "gauges (met (tick h w)) = gauges (met w)"
  "tally c (tick h w) = tally c w"
  by (simp_all add: tick_def)

lemma tally_bump [simp]: "tally d (bump c w) = tally d w + (if d = c then 1 else 0)"
  by (simp add: bump_def)

section \<open>What world actions raise\<close>

lemma raises_on_redis [raises_intros]: "raises P m \<Longrightarrow> raises P (on_redis m)"
  by (auto simp: raises_def on_redis_def split: prod.splits)

lemma raises_on_pg [raises_intros]: "raises P m \<Longrightarrow> raises P (on_pg m)"
  by (auto simp: raises_def on_pg_def split: prod.splits)

lemma raises_on_kafka [raises_intros]: "raises P m \<Longrightarrow> raises P (on_kafka m)"
  by (auto simp: raises_def on_kafka_def split: prod.splits)

lemma raises_on_host [raises_intros]: "raises P m \<Longrightarrow> raises P (on_host m)"
  by (auto simp: raises_def on_host_def split: prod.splits)

lemma raises_ask_host [raises_intros]: "raises P (ask_host f)"
  by (auto simp: raises_def ask_host_def split: prod.splits)

lemma raises_inc [raises_intros]: "raises P (inc c)"
  by (simp add: inc_def raises_modify)

lemma raises_set_gauge [raises_intros]: "raises P (set_gauge g v)"
  by (simp add: set_gauge_def raises_modify)

lemma raises_add_gauge [raises_intros]: "raises P (add_gauge g v)"
  by (simp add: add_gauge_def raises_modify)

lemma raises_timed [raises_intros]: "raises P m \<Longrightarrow> raises P (timed h m)"
  by (simp add: timed_def observe_def raises_finally raises_modify)

section \<open>What world actions do\<close>

text \<open>A relation that says nothing of a service's state is respected by the calls of that service.\<close>

lemma world_calls_same:
  "(\<And>w x. R w (w\<lparr>redis := x\<rparr>)) \<Longrightarrow> leads R (on_redis mr)"
  "(\<And>w x. R w (w\<lparr>postgres := x\<rparr>)) \<Longrightarrow> leads R (on_pg mp)"
  "(\<And>w x. R w (w\<lparr>kafka := x\<rparr>)) \<Longrightarrow> leads R (on_kafka mk)"
  "(\<And>w x. R w (w\<lparr>host := x\<rparr>)) \<Longrightarrow> leads R (on_host mh)"
  "(\<And>w x. R w (w\<lparr>host := x\<rparr>)) \<Longrightarrow> leads R (ask_host f)"
  by (auto simp: leads_def io_defs split: prod.splits)

definition same_gauges :: "('r, 'p, 'k, 'h) world \<Rightarrow> ('r, 'p, 'k, 'h) world \<Rightarrow> bool" where
  "same_gauges w w' \<longleftrightarrow> gauges (met w') = gauges (met w)"

section \<open>What world actions do to the database\<close>

text \<open>\<open>pg_rel T\<close> relates the states of the database by \<open>T\<close> and says nothing of the rest; only
  \<open>on_pg\<close> has to be looked into.\<close>

definition pg_rel :: "('p \<Rightarrow> 'p \<Rightarrow> bool) \<Rightarrow> ('r, 'p, 'k, 'h) world \<Rightarrow> ('r, 'p, 'k, 'h) world \<Rightarrow> bool" where
  "pg_rel T w w' \<longleftrightarrow> T (postgres w) (postgres w')"

lemma preorder_pg_rel [leads_intros]: "preorder_rel T \<Longrightarrow> preorder_rel (pg_rel T)"
  by (fastforce simp: preorder_rel_def pg_rel_def)

lemma leads_on_pg [leads_intros]: "leads T m \<Longrightarrow> leads (pg_rel T) (on_pg m)"
  by (auto simp: leads_def on_pg_def pg_rel_def split: prod.splits)

lemma leads_pg_elsewhere [leads_intros]:
  assumes "preorder_rel T"
  shows "leads (pg_rel T) (on_redis mr)" "leads (pg_rel T) (on_kafka mk)"
    "leads (pg_rel T) (on_host mh)" "leads (pg_rel T) (ask_host f)" "leads (pg_rel T) (inc c)"
    "leads (pg_rel T) (observe h)" "leads (pg_rel T) (set_gauge g v)" "leads (pg_rel T) (add_gauge g v)"
  using assms by (auto simp: leads_def io_defs pg_rel_def preorder_rel_def split: prod.splits)

lemma leads_timed [leads_intros]:
  "preorder_rel T \<Longrightarrow> leads (pg_rel T) m \<Longrightarrow> leads (pg_rel T) (timed h m)"
  by (simp add: timed_def leads_finally leads_pg_elsewhere preorder_pg_rel)

text \<open>No service call is cancelled: whatever it raises, \<open>except Exception\<close> catches it.\<close>

locale uncancelled =
  fixes S :: "('r, 'p, 'k, 'h) services"
  assumes mild_redis [raises_intros]:
      "mild (r_set_nx (redis_of S) key val ttl)" "mild (r_pipeline (redis_of S) cmds)"
      "mild (r_delete (redis_of S) key)" "mild (r_incr (redis_of S) key)"
      "mild (r_expire (redis_of S) key ttl)"
      "mild script \<Longrightarrow> mild (r_script (redis_of S) script)"
      "mild (r_ping (redis_of S))" "mild (r_close (redis_of S))"
    and mild_pg [raises_intros]:
      "mild (pg_execute (pg_of S) stmt)" "mild (pg_create_pool (pg_of S) cfg)"
      "mild (pg_close_pool (pg_of S))"
    and mild_kafka [raises_intros]:
      "mild (k_start (kafka_of S) pc)" "mild (k_stop (kafka_of S))"
      "mild (k_send_and_wait (kafka_of S) topic value k)"
      "mild (k_send (kafka_of S) topic value k)" "mild (k_flush (kafka_of S))"
    and mild_host [raises_intros]: "mild (h_sleep (host_of S) d)"

end
