(* ===== verification/Redis_Store.thy ===== *)
theory Redis_Store
  imports World
begin

text \<open>
  What the services rely on of Redis, as the locale \<open>redis_store\<close>, and a reference Redis that
  satisfies it.

  \<open>clock x\<close> is the server's time in seconds; \<open>value_at x t k\<close> is the text stored under \<open>k\<close> at the
  time \<open>t\<close> if no command comes before \<open>t\<close>, so that a time to live shows as a key that is there
  at one time and gone at a later one. A command takes effect at the time of the state it leaves.
  A call that fails (connection lost, timeout) may or may not have taken effect. A script runs
  atomically, at one time. Keys disappear only by DEL or at the end of their time to live: the
  server does not evict them.
\<close>

definition upd :: "('r \<Rightarrow> int \<Rightarrow> pystr \<Rightarrow> pystr option) \<Rightarrow> ('r \<Rightarrow> int) \<Rightarrow> 'r \<Rightarrow> 'r \<Rightarrow>
    pystr \<Rightarrow> (int \<Rightarrow> pystr option) \<Rightarrow> bool" where
  "upd value_at clock x x' k f \<longleftrightarrow> (\<forall>t \<ge> clock x'. \<forall>j. value_at x' t j = (if j = k then f t else value_at x t j))"

definition same :: "('r \<Rightarrow> int \<Rightarrow> pystr \<Rightarrow> pystr option) \<Rightarrow> ('r \<Rightarrow> int) \<Rightarrow> 'r \<Rightarrow> 'r \<Rightarrow> bool" where
  "same value_at clock x x' \<longleftrightarrow> clock x \<le> clock x' \<and> (\<forall>t \<ge> clock x'. \<forall>j. value_at x' t j = value_at x t j)"

text \<open>One SET NX EX: the reply \<open>b\<close>, and what it did.\<close>

definition claim_step :: "('r \<Rightarrow> int \<Rightarrow> pystr \<Rightarrow> pystr option) \<Rightarrow> ('r \<Rightarrow> int) \<Rightarrow> pystr \<Rightarrow> pystr \<Rightarrow> int \<Rightarrow>
    bool \<Rightarrow> 'r \<Rightarrow> 'r \<Rightarrow> bool" where
  "claim_step value_at clock k v ttl b x x' \<longleftrightarrow>
     clock x \<le> clock x' \<and>
     (if b then value_at x (clock x') k = None \<and>
                upd value_at clock x x' k (\<lambda>t. if t < clock x' + ttl then Some v else None)
      else value_at x (clock x') k \<noteq> None \<and> same value_at clock x x')"

text \<open>A pipeline without a transaction: the commands in order, one reply each.\<close>

fun piped :: "('r \<Rightarrow> int \<Rightarrow> pystr \<Rightarrow> pystr option) \<Rightarrow> ('r \<Rightarrow> int) \<Rightarrow> (pystr \<times> pystr \<times> int) list \<Rightarrow>
    bool list \<Rightarrow> 'r \<Rightarrow> 'r \<Rightarrow> bool" where
  "piped value_at clock [] [] x x' = same value_at clock x x'"
| "piped value_at clock ((k, v, ttl) # cs) (b # bs) x x' =
     (\<exists>y. claim_step value_at clock k v ttl b x y \<and> piped value_at clock cs bs y x')"
| "piped value_at clock _ _ x x' = False"

locale redis_store =
  fixes A :: "'r redis_api"
    and value_at :: "'r \<Rightarrow> int \<Rightarrow> pystr \<Rightarrow> pystr option"
    and clock :: "'r \<Rightarrow> int"
  assumes set_ok: "r_set_nx A k v ttl x = (Inr b, x') \<Longrightarrow> claim_step value_at clock k v ttl b x x'"
    and pipeline_ok: "r_pipeline A cmds x = (Inr bs, x') \<Longrightarrow> piped value_at clock cmds bs x x'"
    and set_fails: "r_set_nx A k v ttl x = (Inl e, x') \<Longrightarrow>
      clock x \<le> clock x' \<and>
      (\<exists>f. upd value_at clock x x' k f \<and> (value_at x (clock x') k \<noteq> None \<longrightarrow> (\<forall>t \<ge> clock x'. f t = value_at x t k)))"
    and delete_ok: "r_delete A k x = (Inr n, x') \<Longrightarrow>
      clock x \<le> clock x' \<and> upd value_at clock x x' k (\<lambda>t. None)"
    and incr_new: "value_at x (clock x) k = None \<Longrightarrow>
      \<exists>x'. r_incr A k x = (Inr 1, x') \<and> clock x' = clock x \<and>
        upd value_at clock x x' k (\<lambda>t. Some (int_str 1))"
    and incr_old: "value_at x (clock x) k = Some (int_str n) \<Longrightarrow>
      \<exists>x'. r_incr A k x = (Inr (n + 1), x') \<and> clock x' = clock x \<and>
        upd value_at clock x x' k (\<lambda>t. map_option (\<lambda>_. int_str (n + 1)) (value_at x t k))"
    and expire_ok: "value_at x (clock x) k = Some v \<Longrightarrow> 0 < ttl \<Longrightarrow>
      \<exists>x'. r_expire A k ttl x = (Inr 1, x') \<and> clock x' = clock x \<and>
        upd value_at clock x x' k (\<lambda>t. if t < clock x + ttl then Some v else None)"
    and script_ok: "r_script A s x = (Inr n, x') \<Longrightarrow> \<exists>y. same value_at clock x y \<and> s y = (Inr n, x')"
begin

text \<open>A key that is there until \<open>t1\<close>: no SET NX before that time succeeds, whichever client sends
  it, and none of them, also when it fails, changes how long the key stays.\<close>

lemma set_claimed:
  assumes "\<And>t. clock x \<le> t \<Longrightarrow> t < t1 \<Longrightarrow> value_at x t k \<noteq> None"
    and "r_set_nx A k v ttl x = (Inr b, x')" and "clock x' < t1"
  shows "\<not> b"
  using set_ok [OF assms(2)] assms(1) [of "clock x'"] assms(3)
  by (auto simp: claim_step_def)

lemma set_keeps:
  assumes "r_set_nx A k v ttl x = (r, x')" "r \<noteq> Inr True"
    and "value_at x (clock x') k \<noteq> None" and "clock x' \<le> t"
  shows "value_at x' t k = value_at x t k"
proof (cases r)
  case (Inl e)
  with assms(1) obtain f where "upd value_at clock x x' k f"
    "value_at x (clock x') k \<noteq> None \<longrightarrow> (\<forall>t \<ge> clock x'. f t = value_at x t k)"
    using set_fails by blast
  with assms(3,4) show ?thesis by (simp add: upd_def)
next
  case (Inr b)
  with assms(1,2) have "r_set_nx A k v ttl x = (Inr False, x')" by simp
  with assms(4) show ?thesis by (auto dest!: set_ok simp: claim_step_def same_def)
qed

end

section \<open>A reference Redis\<close>

text \<open>Text that is an integer in decimal form, as INCR needs it.\<close>

fun parse_nat :: "nat \<Rightarrow> pystr \<Rightarrow> nat option" where
  "parse_nat a [] = Some a"
| "parse_nat a (c # cs) = (if 48 \<le> c \<and> c \<le> 57 then parse_nat (a * 10 + (c - 48)) cs else None)"

definition parse_int :: "pystr \<Rightarrow> int option" where
  "parse_int s =
     (case s of [] \<Rightarrow> None
      | c # cs \<Rightarrow> if c = 45 then map_option (\<lambda>n. - int n) (parse_nat 0 cs)
                  else map_option int (parse_nat 0 s))"

lemma parse_nat_snoc:
  "parse_nat a (s @ [48 + d]) = (case parse_nat a s of None \<Rightarrow> None | Some n \<Rightarrow>
     if d < 10 then Some (n * 10 + d) else None)"
  by (induction s arbitrary: a) auto

lemma parse_nat_str: "parse_nat 0 (nat_str n) = Some n"
proof (induction n rule: nat_str.induct)
  case (1 n)
  then show ?case by (subst nat_str.simps) (auto simp: parse_nat_snoc)
qed

lemma parse_int_str: "parse_int (int_str n) = Some n"
proof -
  have "hd (nat_str m) \<noteq> 45" for m
    using nat_str_digits [of m] hd_in_set [OF nat_str_not_Nil [of m]] by fastforce
  then have "parse_int (nat_str m) = Some (int m)" for m
    using parse_nat_str [of m] nat_str_not_Nil [of m]
    by (auto simp: parse_int_def simp del: nat_str_not_Nil split: list.splits)
  then show ?thesis by (auto simp: int_str_def parse_int_def parse_nat_str)
qed

lemma int_str_inj [simp]: "int_str m = int_str n \<longleftrightarrow> m = n"
  by (metis option.inject parse_int_str)

text \<open>The store keeps a text and an expiry time for a key; each call takes \<open>lat\<close> seconds; the
  server answers with an error at the times where \<open>flt\<close> says so.\<close>

record ref_redis =
  rr_now :: int
  rr_store :: "pystr \<Rightarrow> (pystr \<times> int option) option"

definition rr_at :: "ref_redis \<Rightarrow> int \<Rightarrow> pystr \<Rightarrow> pystr option" where
  "rr_at x t k =
     (case rr_store x k of None \<Rightarrow> None
      | Some (v, None) \<Rightarrow> Some v
      | Some (v, Some e) \<Rightarrow> if t < e then Some v else None)"

definition rr_set_nx :: "pystr \<Rightarrow> pystr \<Rightarrow> int \<Rightarrow> (ref_redis, bool) io" where
  "rr_set_nx k v ttl x =
     (if rr_at x (rr_now x) k = None
      then (Inr True, x\<lparr>rr_store := (rr_store x)(k \<mapsto> (v, Some (rr_now x + ttl)))\<rparr>)
      else (Inr False, x))"

definition rr_incr :: "pystr \<Rightarrow> (ref_redis, int) io" where
  "rr_incr k x =
     (case rr_at x (rr_now x) k of
        None \<Rightarrow> (Inr 1, x\<lparr>rr_store := (rr_store x)(k \<mapsto> (int_str 1, None))\<rparr>)
      | Some v \<Rightarrow>
          (case parse_int v of
             None \<Rightarrow> (Inl (Exn [''ResponseError'', ''RedisError'', ''Exception'', ''BaseException'']
                            (lit ''value is not an integer or out of range'')), x)
           | Some n \<Rightarrow> (Inr (n + 1),
               x\<lparr>rr_store := (rr_store x)(k := map_option (\<lambda>(_, e). (int_str (n + 1), e)) (rr_store x k))\<rparr>)))"

definition rr_expire :: "pystr \<Rightarrow> int \<Rightarrow> (ref_redis, int) io" where
  "rr_expire k ttl x =
     (case rr_at x (rr_now x) k of
        None \<Rightarrow> (Inr 0, x)
      | Some v \<Rightarrow> (Inr 1, x\<lparr>rr_store := (rr_store x)(k \<mapsto> (v, Some (rr_now x + ttl)))\<rparr>))"

definition rr_call :: "nat \<Rightarrow> (int \<Rightarrow> exn option) \<Rightarrow> (ref_redis, 'a) io \<Rightarrow> (ref_redis, 'a) io" where
  "rr_call lat flt m x =
     (let y = x\<lparr>rr_now := rr_now x + int lat\<rparr>
      in case flt (rr_now y) of Some e \<Rightarrow> (Inl e, y) | None \<Rightarrow> m y)"

fun rr_pipeline :: "(pystr \<times> pystr \<times> int) list \<Rightarrow> (ref_redis, bool list) io" where
  "rr_pipeline [] = ret []"
| "rr_pipeline ((k, v, ttl) # cs) =
     bind (rr_set_nx k v ttl) (\<lambda>b. bind (rr_pipeline cs) (\<lambda>bs. ret (b # bs)))"

definition ref_redis :: "nat \<Rightarrow> (int \<Rightarrow> exn option) \<Rightarrow> ref_redis redis_api" where
  "ref_redis lat flt = \<lparr>
     r_set_nx = (\<lambda>k v ttl. rr_call lat flt (rr_set_nx k v ttl)),
     r_pipeline = (\<lambda>cs. rr_call lat flt (rr_pipeline cs)),
     r_delete = (\<lambda>k. rr_call lat flt (\<lambda>x. (Inr 1, x\<lparr>rr_store := (rr_store x)(k := None)\<rparr>))),
     r_incr = rr_incr,
     r_expire = rr_expire,
     r_script = rr_call lat flt,
     r_ping = rr_call lat flt (ret ()),
     r_close = ret ()\<rparr>"

definition empty_redis :: ref_redis where
  "empty_redis = \<lparr>rr_now = 0, rr_store = (\<lambda>_. None)\<rparr>"

lemmas [ref_defs] = rr_at_def rr_set_nx_def rr_incr_def rr_expire_def rr_call_def ref_redis_def
  empty_redis_def

lemma rr_at_later [simp]: "rr_at (x\<lparr>rr_now := t\<rparr>) = rr_at x"
  by (simp add: fun_eq_iff rr_at_def)

lemma rr_at_store: "rr_at (x\<lparr>rr_store := (rr_store x)(k := e)\<rparr>) t j =
    (if j = k then rr_at (x\<lparr>rr_store := (\<lambda>_. e)\<rparr>) t k else rr_at x t j)"
  by (simp add: rr_at_def)

lemma rr_call_Inr:
  "rr_call lat flt m x = (Inr v, x') \<Longrightarrow> m (x\<lparr>rr_now := rr_now x + int lat\<rparr>) = (Inr v, x')"
  by (simp add: rr_call_def Let_def split: option.splits)

lemma rr_call_Inl:
  "rr_call lat flt m x = (Inl e, x') \<Longrightarrow> x' = x\<lparr>rr_now := rr_now x + int lat\<rparr> \<or>
     m (x\<lparr>rr_now := rr_now x + int lat\<rparr>) = (Inl e, x')"
  by (auto simp: rr_call_def Let_def split: option.splits)

lemma rr_set_nx_Inl [simp]: "rr_set_nx k v ttl x \<noteq> (Inl e, x')"
  by (simp add: rr_set_nx_def)

text \<open>The commands, from the state to which the call has advanced the clock.\<close>

lemma rr_set_nx_step:
  assumes "rr_set_nx k v ttl (x\<lparr>rr_now := n\<rparr>) = (Inr b, x')" "rr_now x \<le> n"
  shows "claim_step rr_at rr_now k v ttl b x x'"
  using assms
  by (auto simp: rr_set_nx_def claim_step_def upd_def same_def rr_at_store split: if_splits)
     (auto simp: rr_at_def)

lemma rr_pipeline_piped:
  assumes "rr_pipeline cmds (x\<lparr>rr_now := n\<rparr>) = (Inr bs, x')" "rr_now x \<le> n"
  shows "piped rr_at rr_now cmds bs x x'"
  using assms
proof (induction cmds arbitrary: x n bs)
  case Nil
  then show ?case by (auto simp: io_defs same_def)
next
  case (Cons c cs)
  obtain k v ttl where c: "c = (k, v, ttl)" by (cases c)
  obtain b y where y: "rr_set_nx k v ttl (x\<lparr>rr_now := n\<rparr>) = (Inr b, y)"
    by (cases "rr_set_nx k v ttl (x\<lparr>rr_now := n\<rparr>)" rule: prod.exhaust)
       (auto simp: rr_set_nx_def split: if_splits)
  with Cons.prems c obtain bs' where bs': "rr_pipeline cs y = (Inr bs', x')" "bs = b # bs'"
    by (auto simp: io_defs split: prod.splits sum.splits)
  from bs'(1) have "rr_pipeline cs (y\<lparr>rr_now := rr_now y\<rparr>) = (Inr bs', x')" by simp
  then have "piped rr_at rr_now cs bs' y x'" using Cons.IH by blast
  with rr_set_nx_step [OF y Cons.prems(2)] c bs' show ?case by auto
qed

interpretation rr: redis_store "ref_redis lat flt" rr_at rr_now for lat flt
proof (unfold_locales, goal_cases)
  case (1 k v ttl x b x')
  then have "rr_set_nx k v ttl (x\<lparr>rr_now := rr_now x + int lat\<rparr>) = (Inr b, x')"
    by (simp add: ref_redis_def rr_call_Inr)
  then show ?case by (rule rr_set_nx_step) simp
next
  case (2 cmds x bs x')
  then have "rr_pipeline cmds (x\<lparr>rr_now := rr_now x + int lat\<rparr>) = (Inr bs, x')"
    by (simp add: ref_redis_def rr_call_Inr)
  then show ?case by (rule rr_pipeline_piped) simp
next
  case (3 k v ttl x e x')
  then have "x' = x\<lparr>rr_now := rr_now x + int lat\<rparr>"
    using rr_call_Inl by (fastforce simp: ref_redis_def)
  then have "upd rr_at rr_now x x' k (\<lambda>t. rr_at x t k)" "rr_now x \<le> rr_now x'"
    by (simp_all add: upd_def)
  then show ?case by blast
next
  case (4 k x n x')
  then have "x' = x\<lparr>rr_now := rr_now x + int lat, rr_store := (rr_store x)(k := None)\<rparr>"
    by (auto simp: ref_redis_def dest: rr_call_Inr)
  then show ?case by (simp add: upd_def rr_at_def)
next
  case (5 x k)
  then show ?case
    by (simp add: ref_redis_def rr_incr_def upd_def rr_at_store) (simp add: rr_at_def)
next
  case (6 x k n)
  then show ?case
    by (simp add: ref_redis_def rr_incr_def upd_def rr_at_store parse_int_str)
       (auto simp: rr_at_def split: option.splits)
next
  case (7 x k v ttl)
  then show ?case
    by (simp add: ref_redis_def rr_expire_def upd_def rr_at_store) (simp add: rr_at_def)
next
  case (8 s x n x')
  then have "s (x\<lparr>rr_now := rr_now x + int lat\<rparr>) = (Inr n, x')"
    by (simp add: ref_redis_def rr_call_Inr)
  moreover have "same rr_at rr_now x (x\<lparr>rr_now := rr_now x + int lat\<rparr>)"
    by (simp add: same_def)
  ultimately show ?case by blast
qed

end
