(* ===== verification/Kafka_Log.thy ===== *)
theory Kafka_Log
  imports World "HOL-Library.Multiset"
begin

text \<open>
  What the services rely on of an aiokafka producer, as the locale \<open>kafka_log\<close>, and a reference
  producer that satisfies it.

  \<open>durable x\<close> are the records the broker has acknowledged, \<open>pending x\<close> those the producer has
  accepted and not yet delivered; the background sender may move records from the second to the
  first at any time, so the laws speak of their sum. \<open>send_and_wait\<close> returns when its record is
  durable, \<open>send\<close> when it is accepted, with a future for its delivery, and \<open>flush\<close> when nothing is
  pending any more. A record whose delivery fails leaves \<open>pending\<close> without becoming durable; only
  its future tells. A call that fails may have delivered its record nevertheless.
\<close>

type_synonym krecord = "pystr \<times> json \<times> nat list option" \<comment> \<open>topic, value, key\<close>

locale kafka_log =
  fixes K :: "'k kafka_api"
    and durable :: "'k \<Rightarrow> krecord multiset"
    and pending :: "'k \<Rightarrow> krecord multiset"
  assumes send_and_wait_ok: "k_send_and_wait K t v key x = (Inr u, x') \<Longrightarrow>
      durable x + {#(t, v, key)#} \<subseteq># durable x' \<and>
      durable x' + pending x' \<subseteq># durable x + pending x + {#(t, v, key)#}"
    and send_and_wait_fails: "k_send_and_wait K t v key x = (Inl e, x') \<Longrightarrow>
      durable x \<subseteq># durable x' \<and>
      durable x' + pending x' \<subseteq># durable x + pending x + {#(t, v, key)#}"
    and send_any: "k_send K t v key x = (r, x') \<Longrightarrow>
      durable x \<subseteq># durable x' \<and>
      durable x' + pending x' \<subseteq># durable x + pending x + {#(t, v, key)#}"
    and flush_any: "k_flush K x = (ur, x') \<Longrightarrow>
      durable x \<subseteq># durable x' \<and> durable x' + pending x' \<subseteq># durable x + pending x"
    and flush_ok: "k_flush K x = (Inr u, x') \<Longrightarrow> pending x' = {#}"

section \<open>A reference producer\<close>

text \<open>The durable records and the buffer, each in order. The \<open>n\<close>-th call fails, before it does
  anything, where \<open>flt n\<close> gives an exception; the delivery of a record fails where \<open>bad\<close> says so.\<close>

record ref_kafka =
  rk_log :: "krecord list"
  rk_buffer :: "krecord list"
  rk_calls :: nat

definition rk_call :: "(nat \<Rightarrow> exn option) \<Rightarrow> (ref_kafka, 'a) io \<Rightarrow> (ref_kafka, 'a) io" where
  "rk_call flt m x =
     (let y = x\<lparr>rk_calls := rk_calls x + 1\<rparr>
      in case flt (rk_calls x) of Some e \<Rightarrow> (Inl e, y) | None \<Rightarrow> m y)"

definition ref_kafka :: "(nat \<Rightarrow> exn option) \<Rightarrow> (krecord \<Rightarrow> bool) \<Rightarrow> ref_kafka kafka_api" where
  "ref_kafka flt bad = \<lparr>
     k_start = (\<lambda>pc. rk_call flt (ret ())),
     k_stop = rk_call flt (ret ()),
     k_send_and_wait = (\<lambda>t v k. rk_call flt
       (if bad (t, v, k) then raise (Exn [''MessageSizeTooLargeError'', ''KafkaError'', ''Exception'',
                                          ''BaseException''] [])
        else modify (\<lambda>x. x\<lparr>rk_log := rk_log x @ [(t, v, k)]\<rparr>))),
     k_send = (\<lambda>t v k. rk_call flt (modify (\<lambda>x. x\<lparr>rk_buffer := rk_buffer x @ [(t, v, k)]\<rparr>))),
     k_flush = rk_call flt (modify (\<lambda>x.
       x\<lparr>rk_log := rk_log x @ filter (\<lambda>r. \<not> bad r) (rk_buffer x), rk_buffer := []\<rparr>))\<rparr>"

definition empty_kafka :: ref_kafka where
  "empty_kafka = \<lparr>rk_log = [], rk_buffer = [], rk_calls = 0\<rparr>"

definition rk_durable :: "ref_kafka \<Rightarrow> krecord multiset" where
  "rk_durable x = mset (rk_log x)"

definition rk_pending :: "ref_kafka \<Rightarrow> krecord multiset" where
  "rk_pending x = mset (rk_buffer x)"

lemmas [ref_defs] = rk_call_def ref_kafka_def empty_kafka_def

interpretation rk: kafka_log "ref_kafka flt bad" rk_durable rk_pending for flt bad
  by unfold_locales
     (auto simp: ref_kafka_def rk_call_def rk_durable_def rk_pending_def io_defs Let_def mset_filter
       split: option.splits if_splits)

section \<open>A reference host\<close>

text \<open>uuids are numbered, the clock advances by what is slept, and a random number is the middle of
  its range; a sleep is interrupted where \<open>flt\<close> says so.\<close>

record ref_host =
  rh_uuids :: nat
  rh_time :: rat
  rh_slept :: "rat list"

definition ref_host :: "ref_host host_api" where
  "ref_host = \<lparr>
     h_uuid4 = (\<lambda>x. (lit ''uuid-'' @ nat_str (rh_uuids x), x\<lparr>rh_uuids := rh_uuids x + 1\<rparr>)),
     h_monotonic = (\<lambda>x. (rh_time x, x)),
     h_now_iso = (\<lambda>x. (lit ''2026-03-19T14:00:00+00:00'', x)),
     h_uniform = (\<lambda>a b x. ((a + b) / 2, x)),
     h_sleep = (\<lambda>d. modify (\<lambda>x. x\<lparr>rh_time := rh_time x + d, rh_slept := rh_slept x @ [d]\<rparr>))\<rparr>"

definition idle_host :: ref_host where
  "idle_host = \<lparr>rh_uuids = 0, rh_time = 0, rh_slept = []\<rparr>"

lemmas [ref_defs] = ref_host_def idle_host_def

text \<open>The libraries, with the reference codec of \<open>Datetimes\<close>.\<close>

definition ref_py :: pylib where
  "ref_py = \<lparr>fromisoformat = iso_parse, ser_datetime = iso_print, py_repr = (\<lambda>_. lit ''...''),
     error_text = (\<lambda>errs. lit (concat (map fst errs))), lossy_key = map (\<lambda>c. if surrogate c then 0xFFFD else c),
     dump_limit = 255\<rparr>"

lemmas [ref_defs] = ref_py_def

end
