(* ===== verification/Models.thy ===== *)
theory Models
  imports World
begin

text \<open>
  \<open>libs/shared/models.py\<close>: the event model both services validate with, and its form as a Kafka
  value. \<open>IoTEvent\<close> is the constructor \<open>IoTEvent(**d)\<close>: every declared field is checked, the
  errors of all fields are collected into one ValidationError, keys that are not declared are
  ignored, and an exception of a validator that is not a ValueError or AssertionError leaves the
  constructor as it is. \<open>to_kafka_dict\<close> is \<open>model_dump(mode="json")\<close>, the fields in their order;
  the serializer of pydantic turns NaN and the infinities within the payload and the metadata into
  None, replaces the keys that UTF-8 does not encode, and refuses what is nested too deep.

  The two lemmas that matter to the rest are \<open>IoTEvent_valid\<close>, what a validated event satisfies,
  and \<open>IoTEvent_to_kafka_dict\<close>, that its dict validates to the same event with the payload and the
  metadata as they were dumped.
\<close>

record iot_event =
  event_id :: pystr
  device_id :: pystr
  event_type :: pystr
  schema_version :: pystr
  timestamp :: datetime
  payload :: dict
  metadata :: dict

definition ValidationError :: "pystr \<Rightarrow> exn" where
  "ValidationError m = Exn [''ValidationError'', ''ValueError'', ''Exception'', ''BaseException''] m"

section \<open>Field validators\<close>

text \<open>The pattern \<open>[0-9A-HJKMNP-TV-Z]{26}\<close> under \<open>re.IGNORECASE\<close>: besides the ASCII letters
  the flag folds U+017F (long s) to S and U+212A (Kelvin sign) to K. \<open>str.upper\<close> maps the first to
  S and leaves the second as it is.\<close>

definition fold_case :: "nat \<Rightarrow> nat" where
  "fold_case c = (if 97 \<le> c \<and> c \<le> 122 then c - 32 else if c = 0x17F then 83
                  else if c = 0x212A then 75 else c)"

definition upper_cp :: "nat \<Rightarrow> nat" where
  "upper_cp c = (if 97 \<le> c \<and> c \<le> 122 then c - 32 else if c = 0x17F then 83 else c)"

definition crockford :: "nat \<Rightarrow> bool" where
  "crockford c \<longleftrightarrow> 48 \<le> c \<and> c \<le> 57 \<or> 65 \<le> c \<and> c \<le> 72 \<or> c = 74 \<or> c = 75 \<or> c = 77 \<or> c = 78
     \<or> 80 \<le> c \<and> c \<le> 84 \<or> 86 \<le> c \<and> c \<le> 90"

definition validate_ulid :: "pystr \<Rightarrow> exn + pystr" where
  "validate_ulid v =
     (if length v = 26 \<and> list_all (\<lambda>c. crockford (fold_case c)) v then Inr (map upper_cp v)
      else Inl (ValueError (lit ''event_id must be a valid ULID (26 chars, Crockford Base32)'')))"

definition ensure_utc :: "pylib \<Rightarrow> json + datetime \<Rightarrow> exn + datetime" where
  "ensure_utc py v =
     (let parsed =
        (case v of
           Inl (JStr s) \<Rightarrow>
             (case fromisoformat py (replace_char 90 (lit ''+00:00'') s) of
                None \<Rightarrow> Inl (ValueError (lit ''Invalid isoformat string''))
              | Some dt \<Rightarrow> Inr dt)
         | Inr dt \<Rightarrow> Inr dt
         | _ \<Rightarrow> Inl (ValueError (lit ''timestamp must be an ISO 8601 string or datetime'')))
      in case parsed of
           Inl e \<Rightarrow> Inl e
         | Inr dt \<Rightarrow>
             if utcoffset dt = None
             then Inl (ValueError (lit ''timestamp must be timezone-aware (UTC)''))
             else astimezone_utc dt)"

section \<open>The constructor\<close>

type_synonym 'a field = "string + 'a" \<comment> \<open>\<open>Inl\<close> the message of the field's error\<close>

text \<open>A str with bounds on its length is read as UTF-8, one without is taken as it is.\<close>

definition str_field :: "dict \<Rightarrow> string \<Rightarrow> nat \<Rightarrow> nat option \<Rightarrow> pystr field" where
  "str_field d name lo hi =
     (case map_of d (lit name) of
        None \<Rightarrow> Inl ''Field required''
      | Some (JStr s) \<Rightarrow>
          if hi \<noteq> None \<and> \<not> encodable s
          then Inl ''Input should be a valid string, unable to parse raw data as a unicode string''
          else if length s < lo then Inl ''String is too short''
          else if (case hi of None \<Rightarrow> False | Some n \<Rightarrow> n < length s) then Inl ''String is too long''
          else Inr s
      | Some _ \<Rightarrow> Inl ''Input should be a valid string'')"

definition event_id_field :: "dict \<Rightarrow> pystr field" where
  "event_id_field d =
     (case str_field d ''event_id'' 26 (Some 26) of
        Inl m \<Rightarrow> Inl m
      | Inr s \<Rightarrow> (case validate_ulid s of Inl e \<Rightarrow> Inl ''Value error'' | Inr v \<Rightarrow> Inr v))"

definition dict_field :: "dict \<Rightarrow> string \<Rightarrow> dict field" where
  "dict_field d name =
     (case map_of d (lit name) of
        None \<Rightarrow> Inl ''Field required''
      | Some (JObj o') \<Rightarrow> Inr o'
      | Some _ \<Rightarrow> Inl ''Input should be a valid dictionary'')"

definition with_default :: "dict \<Rightarrow> string \<Rightarrow> 'a \<Rightarrow> 'a field \<Rightarrow> 'a field" where
  "with_default d name v f = (case map_of d (lit name) of None \<Rightarrow> Inr v | Some _ \<Rightarrow> f)"

text \<open>The \<open>mode="before"\<close> validator runs in the constructor: pydantic turns a ValueError or
  AssertionError into the field's error and lets anything else through (\<open>Inl\<close> here).\<close>

definition timestamp_field :: "pylib \<Rightarrow> dict \<Rightarrow> exn + datetime field" where
  "timestamp_field py d =
     (case map_of d (lit ''timestamp'') of
        None \<Rightarrow> Inr (Inl ''Field required'')
      | Some v \<Rightarrow>
          (case ensure_utc py (Inl v) of
             Inr dt \<Rightarrow> Inr (Inr dt)
           | Inl e \<Rightarrow> if isinstance e ''ValueError'' \<or> isinstance e ''AssertionError''
                      then Inr (Inl ''Value error'') else Inl e))"

definition field_errors :: "string \<Rightarrow> 'a field \<Rightarrow> (string \<times> string) list" where
  "field_errors name f = (case f of Inl m \<Rightarrow> [(name, m)] | Inr _ \<Rightarrow> [])"

definition IoTEvent :: "pylib \<Rightarrow> dict \<Rightarrow> exn + iot_event" where
  "IoTEvent py d =
     (let f_id = event_id_field d;
          f_dev = str_field d ''device_id'' 1 (Some 128);
          f_type = str_field d ''event_type'' 1 (Some 64);
          f_ver = with_default d ''schema_version'' (lit ''1.0'') (str_field d ''schema_version'' 0 None);
          f_pay = dict_field d ''payload'';
          f_meta = with_default d ''metadata'' [] (dict_field d ''metadata'')
      in case timestamp_field py d of
           Inl e \<Rightarrow> Inl e
         | Inr f_ts \<Rightarrow>
             (case (f_id, f_dev, f_type, f_ver, f_ts, f_pay, f_meta) of
                (Inr i, Inr dv, Inr t, Inr v, Inr ts, Inr p, Inr m) \<Rightarrow>
                  if p = [] then Inl (ValidationError (error_text py [('''', ''payload must not be empty'')]))
                  else Inr \<lparr>event_id = i, device_id = dv, event_type = t, schema_version = v,
                            timestamp = ts, payload = p, metadata = m\<rparr>
              | _ \<Rightarrow> Inl (ValidationError (error_text py
                  (field_errors ''event_id'' f_id @ field_errors ''device_id'' f_dev
                   @ field_errors ''event_type'' f_type @ field_errors ''schema_version'' f_ver
                   @ field_errors ''timestamp'' f_ts @ field_errors ''payload'' f_pay
                   @ field_errors ''metadata'' f_meta)))))"

text \<open>\<open>IoTEvent(**v)\<close> of a value that should be a dict.\<close>

definition IoTEvent_of :: "pylib \<Rightarrow> json \<Rightarrow> exn + iot_event" where
  "IoTEvent_of py v =
     (case v of JObj d \<Rightarrow> IoTEvent py d
      | _ \<Rightarrow> Inl (TypeError (lit ''argument after ** must be a mapping'')))"

section \<open>Serialization\<close>

text \<open>Values of the type \<open>Any\<close> in the JSON mode of the serializer.\<close>

definition dump_key :: "pylib \<Rightarrow> pystr \<Rightarrow> pystr" where
  "dump_key py k = (if encodable k then k else lossy_key py k)"

primrec dump_json :: "pylib \<Rightarrow> json \<Rightarrow> json" where
  "dump_json py JNull = JNull"
| "dump_json py (JBool b) = JBool b"
| "dump_json py (JInt i) = JInt i"
| "dump_json py (JFloat f) = (if finite_float f then JFloat f else JNull)"
| "dump_json py (JStr s) = JStr s"
| "dump_json py (JArr vs) = JArr (map (dump_json py) vs)"
| "dump_json py (JObj d) =
     JObj (dict_of (map (map_prod (dump_key py) id) (map (map_prod id (dump_json py)) d)))"

definition dump_dict :: "pylib \<Rightarrow> dict \<Rightarrow> dict" where
  "dump_dict py d = dict_of (map (map_prod (dump_key py) (dump_json py)) d)"

text \<open>The depth of a value, and the exception of a value that is too deep, which pydantic takes for a
  circular reference.\<close>

primrec levels :: "json \<Rightarrow> nat" where
  "levels JNull = 1"
| "levels (JBool b) = 1"
| "levels (JInt i) = 1"
| "levels (JFloat f) = 1"
| "levels (JStr s) = 1"
| "levels (JArr vs) = Suc (foldr max (map levels vs) 0)"
| "levels (JObj d) = Suc (foldr max (map snd (map (map_prod id levels) d)) 0)"

definition too_deep :: exn where
  "too_deep = ValueError (lit ''Circular reference detected (depth exceeded)'')"

definition to_kafka_dict :: "pylib \<Rightarrow> iot_event \<Rightarrow> exn + dict" where
  "to_kafka_dict py ev =
     (if dump_limit py < levels (JObj (payload ev)) \<or> dump_limit py < levels (JObj (metadata ev))
      then Inl too_deep
      else Inr
       [(lit ''event_id'', JStr (event_id ev)),
        (lit ''device_id'', JStr (device_id ev)),
        (lit ''event_type'', JStr (event_type ev)),
        (lit ''schema_version'', JStr (schema_version ev)),
        (lit ''timestamp'', JStr (ser_datetime py (timestamp ev))),
        (lit ''payload'', JObj (dump_dict py (payload ev))),
        (lit ''metadata'', JObj (dump_dict py (metadata ev)))])"

text \<open>What the dict stands for, and the values that the serializer leaves as they are: finite floats,
  and dicts with distinct keys that UTF-8 encodes.\<close>

definition dumped :: "pylib \<Rightarrow> iot_event \<Rightarrow> iot_event" where
  "dumped py ev = ev\<lparr>payload := dump_dict py (payload ev), metadata := dump_dict py (metadata ev)\<rparr>"

lemma dumped_fields [simp]:
  "event_id (dumped py ev) = event_id ev" "device_id (dumped py ev) = device_id ev"
  "event_type (dumped py ev) = event_type ev" "schema_version (dumped py ev) = schema_version ev"
  "timestamp (dumped py ev) = timestamp ev" "payload (dumped py ev) = dump_dict py (payload ev)"
  "metadata (dumped py ev) = dump_dict py (metadata ev)"
  by (simp_all add: dumped_def)

primrec native :: "json \<Rightarrow> bool" where
  "native JNull = True"
| "native (JBool b) = True"
| "native (JInt i) = True"
| "native (JFloat f) = finite_float f"
| "native (JStr s) = True"
| "native (JArr vs) = list_all id (map native vs)"
| "native (JObj d) = (distinct (map fst d) \<and> list_all encodable (map fst d) \<and>
     list_all snd (map (map_prod id native) d))"

lemma dump_dict_JObj: "dump_json py (JObj d) = JObj (dump_dict py d)"
  by (simp add: dump_dict_def prod.map_comp comp_def)

lemma dump_dict_ids:
  assumes "distinct (map fst d)" "list_all encodable (map fst d)" "\<forall>p \<in> set d. dump_json py (snd p) = snd p"
  shows "dump_dict py d = d"
proof -
  have "map (map_prod (dump_key py) (dump_json py)) d = d"
    using assms(2,3) by (intro map_idI) (fastforce simp: list_all_iff dump_key_def)
  then show ?thesis by (simp add: dump_dict_def dict_of_distinct [OF assms(1)])
qed

lemma dump_native: "native v \<Longrightarrow> dump_json py v = v"
proof (induction v)
  case (JArr vs)
  then show ?case by (auto simp: list_all_iff intro: map_idI)
next
  case (JObj d)
  have "\<forall>p \<in> set d. dump_json py (snd p) = snd p"
    using JObj by (force simp: list_all_iff snds.simps)
  with JObj.prems dump_dict_ids [of d py] show ?case
    unfolding dump_dict_JObj by simp
qed simp_all

lemma dump_dict_native: "native (JObj d) \<Longrightarrow> dump_dict py d = d"
  using dump_native [of "JObj d" py] by (simp only: dump_dict_JObj json.inject)

lemma dumped_native: "native (JObj (payload ev)) \<Longrightarrow> native (JObj (metadata ev)) \<Longrightarrow> dumped py ev = ev"
  by (simp only: dumped_def dump_dict_native) simp

lemma dump_dict_Nil: "dump_dict py d = [] \<longleftrightarrow> d = []"
  by (simp add: dump_dict_def dict_of_Nil)

section \<open>The dead letter envelope\<close>

record dlq_event =
  dlq_id :: pystr
  original_event :: dict
  original_topic :: pystr
  original_partition :: "int option"
  original_offset :: "int option"
  error_type :: pystr
  error_message :: pystr
  retry_count :: int
  failed_at :: datetime
  worker_id :: "pystr option"

definition opt_int :: "int option \<Rightarrow> json" where
  "opt_int i = (case i of None \<Rightarrow> JNull | Some n \<Rightarrow> JInt n)"

definition dlq_to_kafka_dict :: "pylib \<Rightarrow> dlq_event \<Rightarrow> exn + dict" where
  "dlq_to_kafka_dict py ev =
     (if dump_limit py < levels (JObj (original_event ev)) then Inl too_deep
      else Inr
       [(lit ''dlq_id'', JStr (dlq_id ev)),
        (lit ''original_event'', JObj (dump_dict py (original_event ev))),
        (lit ''original_topic'', JStr (original_topic ev)),
        (lit ''original_partition'', opt_int (original_partition ev)),
        (lit ''original_offset'', opt_int (original_offset ev)),
        (lit ''error_type'', JStr (error_type ev)),
        (lit ''error_message'', JStr (error_message ev)),
        (lit ''retry_count'', JInt (retry_count ev)),
        (lit ''failed_at'', JStr (ser_datetime py (failed_at ev))),
        (lit ''worker_id'', (case worker_id ev of None \<Rightarrow> JNull | Some i \<Rightarrow> JStr i))])"

section \<open>What a validated event satisfies\<close>

definition ulid_cp :: "nat \<Rightarrow> bool" where
  "ulid_cp c \<longleftrightarrow> crockford c \<or> c = 0x212A"

definition valid_iot_event :: "iot_event \<Rightarrow> bool" where
  "valid_iot_event ev \<longleftrightarrow>
     length (event_id ev) = 26 \<and> list_all ulid_cp (event_id ev) \<and>
     1 \<le> length (device_id ev) \<and> length (device_id ev) \<le> 128 \<and>
     1 \<le> length (event_type ev) \<and> length (event_type ev) \<le> 64 \<and>
     encodable (device_id ev) \<and> encodable (event_type ev) \<and>
     valid_datetime (timestamp ev) \<and> utcoffset (timestamp ev) = Some 0 \<and>
     payload ev \<noteq> []"

text \<open>\<open>fromisoformat\<close> returns datetimes whose fields are in range, as the class enforces.\<close>

definition valid_lib :: "pylib \<Rightarrow> bool" where
  "valid_lib py \<longleftrightarrow> (\<forall>s dt. fromisoformat py s = Some dt \<longrightarrow> valid_datetime dt)"

lemma fold_upper: "crockford (fold_case c) \<Longrightarrow> ulid_cp (upper_cp c)"
  by (auto simp: fold_case_def upper_cp_def ulid_cp_def split: if_splits)

lemma ulid_cp_accepted: "ulid_cp c \<Longrightarrow> crockford (fold_case c) \<and> upper_cp c = c"
  by (auto simp: fold_case_def upper_cp_def ulid_cp_def crockford_def)

lemma validate_ulid_Inr:
  "validate_ulid v = Inr r \<Longrightarrow>
   r = map upper_cp v \<and> length v = 26 \<and> length r = 26 \<and> list_all ulid_cp r"
  by (auto simp: validate_ulid_def list_all_iff fold_upper split: if_splits)

lemma validate_ulid_fixed:
  assumes "length v = 26" "list_all ulid_cp v" shows "validate_ulid v = Inr v"
proof -
  have "map upper_cp v = v" using assms by (intro map_idI) (auto simp: list_all_iff ulid_cp_accepted)
  with assms show ?thesis by (auto simp: validate_ulid_def list_all_iff ulid_cp_accepted)
qed

lemma str_field_Inr:
  "str_field d name lo (Some hi) = Inr s \<Longrightarrow>
   map_of d (lit name) = Some (JStr s) \<and> lo \<le> length s \<and> length s \<le> hi \<and> encodable s"
  by (auto simp: str_field_def split: option.splits json.splits if_splits)

lemma event_id_field_Inr:
  assumes "event_id_field d = Inr v"
  shows "\<exists>s. map_of d (lit ''event_id'') = Some (JStr s) \<and> v = map upper_cp s \<and>
    length v = 26 \<and> list_all ulid_cp v"
  using assms validate_ulid_Inr
  by (fastforce simp: event_id_field_def dest: str_field_Inr split: sum.splits)

lemma timestamp_field_Inr:
  assumes "timestamp_field py d = Inr (Inr dt)" "valid_lib py"
  shows "valid_datetime dt \<and> utcoffset dt = Some 0"
proof -
  from assms(1) obtain v where "ensure_utc py (Inl v) = Inr dt"
    by (auto simp: timestamp_field_def split: option.splits sum.splits if_splits)
  then obtain dt0 s where "fromisoformat py s = Some dt0" "astimezone_utc dt0 = Inr dt"
    by (auto simp: ensure_utc_def Let_def split: json.splits option.splits if_splits)
  with assms(2) astimezone_utc_Inr show ?thesis by (auto simp: valid_lib_def)
qed

text \<open>The fields of an event that validated, one fact each.\<close>

lemma IoTEvent_fields:
  assumes "IoTEvent py d = Inr ev"
  shows "event_id_field d = Inr (event_id ev)"
    and "str_field d ''device_id'' 1 (Some 128) = Inr (device_id ev)"
    and "str_field d ''event_type'' 1 (Some 64) = Inr (event_type ev)"
    and "timestamp_field py d = Inr (Inr (timestamp ev))"
    and "dict_field d ''payload'' = Inr (payload ev)"
    and "payload ev \<noteq> []"
  using assms
  by (auto simp: IoTEvent_def Let_def split: sum.splits if_splits)

lemma IoTEvent_valid:
  assumes "IoTEvent py d = Inr ev" "valid_lib py"
  shows "valid_iot_event ev"
  using IoTEvent_fields [OF assms(1)] assms(2)
  by (auto simp: valid_iot_event_def dest!: event_id_field_Inr str_field_Inr timestamp_field_Inr)

lemma IoTEvent_raw_id:
  assumes "IoTEvent py d = Inr ev"
  shows "\<exists>s. map_of d (lit ''event_id'') = Some (JStr s) \<and> event_id ev = map upper_cp s"
  using event_id_field_Inr [OF IoTEvent_fields(1) [OF assms]] by auto

lemma ensure_utc_Inl: "ensure_utc py v = Inl e \<Longrightarrow> ordinary e"
  by (auto simp: ensure_utc_def Let_def exn_defs dest: astimezone_utc_ordinary
      split: sum.splits json.splits option.splits if_splits)

lemma timestamp_field_Inl: "timestamp_field py d = Inl e \<Longrightarrow> ordinary e"
  by (auto simp: timestamp_field_def dest: ensure_utc_Inl split: option.splits sum.splits if_splits)

lemma IoTEvent_Inl:
  assumes "IoTEvent py d = Inl e"
  shows "ordinary e \<and> (isinstance e ''ValidationError'' \<or> timestamp_field py d = Inl e)"
  using assms timestamp_field_Inl
  by (fastforce simp: IoTEvent_def Let_def ValidationError_def split: sum.splits if_splits)

lemma IoTEvent_of_Inl: "IoTEvent_of py v = Inl e \<Longrightarrow> ordinary e"
  by (auto simp: IoTEvent_of_def exn_defs dest: IoTEvent_Inl split: json.splits)

lemma IoTEvent_of_Inr: "IoTEvent_of py v = Inr ev \<Longrightarrow> \<exists>d. v = JObj d \<and> IoTEvent py d = Inr ev"
  by (auto simp: IoTEvent_of_def split: json.splits)

section \<open>Reading back what is published\<close>

text \<open>Keys that are not declared do not matter, in particular the \<open>_trace_id\<close> that the ingestion
  service adds.\<close>

definition declared :: "string list" where
  "declared = [''event_id'', ''device_id'', ''event_type'', ''schema_version'', ''timestamp'',
     ''payload'', ''metadata'']"

lemma IoTEvent_cong:
  assumes "\<And>k. k \<in> set declared \<Longrightarrow> map_of d (lit k) = map_of d' (lit k)"
  shows "IoTEvent py d = IoTEvent py d'"
proof -
  have "map_of d (lit ''event_id'') = map_of d' (lit ''event_id'')"
    "map_of d (lit ''device_id'') = map_of d' (lit ''device_id'')"
    "map_of d (lit ''event_type'') = map_of d' (lit ''event_type'')"
    "map_of d (lit ''schema_version'') = map_of d' (lit ''schema_version'')"
    "map_of d (lit ''timestamp'') = map_of d' (lit ''timestamp'')"
    "map_of d (lit ''payload'') = map_of d' (lit ''payload'')"
    "map_of d (lit ''metadata'') = map_of d' (lit ''metadata'')"
    by (rule assms, simp add: declared_def)+
  then show ?thesis
    by (simp only: IoTEvent_def event_id_field_def str_field_def dict_field_def with_default_def
        timestamp_field_def)
qed

lemma IoTEvent_update:
  "k \<notin> lit ` set declared \<Longrightarrow> IoTEvent py (AList.update k v d) = IoTEvent py d"
  by (rule IoTEvent_cong) auto

lemma ulid_encodable: "list_all ulid_cp s \<Longrightarrow> encodable s"
  by (auto simp: encodable_def list_all_iff ulid_cp_def crockford_def surrogate_def)

lemma IoTEvent_to_kafka_dict:
  assumes "iso_codec (fromisoformat py) (ser_datetime py)" "valid_iot_event ev"
    and "to_kafka_dict py ev = Inr v"
  shows "IoTEvent py v = Inr (dumped py ev)"
proof -
  from assms(3) have v: "v =
       [(lit ''event_id'', JStr (event_id ev)), (lit ''device_id'', JStr (device_id ev)),
        (lit ''event_type'', JStr (event_type ev)), (lit ''schema_version'', JStr (schema_version ev)),
        (lit ''timestamp'', JStr (ser_datetime py (timestamp ev))),
        (lit ''payload'', JObj (dump_dict py (payload ev))), (lit ''metadata'', JObj (dump_dict py (metadata ev)))]"
    by (auto simp: to_kafka_dict_def split: if_splits)
  have "fromisoformat py (replace_char 90 (lit ''+00:00'') (ser_datetime py (timestamp ev))) =
      Some (timestamp ev)"
    using assms by (auto simp: valid_iot_event_def intro: iso_codec.read_back)
  then have "timestamp_field py v = Inr (Inr (timestamp ev))"
    using assms(2)
    by (simp add: timestamp_field_def v ensure_utc_def valid_iot_event_def astimezone_utc_fixed)
  moreover have "event_id_field v = Inr (event_id ev)"
    using assms(2)
    by (simp add: event_id_field_def str_field_def v valid_iot_event_def validate_ulid_fixed ulid_encodable)
  moreover have "str_field v ''device_id'' 1 (Some 128) = Inr (device_id ev)"
    "str_field v ''event_type'' 1 (Some 64) = Inr (event_type ev)"
    using assms(2) by (auto simp: str_field_def v valid_iot_event_def not_less)
  moreover have "str_field v ''schema_version'' 0 None = Inr (schema_version ev)"
    "dict_field v ''payload'' = Inr (dump_dict py (payload ev))"
    "dict_field v ''metadata'' = Inr (dump_dict py (metadata ev))"
    "map_of v (lit ''schema_version'') = Some (JStr (schema_version ev))"
    "map_of v (lit ''metadata'') = Some (JObj (dump_dict py (metadata ev)))"
    by (simp_all add: str_field_def dict_field_def v)
  moreover have "dump_dict py (payload ev) \<noteq> []"
    using assms(2) by (simp add: valid_iot_event_def dump_dict_Nil)
  ultimately show ?thesis by (simp add: IoTEvent_def Let_def with_default_def dumped_def)
qed

end
