(* ===== verification/Reference.thy ===== *)
theory Reference
  imports Redis_Store Kafka_Log Models
begin

text \<open>
  The reference services put together for the ingestion side, the proof that they are never
  cancelled, and the sample event of the repository's API document, on which the witnesses of the
  properties run.
\<close>

definition no_pg :: "unit pg_api" where
  "no_pg = \<lparr>pg_execute = (\<lambda>q. ret []), pg_create_pool = (\<lambda>cfg. ret ()), pg_close_pool = ret ()\<rparr>"

definition ingest_services :: "nat \<Rightarrow> (int \<Rightarrow> exn option) \<Rightarrow> (nat \<Rightarrow> exn option) \<Rightarrow> (krecord \<Rightarrow> bool) \<Rightarrow>
    (ref_redis, unit, ref_kafka, ref_host) services" where
  "ingest_services lat rflt kflt bad = \<lparr>redis_of = ref_redis lat rflt, pg_of = no_pg,
     kafka_of = ref_kafka kflt bad, host_of = ref_host, py_of = ref_py\<rparr>"

definition good_services :: "(ref_redis, unit, ref_kafka, ref_host) services" where
  "good_services = ingest_services 1 (\<lambda>_. None) (\<lambda>_. None) (\<lambda>_. False)"

definition ingest_world :: "(ref_redis, unit, ref_kafka, ref_host) world" where
  "ingest_world = \<lparr>redis = empty_redis, postgres = (), kafka = empty_kafka, host = idle_host,
     met = no_metrics, producer_set = True, pool_set = True\<rparr>"

lemma py_of_good [simp]: "py_of good_services = ref_py"
  by (simp add: good_services_def ingest_services_def)

lemmas [ref_defs] = good_services_def ingest_services_def ingest_world_def no_metrics_def

lemma raises_rr_call:
  "raises P m \<Longrightarrow> (\<And>t e. flt t = Some e \<Longrightarrow> P e) \<Longrightarrow> raises P (rr_call lat flt m)"
  by (fastforce simp: raises_def rr_call_def Let_def split: option.splits)

lemma raises_rk_call:
  "raises P m \<Longrightarrow> (\<And>t e. flt t = Some e \<Longrightarrow> P e) \<Longrightarrow> raises P (rk_call flt m)"
  by (fastforce simp: raises_def rk_call_def Let_def split: option.splits)

lemma raises_rr_set_nx: "raises P (rr_set_nx k v ttl)"
  by (auto simp: raises_def rr_set_nx_def)

lemma mild_rr_incr: "mild (rr_incr k)"
  by (auto simp: raises_def rr_incr_def split: option.splits)

lemma raises_rr_expire: "raises P (rr_expire k ttl)"
  by (auto simp: raises_def rr_expire_def split: option.splits)

lemma raises_rr_pipeline: "raises P (rr_pipeline cs)"
proof (induction cs)
  case (Cons c cs)
  obtain k v ttl where "c = (k, v, ttl)" by (cases c)
  with Cons show ?case by (auto intro!: raises_bind raises_ret raises_rr_set_nx)
qed (simp add: raises_ret)

lemma raises_pure: "raises P (\<lambda>x. (Inr v, f x))"
  by (simp add: raises_def)

lemma ref_redis_mild:
  assumes "\<And>t e. flt t = Some e \<Longrightarrow> ordinary e"
  shows "mild (r_set_nx (ref_redis lat flt) key val ttl)" "mild (r_pipeline (ref_redis lat flt) cmds)"
    "mild (r_delete (ref_redis lat flt) key)" "mild (r_incr (ref_redis lat flt) key)"
    "mild (r_expire (ref_redis lat flt) key ttl)" "mild (r_ping (ref_redis lat flt))"
    "mild (r_close (ref_redis lat flt))"
    "mild script \<Longrightarrow> mild (r_script (ref_redis lat flt) script)"
  unfolding ref_redis_def redis_api.simps
  by (rule raises_rr_call raises_rr_set_nx raises_rr_pipeline raises_pure mild_rr_incr
      raises_rr_expire raises_ret assms | assumption)+

lemma ref_kafka_mild:
  assumes "\<And>n e. flt n = Some e \<Longrightarrow> ordinary e"
  shows "mild (k_start (ref_kafka flt bad) pc)" "mild (k_stop (ref_kafka flt bad))"
    "mild (k_send_and_wait (ref_kafka flt bad) topic value k)"
    "mild (k_send (ref_kafka flt bad) topic value k)" "mild (k_flush (ref_kafka flt bad))"
  unfolding ref_kafka_def kafka_api.simps
  by (auto intro!: raises_rk_call raises_ret raises_modify raises_raise dest: assms)

lemma ref_host_mild: "mild (h_sleep ref_host d)"
  by (simp add: ref_host_def raises_modify)

lemma ingest_services_uncancelled:
  assumes "\<And>t e. rflt t = Some e \<Longrightarrow> ordinary e" "\<And>n e. kflt n = Some e \<Longrightarrow> ordinary e"
  shows "uncancelled (ingest_services lat rflt kflt bad)"
  by (unfold_locales; unfold ingest_services_def no_pg_def services.simps pg_api.simps)
     (rule ref_redis_mild ref_kafka_mild ref_host_mild raises_ret assms | assumption)+

interpretation good: uncancelled good_services
  unfolding good_services_def by (rule ingest_services_uncancelled) simp_all

section \<open>A sample event\<close>

definition sample_dict :: dict where
  "sample_dict =
     [(lit ''event_id'', JStr (lit ''01HXYZ9K2PNMQ3RT4VW5AB6CD7'')),
      (lit ''device_id'', JStr (lit ''sensor-022'')),
      (lit ''event_type'', JStr (lit ''temperature'')),
      (lit ''schema_version'', JStr (lit ''1.0'')),
      (lit ''timestamp'', JStr (lit ''2026-03-19T14:00:00Z'')),
      (lit ''payload'', JObj [(lit ''value'', JInt 72)]),
      (lit ''metadata'', JObj [])]"

definition sample_event :: iot_event where
  "sample_event = \<lparr>event_id = lit ''01HXYZ9K2PNMQ3RT4VW5AB6CD7'', device_id = lit ''sensor-022'',
     event_type = lit ''temperature'', schema_version = lit ''1.0'',
     timestamp = DateTime 2026 3 19 14 0 0 0 (Some 0), payload = [(lit ''value'', JInt 72)],
     metadata = []\<rparr>"

lemma sample_valid: "valid_iot_event sample_event"
  by (simp add: valid_iot_event_def sample_event_def valid_datetime_def days_in_month_def day_us_def)
     (simp add: lit_def ulid_cp_def crockford_def)

lemma sample_codec: "iso_codec (fromisoformat ref_py) (ser_datetime ref_py)"
  using iso.iso_codec_axioms by (simp add: ref_py_def)

lemma sample_native: "native (JObj (payload sample_event))" "native (JObj (metadata sample_event))"
  by (simp_all add: sample_event_def)

lemma sample_dumped: "dumped ref_py sample_event = sample_event"
  by (rule dumped_native [OF sample_native])

lemma sample_to_kafka: "to_kafka_dict ref_py sample_event = Inr sample_dict"
proof -
  have "\<not> dump_limit ref_py < levels (JObj (payload sample_event))"
    "\<not> dump_limit ref_py < levels (JObj (metadata sample_event))"
    by (simp_all add: sample_event_def ref_py_def)
  then show ?thesis
    unfolding to_kafka_dict_def dump_dict_native [OF sample_native(1)] dump_dict_native [OF sample_native(2)]
    by (simp add: sample_event_def sample_dict_def ref_py_def)
       (simp add: iso_print_def lit_def pad2_def pad4_def dig_def)
qed

lemma sample_IoTEvent: "IoTEvent ref_py sample_dict = Inr sample_event"
  using IoTEvent_to_kafka_dict [OF sample_codec sample_valid sample_to_kafka] by (simp add: sample_dumped)

lemma ref_valid_lib: "valid_lib ref_py"
  by (auto simp: valid_lib_def ref_py_def iso_parse_def Let_def split: option.splits if_splits)

end
