(* ===== verification/Rate_Limiter.thy ===== *)
theory Rate_Limiter
  imports Reference
begin

text \<open>
  \<open>apps/ingestion/rate_limiter.py\<close>: the Lua script over the commands INCR and EXPIRE, and
  \<open>RateLimiter.is_allowed\<close>, which runs it and lets the event through when Redis fails.

  The specification is \<open>fixed_window\<close>, a function of the times of the checks; the lemmas show the
  script to refine it: \<open>window_open\<close> is the state of a key from its first INCR on, up to and beyond
  the expiry that is set with it; the script in an open window counts up and answers whether the
  count is within the limit, and the end of the window does not move.
\<close>

definition rate_limit_lua :: "'r redis_api \<Rightarrow> pystr \<Rightarrow> int \<Rightarrow> int \<Rightarrow> ('r, int) io" where
  "rate_limit_lua A key limit window =
     bind (r_incr A key) (\<lambda>current.
       andthen (if current = 1 then andthen (r_expire A key window) (ret ()) else ret ())
         (if current > limit then ret 0 else ret 1))"

definition rate_limit_key :: "ingest_settings \<Rightarrow> pystr \<Rightarrow> pystr" where
  "rate_limit_key cfg device =
     lit ''iotflow:ratelimit:'' @ device @ lit '':''
     @ int_str (I_RATE_LIMIT_WINDOW_SECONDS cfg) @ lit ''s''"

definition is_allowed :: "('r, 'p, 'k, 'h) services \<Rightarrow> ingest_settings \<Rightarrow> pystr \<Rightarrow>
    (('r, 'p, 'k, 'h) world, bool) io" where
  "is_allowed S cfg device =
     (let key = rate_limit_key cfg device
      in try_except
           (bind (on_redis (r_script (redis_of S)
                   (rate_limit_lua (redis_of S) key (I_RATE_LIMIT_MAX_EVENTS cfg)
                      (I_RATE_LIMIT_WINDOW_SECONDS cfg))))
             (\<lambda>result. ret (result \<noteq> 0)))
           (catching ''Exception'' (\<lambda>exc. ret True)))"

section \<open>The window\<close>

definition window_open :: "('r \<Rightarrow> int \<Rightarrow> pystr \<Rightarrow> pystr option) \<Rightarrow> ('r \<Rightarrow> int) \<Rightarrow> pystr \<Rightarrow> int \<Rightarrow> int \<Rightarrow>
    'r \<Rightarrow> bool" where
  "window_open value_at clock key stop n x \<longleftrightarrow>
     (\<forall>t \<ge> clock x. value_at x t key = (if t < stop then Some (int_str n) else None))"

lemma window_open_same:
  "window_open value_at clock key stop n x \<Longrightarrow> same value_at clock x y \<Longrightarrow>
   window_open value_at clock key stop n y"
  by (auto simp: window_open_def same_def)

context redis_store
begin

text \<open>The script on a key that is not there: the window opens, with the count 1.\<close>

lemma lua_first:
  assumes "value_at x (clock x) key = None" "0 < window"
  shows "\<exists>x'. rate_limit_lua A key limit window x = (Inr (if 1 > limit then 0 else 1), x') \<and>
    clock x' = clock x \<and> window_open value_at clock key (clock x + window) 1 x' \<and>
    (\<forall>t \<ge> clock x. \<forall>j. j \<noteq> key \<longrightarrow> value_at x' t j = value_at x t j)"
proof -
  from incr_new [OF assms(1)] obtain y where y: "r_incr A key x = (Inr 1, y)" "clock y = clock x"
    "upd value_at clock x y key (\<lambda>t. Some (int_str 1))" by blast
  then have "value_at y (clock y) key = Some (int_str 1)" by (simp add: upd_def)
  from expire_ok [OF this assms(2)] obtain z where z: "r_expire A key window y = (Inr 1, z)"
    "clock z = clock y"
    "upd value_at clock y z key (\<lambda>t. if t < clock y + window then Some (int_str 1) else None)"
    by blast
  have "rate_limit_lua A key limit window x = (Inr (if 1 > limit then 0 else 1), z)"
    using y(1) z(1) by (simp add: rate_limit_lua_def io_defs)
  then show ?thesis using y z by (auto simp: window_open_def upd_def)
qed

text \<open>The script in an open window: the count goes up by one, the end of the window stays.\<close>

lemma lua_next:
  assumes "window_open value_at clock key stop n x" "clock x < stop" "0 < n"
  shows "\<exists>x'. rate_limit_lua A key limit window x = (Inr (if n + 1 > limit then 0 else 1), x') \<and>
    clock x' = clock x \<and> window_open value_at clock key stop (n + 1) x' \<and>
    (\<forall>t \<ge> clock x. \<forall>j. j \<noteq> key \<longrightarrow> value_at x' t j = value_at x t j)"
proof -
  have "value_at x (clock x) key = Some (int_str n)" using assms(1,2) by (simp add: window_open_def)
  from incr_old [OF this] obtain y where y: "r_incr A key x = (Inr (n + 1), y)" "clock y = clock x"
    "upd value_at clock x y key (\<lambda>t. map_option (\<lambda>_. int_str (n + 1)) (value_at x t key))"
    by blast
  have "rate_limit_lua A key limit window x = (Inr (if n + 1 > limit then 0 else 1), y)"
    using y(1) assms(3) by (simp add: rate_limit_lua_def io_defs)
  then show ?thesis using y assms(1) by (auto simp: window_open_def upd_def)
qed

end

section \<open>The specification\<close>

text \<open>A window is its end and the number of the checks in it. A check at the time \<open>t\<close> belongs to the
  window before if that has not ended, and opens one of its own otherwise.\<close>

definition advance :: "int \<Rightarrow> (int \<times> int) option \<Rightarrow> int \<Rightarrow> int \<times> int" where
  "advance window s t =
     (case s of Some (stop, n) \<Rightarrow> if t < stop then (stop, n + 1) else (t + window, 1)
      | None \<Rightarrow> (t + window, 1))"

fun fixed_window :: "int \<Rightarrow> int \<Rightarrow> (int \<times> int) option \<Rightarrow> int list \<Rightarrow> bool list" where
  "fixed_window limit window s [] = []"
| "fixed_window limit window s (t # ts) =
     (snd (advance window s t) \<le> limit) # fixed_window limit window (Some (advance window s t)) ts"

text \<open>The window that a key of Redis stands for.\<close>

fun holds_window :: "('r \<Rightarrow> int \<Rightarrow> pystr \<Rightarrow> pystr option) \<Rightarrow> ('r \<Rightarrow> int) \<Rightarrow> pystr \<Rightarrow> (int \<times> int) option \<Rightarrow>
    'r \<Rightarrow> bool" where
  "holds_window value_at clock key None x \<longleftrightarrow> (\<forall>t \<ge> clock x. value_at x t key = None)"
| "holds_window value_at clock key (Some (stop, n)) x \<longleftrightarrow> window_open value_at clock key stop n x \<and> 0 < n"

lemma holds_window_same:
  "holds_window value_at clock key s x \<Longrightarrow> same value_at clock x y \<Longrightarrow> holds_window value_at clock key s y"
  by (cases s) (auto simp: same_def window_open_def)

lemma holds_window_later:
  assumes "holds_window value_at clock key s x" "clock x \<le> clock y"
    and "\<forall>t \<ge> clock y. value_at y t key = value_at x t key"
  shows "holds_window value_at clock key s y"
  using assms by (cases s) (auto simp: window_open_def)

text \<open>While Redis is up, a script call runs the script, with no error of its own.\<close>

definition redis_up :: "('r \<Rightarrow> int \<Rightarrow> pystr \<Rightarrow> pystr option) \<Rightarrow> ('r \<Rightarrow> int) \<Rightarrow> 'r redis_api \<Rightarrow> bool" where
  "redis_up value_at clock A \<longleftrightarrow>
     (\<forall>s x. \<exists>y. same value_at clock x y \<and> r_script A s x = s y)"

context redis_store
begin

lemma lua_window:
  assumes "holds_window value_at clock key s x" "0 < window"
  shows "\<exists>x'. rate_limit_lua A key limit window x =
      (Inr (if snd (advance window s (clock x)) \<le> limit then 1 else 0), x') \<and> clock x' = clock x \<and>
    holds_window value_at clock key (Some (advance window s (clock x))) x' \<and>
    (\<forall>t \<ge> clock x. \<forall>j. j \<noteq> key \<longrightarrow> value_at x' t j = value_at x t j)"
proof (cases "\<exists>stop n. s = Some (stop, n) \<and> clock x < stop")
  case True
  then obtain stop n where s: "s = Some (stop, n)" "clock x < stop" by blast
  with assms(1) lua_next [of key stop n x limit window] show ?thesis by (auto simp: advance_def not_le)
next
  case False
  then have new: "advance window s (clock x) = (clock x + window, 1)"
    by (cases s) (auto simp: advance_def)
  have "value_at x (clock x) key = None"
    using assms(1) False by (cases s) (auto simp: window_open_def)
  from lua_first [OF this assms(2), of limit] show ?thesis by (auto simp: new not_le)
qed

text \<open>A call of the script, some time after the state it is sent in.\<close>

lemma script_window:
  assumes "redis_up value_at clock A" "holds_window value_at clock key s x" "0 < window"
  shows "\<exists>x'. r_script A (rate_limit_lua A key limit window) x =
      (Inr (if snd (advance window s (clock x')) \<le> limit then 1 else 0), x') \<and> clock x \<le> clock x' \<and>
    holds_window value_at clock key (Some (advance window s (clock x'))) x' \<and>
    (\<forall>t \<ge> clock x'. \<forall>j. j \<noteq> key \<longrightarrow> value_at x' t j = value_at x t j)"
proof -
  from assms(1) obtain y where y: "same value_at clock x y"
    "r_script A (rate_limit_lua A key limit window) x = rate_limit_lua A key limit window y"
    unfolding redis_up_def by blast
  from lua_window [OF holds_window_same [OF assms(2) y(1)] assms(3), of limit] obtain x' where
    "rate_limit_lua A key limit window y =
      (Inr (if snd (advance window s (clock y)) \<le> limit then 1 else 0), x')" "clock x' = clock y"
    "holds_window value_at clock key (Some (advance window s (clock y))) x'"
    "\<forall>t \<ge> clock y. \<forall>j. j \<noteq> key \<longrightarrow> value_at x' t j = value_at y t j" by blast
  with y show ?thesis by (intro exI [of _ x']) (simp add: same_def)
qed

end

section \<open>is\_allowed\<close>

lemma is_allowed_answers:
  assumes "r_script (redis_of S) (rate_limit_lua (redis_of S) (rate_limit_key cfg d)
      (I_RATE_LIMIT_MAX_EVENTS cfg) (I_RATE_LIMIT_WINDOW_SECONDS cfg)) (redis w) = (Inr v, r)"
  shows "is_allowed S cfg d w = (Inr (v \<noteq> 0), w\<lparr>redis := r\<rparr>)"
  using assms by (simp add: is_allowed_def Let_def io_defs)

lemma is_allowed_fails_open:
  assumes "r_script (redis_of S) (rate_limit_lua (redis_of S) (rate_limit_key cfg d)
      (I_RATE_LIMIT_MAX_EVENTS cfg) (I_RATE_LIMIT_WINDOW_SECONDS cfg)) (redis w) = (Inl e, r)"
    and "ordinary e"
  shows "is_allowed S cfg d w = (Inr True, w\<lparr>redis := r\<rparr>)"
  using assms by (simp add: is_allowed_def Let_def io_defs)

lemma is_allowed_only_redis:
  assumes "is_allowed S cfg d w = (r, w')" obtains x where "w' = w\<lparr>redis := x\<rparr>"
  using assms
  by (auto simp: is_allowed_def Let_def io_defs split: prod.splits sum.splits if_splits)

context uncancelled
begin

lemma is_allowed_quiet: "quiet (is_allowed S cfg d)"
  unfolding is_allowed_def rate_limit_lua_def Let_def by (intro raises_intros)

end

section \<open>A run of checks\<close>

text \<open>The answers to a sequence of checks, for the devices in the list, in order.\<close>

fun allowed_run :: "('r, 'p, 'k, 'h) services \<Rightarrow> ingest_settings \<Rightarrow> pystr list \<Rightarrow>
    (('r, 'p, 'k, 'h) world, bool list) io" where
  "allowed_run S cfg [] = ret []"
| "allowed_run S cfg (d # ds) =
     bind (is_allowed S cfg d) (\<lambda>b. bind (allowed_run S cfg ds) (\<lambda>bs. ret (b # bs)))"

text \<open>The same with the times of Redis at which the checks were made.\<close>

fun timed_checks :: "('r, 'p, 'k, 'h) services \<Rightarrow> ingest_settings \<Rightarrow> ('r \<Rightarrow> int) \<Rightarrow> pystr list \<Rightarrow>
    (('r, 'p, 'k, 'h) world, (pystr \<times> int \<times> bool) list) io" where
  "timed_checks S cfg clock [] = ret []"
| "timed_checks S cfg clock (d # ds) =
     bind (is_allowed S cfg d) (\<lambda>b. bind (gets (\<lambda>w. clock (redis w))) (\<lambda>t.
     bind (timed_checks S cfg clock ds) (\<lambda>rs. ret ((d, t, b) # rs))))"

definition of_device :: "pystr \<Rightarrow> (pystr \<times> int \<times> bool) list \<Rightarrow> (int \<times> bool) list" where
  "of_device d rs = map snd (filter (\<lambda>r. fst r = d) rs)"

lemma of_device_simps [simp]:
  "of_device d [] = []" "of_device d ((d', t, b) # rs) = (if d' = d then (t, b) # of_device d rs else of_device d rs)"
  by (simp_all add: of_device_def)

lemma rate_limit_key_inj: "rate_limit_key cfg d = rate_limit_key cfg e \<longleftrightarrow> d = e"
  by (simp add: rate_limit_key_def)

lemma is_allowed_window:
  assumes "redis_store (redis_of S) value_at clock" "redis_up value_at clock (redis_of S)"
    and "0 < I_RATE_LIMIT_WINDOW_SECONDS cfg"
    and "\<And>d. holds_window value_at clock (rate_limit_key cfg d) (s d) (redis w)"
  shows "\<exists>x v. v = advance (I_RATE_LIMIT_WINDOW_SECONDS cfg) (s d) (clock x) \<and>
       is_allowed S cfg d w = (Inr (snd v \<le> I_RATE_LIMIT_MAX_EVENTS cfg), w\<lparr>redis := x\<rparr>) \<and>
       (\<forall>e. holds_window value_at clock (rate_limit_key cfg e) ((s(d := Some v)) e) (redis (w\<lparr>redis := x\<rparr>)))"
proof -
  from redis_store.script_window [OF assms(1,2,4,3), of d "I_RATE_LIMIT_MAX_EVENTS cfg"] obtain x where
    x: "r_script (redis_of S) (rate_limit_lua (redis_of S) (rate_limit_key cfg d)
        (I_RATE_LIMIT_MAX_EVENTS cfg) (I_RATE_LIMIT_WINDOW_SECONDS cfg)) (redis w) =
      (Inr (if snd (advance (I_RATE_LIMIT_WINDOW_SECONDS cfg) (s d) (clock x)) \<le> I_RATE_LIMIT_MAX_EVENTS cfg
            then 1 else 0), x)" "clock (redis w) \<le> clock x"
    and mine: "holds_window value_at clock (rate_limit_key cfg d)
      (Some (advance (I_RATE_LIMIT_WINDOW_SECONDS cfg) (s d) (clock x))) x"
    and others: "\<forall>t \<ge> clock x. \<forall>j. j \<noteq> rate_limit_key cfg d \<longrightarrow> value_at x t j = value_at (redis w) t j" by blast
  have "holds_window value_at clock (rate_limit_key cfg e) (s e) x" if "e \<noteq> d" for e
    using holds_window_later [OF assms(4) x(2)] others that by (simp add: rate_limit_key_inj)
  with mine is_allowed_answers [OF x(1)] show ?thesis
    by (intro exI [of _ x]) simp
qed

lemma checks_refine:
  assumes "redis_store (redis_of S) value_at clock" "redis_up value_at clock (redis_of S)"
    and "0 < I_RATE_LIMIT_WINDOW_SECONDS cfg"
    and "\<And>d. holds_window value_at clock (rate_limit_key cfg d) (s d) (redis w)"
  shows "\<exists>rs w'. timed_checks S cfg clock ds w = (Inr rs, w') \<and> map fst rs = ds \<and>
    (\<forall>d. map snd (of_device d rs) = fixed_window (I_RATE_LIMIT_MAX_EVENTS cfg)
       (I_RATE_LIMIT_WINDOW_SECONDS cfg) (s d) (map fst (of_device d rs)))"
  using assms(4)
proof (induction ds arbitrary: s w)
  case (Cons e ds)
  from is_allowed_window [OF assms(1-3) Cons.prems, of e] obtain x v where
    v: "v = advance (I_RATE_LIMIT_WINDOW_SECONDS cfg) (s e) (clock x)"
    and run: "is_allowed S cfg e w = (Inr (snd v \<le> I_RATE_LIMIT_MAX_EVENTS cfg), w\<lparr>redis := x\<rparr>)"
    and "\<And>d. holds_window value_at clock (rate_limit_key cfg d) ((s(e := Some v)) d) (redis (w\<lparr>redis := x\<rparr>))"
    by blast
  from Cons.IH [OF this(3)] obtain rs w' where
    rest: "timed_checks S cfg clock ds (w\<lparr>redis := x\<rparr>) = (Inr rs, w')" "map fst rs = ds"
      "\<And>d. map snd (of_device d rs) = fixed_window (I_RATE_LIMIT_MAX_EVENTS cfg)
         (I_RATE_LIMIT_WINDOW_SECONDS cfg) ((s(e := Some v)) d) (map fst (of_device d rs))" by blast
  from run rest(1) have "timed_checks S cfg clock (e # ds) w =
      (Inr ((e, clock x, snd v \<le> I_RATE_LIMIT_MAX_EVENTS cfg) # rs), w')"
    by (simp add: bind_def gets_def ret_def)
  with rest(2) show ?case by (auto simp: rest(3) v)
qed (simp add: ret_def)

section \<open>The limit\<close>

text \<open>C24: The limiter counts in fixed windows, for each device by itself. While Redis answers and the keys
  of the limiter are used by these checks only, none of which is there before, any sequence of checks
  of any devices is answered, and the answers to one device are those of the specification at the
  times of its checks: the first check opens a window, which ends its length later, however many
  checks follow; a check is allowed if it is among the first checks of its window, up to the maximum,
  and refused otherwise; and the first check at the end of the window or after it opens the next.\<close>

theorem rate_limit_fixed_window:
  assumes "redis_store (redis_of S) value_at clock" "redis_up value_at clock (redis_of S)"
    and "0 < I_RATE_LIMIT_WINDOW_SECONDS cfg"
    and "\<And>d t. clock (redis w) \<le> t \<Longrightarrow> value_at (redis w) t (rate_limit_key cfg d) = None"
  shows "\<exists>rs w'. timed_checks S cfg clock ds w = (Inr rs, w') \<and> map fst rs = ds \<and>
    (\<forall>d. map snd (of_device d rs) = fixed_window (I_RATE_LIMIT_MAX_EVENTS cfg)
       (I_RATE_LIMIT_WINDOW_SECONDS cfg) None (map fst (of_device d rs)))"
  by (rule checks_refine [OF assms(1-3)]) (simp add: assms(4))

text \<open>Two events in four seconds.\<close>

definition small_cfg :: ingest_settings where
  "small_cfg = ingest_defaults\<lparr>I_RATE_LIMIT_MAX_EVENTS := 2, I_RATE_LIMIT_WINDOW_SECONDS := 4\<rparr>"

lemma good_redis_up: "redis_up rr_at rr_now (redis_of good_services)"
  unfolding redis_up_def
proof (intro allI)
  fix s :: "(ref_redis, int) io" and x
  have "same rr_at rr_now x (x\<lparr>rr_now := rr_now x + 1\<rparr>)" by (simp add: same_def)
  moreover have "r_script (redis_of good_services) s x = s (x\<lparr>rr_now := rr_now x + 1\<rparr>)"
    by (simp add: good_services_def ingest_services_def ref_redis_def rr_call_def)
  ultimately show "\<exists>y. same rr_at rr_now x y \<and> r_script (redis_of good_services) s x = s y" by blast
qed

text \<open>Seven checks, a second after each other: the third and the fourth are refused, the fifth is in the
  next window of the first device.\<close>

theorem rate_limit_fixed_window_witness:
  "\<exists>rs w'. timed_checks good_services small_cfg rr_now
       [lit ''a'', lit ''a'', lit ''a'', lit ''a'', lit ''b'', lit ''a'', lit ''a''] ingest_world = (Inr rs, w') \<and>
     map fst (of_device (lit ''a'') rs) = [1, 2, 3, 4, 6, 7] \<and>
     map snd (of_device (lit ''a'') rs) = [True, True, False, False, True, True]"
proof -
  let ?ds = "[lit ''a'', lit ''a'', lit ''a'', lit ''a'', lit ''b'', lit ''a'', lit ''a'']"
  have store: "redis_store (redis_of good_services) rr_at rr_now"
    using rr.redis_store_axioms [of 1 "\<lambda>_. None"] by (simp add: good_services_def ingest_services_def)
  have window: "0 < I_RATE_LIMIT_WINDOW_SECONDS small_cfg" by (simp add: small_cfg_def)
  have absent: "rr_at (redis ingest_world) t (rate_limit_key small_cfg d) = None" for d t
    by (simp add: ingest_world_def empty_redis_def rr_at_def)
  from rate_limit_fixed_window [OF store good_redis_up window absent, of ?ds] obtain rs w' where
    rs: "timed_checks good_services small_cfg rr_now ?ds ingest_world = (Inr rs, w')"
    and spec: "map snd (of_device (lit ''a'') rs) = fixed_window 2 4 None (map fst (of_device (lit ''a'') rs))"
    by (auto simp: small_cfg_def)
  have "\<exists>bs w''. timed_checks good_services small_cfg rr_now ?ds ingest_world = (Inr (zip ?ds (zip [1, 2, 3, 4, 5, 6, 7] bs)), w'')
      \<and> length bs = 7"
    by (simp add: is_allowed_def rate_limit_lua_def io_defs ref_defs small_cfg_def Let_def parse_int_str rate_limit_key_def)
       (rule exI [of _ "[True, True, False, False, True, True, True]"], simp)
  then have "map fst (of_device (lit ''a'') rs) = [1, 2, 3, 4, 6, 7]"
    using rs by (auto simp: length_Suc_conv numeral_eq_Suc lit_def)
  with rs spec show ?thesis by (auto simp: advance_def)
qed

text \<open>The window is not the sliding one that the module's text promises: with a maximum of two
  events in four seconds, a device is allowed three events in three consecutive seconds, across the
  end of a window.\<close>

lemma rate_limit_not_sliding:
  "\<exists>w1 w2. allowed_run good_services small_cfg [lit ''a'', lit ''b'', lit ''b''] ingest_world
       = (Inr [True, True, True], w1) \<and>
     allowed_run good_services small_cfg [lit ''a'', lit ''a'', lit ''a''] w1
       = (Inr [True, True, True], w2) \<and>
     I_RATE_LIMIT_MAX_EVENTS small_cfg = 2 \<and>
     rr_now (redis w2) - rr_now (redis w1) < I_RATE_LIMIT_WINDOW_SECONDS small_cfg"
  by (simp add: is_allowed_def rate_limit_lua_def io_defs ref_defs small_cfg_def Let_def
      parse_int_str rate_limit_key_def)

end
