(* ===== verification/Kafka_Producer.thy ===== *)
theory Kafka_Producer
  imports Kafka_Log
begin

text \<open>
  \<open>apps/ingestion/kafka_producer.py\<close>: \<open>KafkaProducerClient\<close>. Its only state is \<open>_producer\<close>, which
  \<open>start\<close> sets before it connects and \<open>stop\<close> does not reset (\<open>producer_set\<close> of the world). The
  serializers given to aiokafka run inside the send calls.
\<close>

definition start_config :: "ingest_settings \<Rightarrow> producer_config" where
  "start_config cfg = \<lparr>
     bootstrap_servers = I_KAFKA_BOOTSTRAP_SERVERS cfg,
     acks = I_KAFKA_ACKS cfg,
     linger_ms = I_KAFKA_LINGER_MS cfg,
     compression_type = (if I_KAFKA_COMPRESSION_TYPE cfg = lit ''none'' then None
                         else Some (I_KAFKA_COMPRESSION_TYPE cfg)),
     enable_idempotence = True\<rparr>"

definition start :: "('r, 'p, 'k, 'h) services \<Rightarrow> ingest_settings \<Rightarrow>
    (('r, 'p, 'k, 'h) world, unit) io" where
  "start S cfg =
     andthen (modify (\<lambda>w. w\<lparr>producer_set := True\<rparr>))
       (on_kafka (k_start (kafka_of S) (start_config cfg)))"

definition stop :: "('r, 'p, 'k, 'h) services \<Rightarrow> (('r, 'p, 'k, 'h) world, unit) io" where
  "stop S = bind (gets producer_set) (\<lambda>p. if p then on_kafka (k_stop (kafka_of S)) else ret ())"

text \<open>\<open>key_serializer=lambda k: k.encode("utf-8") if k else None\<close>\<close>

definition key_serializer :: "pystr option \<Rightarrow> exn + nat list option" where
  "key_serializer k =
     (case k of None \<Rightarrow> Inr None
      | Some s \<Rightarrow> if s = [] then Inr None
                  else (case utf8_encode s of Inl e \<Rightarrow> Inl e | Inr b \<Rightarrow> Inr (Some b)))"

definition count_kafka_error :: "exn \<Rightarrow> (('r, 'p, 'k, 'h) world, 'a) io" where
  "count_kafka_error exc = andthen (inc (KAFKA_PRODUCE_ERRORS (exn_name exc))) (raise exc)"

definition produce :: "('r, 'p, 'k, 'h) services \<Rightarrow> pystr \<Rightarrow> dict \<Rightarrow> pystr option \<Rightarrow>
    (('r, 'p, 'k, 'h) world, unit) io" where
  "produce S topic value key =
     bind (gets producer_set) (\<lambda>p.
       if \<not> p then raise (RuntimeError (lit ''KafkaProducerClient not started''))
       else timed KAFKA_PRODUCE_LATENCY
         (try_except
           (bind (of_result (key_serializer key)) (\<lambda>k.
              on_kafka (k_send_and_wait (kafka_of S) topic (JObj value) k)))
           (catching ''KafkaError'' count_kafka_error)))"

fun send_all :: "('r, 'p, 'k, 'h) services \<Rightarrow> (pystr \<times> dict \<times> pystr option) list \<Rightarrow>
    (('r, 'p, 'k, 'h) world, unit) io" where
  "send_all S [] = ret ()"
| "send_all S ((topic, value, key) # messages) =
     andthen
       (bind (of_result (key_serializer key)) (\<lambda>k.
          on_kafka (k_send (kafka_of S) topic (JObj value) k)))
       (send_all S messages)"

definition produce_batch :: "('r, 'p, 'k, 'h) services \<Rightarrow> (pystr \<times> dict \<times> pystr option) list \<Rightarrow>
    (('r, 'p, 'k, 'h) world, unit) io" where
  "produce_batch S messages =
     bind (gets producer_set) (\<lambda>p.
       if \<not> p then raise (RuntimeError (lit ''KafkaProducerClient not started''))
       else if messages = [] then ret ()
       else timed KAFKA_PRODUCE_LATENCY
         (try_except
           (andthen (send_all S messages) (on_kafka (k_flush (kafka_of S))))
           (catching ''KafkaError'' count_kafka_error)))"

section \<open>What the client sends\<close>

text \<open>The record a message stands for, when its key can be encoded.\<close>

definition record_of :: "pystr \<Rightarrow> dict \<Rightarrow> pystr option \<Rightarrow> krecord option" where
  "record_of topic value key =
     (case key_serializer key of Inl _ \<Rightarrow> None | Inr k \<Rightarrow> Some (topic, JObj value, k))"

lemma key_serializer_Inl: "key_serializer key = Inl e \<Longrightarrow> ordinary e \<and> \<not> isinstance e ''KafkaError''"
  by (auto simp: key_serializer_def utf8_encode_def exn_defs split: option.splits if_splits sum.splits)

lemma msub_left: "A + B \<subseteq># C \<Longrightarrow> A \<subseteq># C"
  by (rule subset_mset.order_trans [OF mset_subset_eq_add_left])

context kafka_log
begin

lemma send_and_wait_any:
  assumes "k_send_and_wait K t v key x = (r, x')"
  shows "durable x \<subseteq># durable x' \<and> durable x' \<subseteq># durable x + pending x + {#(t, v, key)#}"
proof (cases r)
  case (Inl e)
  with assms show ?thesis using send_and_wait_fails msub_left by blast
next
  case (Inr u)
  with assms show ?thesis using send_and_wait_ok msub_left by blast
qed

text \<open>A produce that returns has made its record durable, once; whatever it does, it makes no other
  record durable than those that were pending and its own.\<close>

lemma produce_durable:
  assumes "kafka_of S = K" "produce S topic value key w = (Inr u, w')"
  shows "\<exists>k. key_serializer key = Inr k \<and>
    durable (kafka w) + {#(topic, JObj value, k)#} \<subseteq># durable (kafka w') \<and>
    durable (kafka w') \<subseteq># durable (kafka w) + pending (kafka w) + {#(topic, JObj value, k)#}"
proof -
  from assms(2) obtain k x where k: "key_serializer key = Inr k"
    and x: "k_send_and_wait (kafka_of S) topic (JObj value) k (kafka w) = (Inr (), x)"
    and "kafka w' = x"
    by (auto simp: produce_def count_kafka_error_def io_defs split: if_splits sum.splits prod.splits)
  note send = x [unfolded assms(1)]
  from k \<open>kafka w' = x\<close> send_and_wait_ok [OF send] send_and_wait_any [OF send] show ?thesis by blast
qed

lemma produce_bound:
  assumes "kafka_of S = K" "produce S topic value key w = (r, w')"
  shows "durable (kafka w) \<subseteq># durable (kafka w') \<and>
    (kafka w' = kafka w \<or> (\<exists>k. key_serializer key = Inr k \<and>
       durable (kafka w') \<subseteq># durable (kafka w) + pending (kafka w) + {#(topic, JObj value, k)#}))"
proof (cases "kafka w' = kafka w")
  case False
  with assms(2) obtain k rr x where k: "key_serializer key = Inr k"
    and x: "k_send_and_wait (kafka_of S) topic (JObj value) k (kafka w) = (rr, x)"
    and w': "kafka w' = x"
    by (auto simp: produce_def count_kafka_error_def io_defs split: if_splits sum.splits prod.splits)
  from k w' send_and_wait_any [OF x [unfolded assms(1)]] show ?thesis by blast
qed simp

end

text \<open>A KafkaError is counted under its class and raised again; nothing else is counted.\<close>

lemma produce_raises:
  assumes "produce S topic value key w = (Inl e, w')"
  shows "tally (KAFKA_PRODUCE_ERRORS (exn_name e)) w' = tally (KAFKA_PRODUCE_ERRORS (exn_name e)) w +
      (if isinstance e ''KafkaError'' then 1 else 0)"
  using assms key_serializer_Inl
  by (auto simp: produce_def count_kafka_error_def io_defs RuntimeError_def
      split: if_splits sum.splits prod.splits)

lemma produce_not_started:
  "\<not> producer_set w \<Longrightarrow> \<exists>e. produce S topic value key w = (Inl e, w) \<and> isinstance e ''RuntimeError''"
  by (simp add: produce_def io_defs RuntimeError_def)

context uncancelled
begin

lemma produce_mild [raises_intros]: "mild (produce S topic value key)"
  unfolding produce_def count_kafka_error_def
  by (intro raises_intros raises_try [where Q = "\<lambda>e. ordinary e"])
     (auto simp: RuntimeError_def dest: key_serializer_Inl)

end

end
