(* ===== verification/Pipeline.thy ===== *)
theory Pipeline
  imports World
begin

text \<open>
  \<open>libs/shared/pipeline.py\<close>: a list of handlers run in order over a context object, each given
  the continuation that runs the rest. \<open>dispatch\<close> is the inner function \<open>_dispatch\<close>, \<open>execute\<close>
  the method; the clock readings around a handler only compute a local variable and are left out.

  \<open>HasTraceId\<close> is the interface a context has to offer. The locale \<open>has_trace_id\<close> states it, and
  the two contexts of the services are its interpretations. The value read is a \<open>json\<close>, since the
  worker takes its trace id from an event it has not validated.
\<close>

type_synonym ('c, 'w) handler = "('c \<times> 'w, unit) io \<Rightarrow> ('c \<times> 'w, unit) io"

text \<open>\<open>with H.time(): m\<close> in a handler.\<close>

definition timed_ctx :: "histogram \<Rightarrow> ('c \<times> ('r, 'p, 'k, 'h) world, 'a) io \<Rightarrow>
    ('c \<times> ('r, 'p, 'k, 'h) world, 'a) io" where
  "timed_ctx h m = try_finally m (eff (observe h))"

definition pipeline_use :: "('c, 'w) handler list \<Rightarrow> ('c, 'w) handler \<Rightarrow> ('c, 'w) handler list" where
  "pipeline_use hs h = hs @ [h]"

function dispatch :: "('c, 'w) handler list \<Rightarrow> nat \<Rightarrow> ('c \<times> 'w, unit) io" where
  "dispatch hs idx =
     (if idx \<ge> length hs then ret ()
      else (hs ! idx) (dispatch hs (idx + 1)))"
  by pat_completeness auto
termination by (relation "measure (\<lambda>(hs, idx). length hs - idx)") auto

declare dispatch.simps [simp del]

definition ensure_trace :: "('c \<Rightarrow> json) \<Rightarrow> (pystr \<Rightarrow> 'c \<Rightarrow> 'c) \<Rightarrow> ('w, pystr) io \<Rightarrow>
    ('c \<times> 'w, unit) io" where
  "ensure_trace get_id set_id uuid4 =
     bind (gets (\<lambda>(c, w). get_id c)) (\<lambda>t.
       if truthy t then ret ()
       else bind (eff uuid4) (\<lambda>u. modify (\<lambda>(c, w). (set_id u c, w))))"

definition execute :: "('c \<Rightarrow> json) \<Rightarrow> (pystr \<Rightarrow> 'c \<Rightarrow> 'c) \<Rightarrow> ('w, pystr) io \<Rightarrow>
    ('c, 'w) handler list \<Rightarrow> ('c \<times> 'w, unit) io" where
  "execute get_id set_id uuid4 hs =
     (if hs = [] then ret ()
      else andthen (ensure_trace get_id set_id uuid4) (dispatch hs 0))"

section \<open>Order of the handlers\<close>

lemma dispatch_drop: "dispatch hs idx = foldr (\<lambda>h k. h k) (drop idx hs) (ret ())"
proof (induction hs idx rule: dispatch.induct)
  case (1 hs idx)
  show ?case
  proof (cases "idx < length hs")
    case True
    with 1 show ?thesis by (simp add: dispatch.simps [of hs idx] Cons_nth_drop_Suc [symmetric])
  next
    case False
    then show ?thesis by (simp add: dispatch.simps [of hs idx])
  qed
qed

lemma dispatch_nest: "dispatch hs 0 = foldr (\<lambda>h k. h k) hs (ret ())"
  by (simp add: dispatch_drop)

lemma dispatch_Cons [simp]: "dispatch (h # hs) 0 = h (dispatch hs 0)"
  by (simp add: dispatch_nest)

lemma dispatch_Nil [simp]: "dispatch [] 0 = ret ()"
  by (simp add: dispatch_nest)

text \<open>A handler that does not call its continuation ends the pipeline: the handlers after it make
  no difference.\<close>

lemma dispatch_stop:
  assumes "\<And>k. h k = m"
  shows "dispatch (pre @ h # post) 0 = dispatch (pre @ [h]) 0"
  using assms by (simp add: dispatch_nest)

text \<open>If each handler raises at most what its continuation may raise, the pipeline raises at most
  that.\<close>

definition contains_errors :: "(exn \<Rightarrow> bool) \<Rightarrow> ('c, 'w) handler \<Rightarrow> bool" where
  "contains_errors P h \<longleftrightarrow> (\<forall>k. raises P k \<longrightarrow> raises P (h k))"

lemma dispatch_raises:
  assumes "\<And>h. h \<in> set hs \<Longrightarrow> contains_errors P h"
  shows "raises P (dispatch hs 0)"
  using assms by (induction hs) (auto simp: contains_errors_def raises_ret)

section \<open>The trace id\<close>

locale has_trace_id =
  fixes get_id :: "'c \<Rightarrow> json"
    and set_id :: "pystr \<Rightarrow> 'c \<Rightarrow> 'c"
  assumes get_set: "get_id (set_id u c) = JStr u"
begin

lemma ensure_trace_keeps:
  "truthy (get_id c) \<Longrightarrow> ensure_trace get_id set_id uuid4 (c, w) = (Inr (), (c, w))"
  by (simp add: ensure_trace_def io_defs)

lemma ensure_trace_draws:
  assumes "\<not> truthy (get_id c)" "uuid4 w = (Inr u, w')"
  shows "ensure_trace get_id set_id uuid4 (c, w) = (Inr (), (set_id u c, w'))"
  using assms by (simp add: ensure_trace_def io_defs)

text \<open>Every handler runs under a trace id, provided the host's uuids are not empty.\<close>

lemma ensure_trace_truthy:
  assumes "\<And>w. \<exists>u w'. u \<noteq> [] \<and> uuid4 w = (Inr u, w')"
  shows "\<exists>c' w'. ensure_trace get_id set_id uuid4 (c, w) = (Inr (), (c', w')) \<and> truthy (get_id c')"
proof (cases "truthy (get_id c)")
  case True
  then show ?thesis by (simp add: ensure_trace_keeps)
next
  case False
  from assms obtain u w' where "u \<noteq> []" "uuid4 w = (Inr u, w')" by blast
  with False show ?thesis by (simp add: ensure_trace_draws get_set)
qed

lemma execute_keeps:
  "truthy (get_id c) \<Longrightarrow> hs \<noteq> [] \<Longrightarrow>
   execute get_id set_id uuid4 hs (c, w) = dispatch hs 0 (c, w)"
  by (simp add: execute_def andthen_def bind_def ensure_trace_keeps)

end

lemma raises_timed_ctx [raises_intros]: "raises P m \<Longrightarrow> raises P (timed_ctx h m)"
  by (simp add: timed_ctx_def observe_def raises_finally raises_eff raises_modify)

lemmas [io_defs] = timed_ctx_def

lemma raises_ensure_trace [raises_intros]:
  "raises P uuid4 \<Longrightarrow> raises P (ensure_trace get_id set_id uuid4)"
  unfolding ensure_trace_def by (intro raises_intros) auto

lemma execute_raises:
  assumes "raises P uuid4" "\<And>h. h \<in> set hs \<Longrightarrow> contains_errors P h"
  shows "raises P (execute get_id set_id uuid4 hs)"
  unfolding execute_def using assms by (intro raises_intros dispatch_raises) auto

end
