(* ===== verification/Ingest_Handlers.thy ===== *)
theory Ingest_Handlers
  imports Rate_Limiter Kafka_Producer Models Pipeline Reference
begin

text \<open>
  \<open>apps/ingestion/handlers.py\<close>: the context of the ingestion pipeline and its four handlers.

  \<open>LoggingHandler\<close> uses a name \<open>raw_payload\<close> that the method does not assign, so Python looks it
  up among the globals of the module. \<open>logging_handler\<close> is the method with the result of that
  lookup as its argument; the module defines no such global, which is \<open>raw_payload_global\<close>, and
  \<open>LoggingHandler\<close> is the method as it is shipped.
\<close>

section \<open>The context\<close>

text \<open>The message dict: the three entries that the subscriber makes, and the two that
  \<open>LoggingHandler\<close> adds.\<close>

record raw_message =
  rm_topic :: pystr
  rm_payload :: "nat list"
  rm_received_at :: rat
  rm_parsed_payload :: "json option"
  rm_trace_id :: "pystr option"

record ingestion_context =
  ic_raw_message :: raw_message
  ic_trace_id :: pystr
  ic_device_id :: pystr
  ic_event :: "iot_event option"
  ic_processed :: bool
  ic_errors :: "pystr list"

definition new_ingestion_context :: "raw_message \<Rightarrow> ingestion_context" where
  "new_ingestion_context m = \<lparr>ic_raw_message = m, ic_trace_id = [], ic_device_id = lit ''unknown'',
     ic_event = None, ic_processed = False, ic_errors = []\<rparr>"

definition ic_get_id :: "ingestion_context \<Rightarrow> json" where
  "ic_get_id c = JStr (ic_trace_id c)"

definition ic_set_id :: "pystr \<Rightarrow> ingestion_context \<Rightarrow> ingestion_context" where
  "ic_set_id u c = c\<lparr>ic_trace_id := u\<rparr>"

interpretation ic: has_trace_id ic_get_id ic_set_id
  by unfold_locales (simp add: ic_get_id_def ic_set_id_def)

type_synonym ('r, 'p, 'k, 'h) ingest_handler =
  "(ingestion_context, ('r, 'p, 'k, 'h) world) handler"

section \<open>The handlers\<close>

definition device_of_topic :: "pystr \<Rightarrow> pystr" where
  "device_of_topic topic =
     (let parts = split_on 47 topic
      in if 2 \<le> length parts then parts ! 1 else lit ''unknown'')"

definition logging_handler :: "('r, 'p, 'k, 'h) services \<Rightarrow> json option \<Rightarrow>
    ('r, 'p, 'k, 'h) ingest_handler" where
  "logging_handler S glob next_call =
     andthen (modify (\<lambda>(c, w). (c\<lparr>ic_device_id := device_of_topic (rm_topic (ic_raw_message c))\<rparr>, w)))
       (case glob of
          None \<Rightarrow> raise (NameError (lit ''name raw_payload is not defined''))
        | Some raw_payload \<Rightarrow>
            bind (of_result (dict_get raw_payload (lit ''event_type''))) (\<lambda>t.
            bind (gets (\<lambda>(c, w). ic_device_id c)) (\<lambda>device_id.
            andthen (eff (inc (EVENTS_RECEIVED device_id
                       (case t of None \<Rightarrow> lit ''unknown'' | Some v \<Rightarrow> py_str (py_repr (py_of S)) v))))
            (andthen (modify (\<lambda>(c, w). (c\<lparr>ic_raw_message := (ic_raw_message c)
                        \<lparr>rm_parsed_payload := Some raw_payload, rm_trace_id := Some (ic_trace_id c)\<rparr>\<rparr>, w)))
              next_call))))"

definition raw_payload_global :: "json option" where
  "raw_payload_global = None"

definition LoggingHandler :: "('r, 'p, 'k, 'h) services \<Rightarrow> ('r, 'p, 'k, 'h) ingest_handler" where
  "LoggingHandler S = logging_handler S raw_payload_global"

definition ValidationHandler :: "('r, 'p, 'k, 'h) services \<Rightarrow> ('r, 'p, 'k, 'h) ingest_handler" where
  "ValidationHandler S next_call =
     bind (gets (\<lambda>(c, w). rm_parsed_payload (ic_raw_message c))) (\<lambda>raw_payload.
       timed_ctx VALIDATION_LATENCY
         (try_except
           (bind (of_result (IoTEvent_of (py_of S) (case raw_payload of None \<Rightarrow> JNull | Some v \<Rightarrow> v)))
             (\<lambda>ev. andthen (modify (\<lambda>(c, w). (c\<lparr>ic_event := Some ev\<rparr>, w))) next_call))
           (catching ''ValidationError'' (\<lambda>exc. eff (inc (EVENTS_DROPPED (lit ''schema_error'')))))))"

definition RateLimitHandler :: "('r, 'p, 'k, 'h) services \<Rightarrow> ingest_settings \<Rightarrow>
    ('r, 'p, 'k, 'h) ingest_handler" where
  "RateLimitHandler S cfg next_call =
     bind (gets (\<lambda>(c, w). ic_device_id c)) (\<lambda>device_id.
     bind (eff (is_allowed S cfg device_id)) (\<lambda>allowed.
       if \<not> allowed then eff (inc (EVENTS_DROPPED (lit ''rate_limited'')))
       else next_call))"

definition kafka_value :: "pylib \<Rightarrow> iot_event \<Rightarrow> pystr \<Rightarrow> exn + dict" where
  "kafka_value py ev trace_id =
     map_sum id (AList.update (lit ''_trace_id'') (JStr trace_id)) (to_kafka_dict py ev)"

text \<open>The first half of the handler's \<open>try\<close>: the value is made and produced.\<close>

definition produce_event :: "('r, 'p, 'k, 'h) services \<Rightarrow> ingest_settings \<Rightarrow> iot_event \<Rightarrow> pystr \<Rightarrow>
    (('r, 'p, 'k, 'h) world, unit) io" where
  "produce_event S cfg ev trace_id =
     bind (of_result (kafka_value (py_of S) ev trace_id)) (\<lambda>payload.
       produce S (I_KAFKA_TOPIC_RAW cfg) payload (Some (device_id ev)))"

definition KafkaPublishHandler :: "('r, 'p, 'k, 'h) services \<Rightarrow> ingest_settings \<Rightarrow>
    ('r, 'p, 'k, 'h) ingest_handler" where
  "KafkaPublishHandler S cfg next_call =
     bind (gets fst) (\<lambda>ctx.
       case ic_event ctx of
         None \<Rightarrow> ret ()
       | Some ev \<Rightarrow>
           try_except
             (andthen (eff (produce_event S cfg ev (ic_trace_id ctx)))
             (andthen (eff (inc EVENTS_VALIDATED))
             (andthen (modify (\<lambda>(c, w). (c\<lparr>ic_processed := True\<rparr>, w)))
               next_call)))
             (catching ''Exception'' (\<lambda>exc. eff (inc (EVENTS_DROPPED (lit ''kafka_error''))))))"

text \<open>The pipeline that \<open>lifespan\<close> builds, over the value found for \<open>raw_payload\<close>.\<close>

definition ingest_handlers :: "('r, 'p, 'k, 'h) services \<Rightarrow> ingest_settings \<Rightarrow> json option \<Rightarrow>
    ('r, 'p, 'k, 'h) ingest_handler list" where
  "ingest_handlers S cfg glob =
     foldl pipeline_use []
       [logging_handler S glob, ValidationHandler S, RateLimitHandler S cfg, KafkaPublishHandler S cfg]"

definition ingest_execute :: "('r, 'p, 'k, 'h) services \<Rightarrow> ingest_settings \<Rightarrow> json option \<Rightarrow>
    (ingestion_context \<times> ('r, 'p, 'k, 'h) world, unit) io" where
  "ingest_execute S cfg glob =
     execute ic_get_id ic_set_id (ask_host (h_uuid4 (host_of S))) (ingest_handlers S cfg glob)"

lemmas [model_defs] = logging_handler_def ValidationHandler_def RateLimitHandler_def
  KafkaPublishHandler_def

section \<open>The handlers one by one\<close>

lemma produce_frame:
  assumes "produce S topic value key w = (r, w')"
  shows "redis w' = redis w \<and> host w' = host w \<and> postgres w' = postgres w \<and>
    (\<forall>c. (\<forall>t. c \<noteq> KAFKA_PRODUCE_ERRORS t) \<longrightarrow> tally c w' = tally c w)"
  using assms
  by (auto simp: produce_def count_kafka_error_def io_defs split: if_splits sum.splits prod.splits)

lemma kafka_value_Inl: "kafka_value py ev trace = Inl e \<Longrightarrow> ordinary e"
  by (auto simp: kafka_value_def to_kafka_dict_def too_deep_def ValueError_def split: if_splits)

lemma produce_event_frame:
  assumes "produce_event S cfg ev trace w = (r, w')"
  shows "redis w' = redis w \<and> host w' = host w \<and> postgres w' = postgres w \<and>
    (\<forall>c. (\<forall>t. c \<noteq> KAFKA_PRODUCE_ERRORS t) \<longrightarrow> tally c w' = tally c w)"
proof (cases "kafka_value (py_of S) ev trace")
  case (Inr v)
  with assms have "produce S (I_KAFKA_TOPIC_RAW cfg) v (Some (device_id ev)) w = (r, w')"
    by (simp add: produce_event_def bind_def of_result_def)
  then show ?thesis by (rule produce_frame)
qed (use assms in \<open>simp add: produce_event_def bind_def of_result_def\<close>)

lemma produce_event_ordinary:
  assumes "uncancelled S" "produce_event S cfg ev trace w = (Inl e, w')" shows "ordinary e"
proof (cases "kafka_value (py_of S) ev trace")
  case (Inl e')
  with assms(2) kafka_value_Inl [OF Inl] show ?thesis by (auto simp: produce_event_def bind_def of_result_def)
next
  case (Inr v)
  with assms(2) raisesD [OF uncancelled.produce_mild [OF assms(1)]] show ?thesis
    by (auto simp: produce_event_def bind_def of_result_def)
qed

lemma publish_eval:
  "KafkaPublishHandler S cfg (ret ()) (c, w) =
     (case ic_event c of
        None \<Rightarrow> (Inr (), (c, w))
      | Some ev \<Rightarrow>
          (case produce_event S cfg ev (ic_trace_id c) w of
             (Inr _, w') \<Rightarrow> (Inr (), (c\<lparr>ic_processed := True\<rparr>, bump EVENTS_VALIDATED w'))
           | (Inl e, w') \<Rightarrow>
               if ordinary e then (Inr (), (c, bump (EVENTS_DROPPED (lit ''kafka_error'')) w'))
               else (Inl e, (c, w'))))"
  by (auto simp: KafkaPublishHandler_def io_defs split: option.splits prod.splits sum.splits)

lemma rate_limit_eval:
  assumes "is_allowed S cfg (ic_device_id c) w = (Inr b, w1)"
  shows "RateLimitHandler S cfg next_call (c, w) =
     (if b then next_call (c, w1) else (Inr (), (c, bump (EVENTS_DROPPED (lit ''rate_limited'')) w1)))"
  using assms by (simp add: RateLimitHandler_def io_defs)

text \<open>The handlers after the first, on an event that is a dict.\<close>

definition ingest_tail :: "('r, 'p, 'k, 'h) services \<Rightarrow> ingest_settings \<Rightarrow>
    (ingestion_context \<times> ('r, 'p, 'k, 'h) world, unit) io" where
  "ingest_tail S cfg = dispatch [ValidationHandler S, RateLimitHandler S cfg, KafkaPublishHandler S cfg] 0"

lemma tail_invalid:
  assumes "rm_parsed_payload (ic_raw_message c) = Some (JObj d)"
    and "IoTEvent (py_of S) d = Inl e" "isinstance e ''ValidationError''"
  shows "ingest_tail S cfg (c, w) =
     (Inr (), (c, tick VALIDATION_LATENCY (bump (EVENTS_DROPPED (lit ''schema_error'')) w)))"
  using assms by (simp add: ingest_tail_def ValidationHandler_def IoTEvent_of_def io_defs)

lemma tail_valid:
  assumes "rm_parsed_payload (ic_raw_message c) = Some (JObj d)"
    and "IoTEvent (py_of S) d = Inr ev"
    and "RateLimitHandler S cfg (KafkaPublishHandler S cfg (ret ())) (c\<lparr>ic_event := Some ev\<rparr>, w)
      = (Inr (), (c', w'))"
  shows "ingest_tail S cfg (c, w) = (Inr (), (c', tick VALIDATION_LATENCY w'))"
  using assms
  by (simp add: ingest_tail_def ValidationHandler_def IoTEvent_of_def io_defs)

section \<open>What becomes of an event\<close>

definition ingest_outcomes :: "('r, 'p, 'k, 'h) world \<Rightarrow> nat" where
  "ingest_outcomes w =
     tally EVENTS_VALIDATED w + tally (EVENTS_DROPPED (lit ''schema_error'')) w
     + tally (EVENTS_DROPPED (lit ''rate_limited'')) w + tally (EVENTS_DROPPED (lit ''kafka_error'')) w"

text \<open>The specification of the handlers after \<open>LoggingHandler\<close>, without continuations: the four
  ends of an event (refused by the schema, refused by the limiter, published, lost on the way to
  Kafka), the context and the world each leaves.\<close>

datatype ingest_fate =
  Refused_schema | Refused_rate iot_event | Published iot_event | Kafka_lost iot_event

definition ingest_fate :: "('r, 'p, 'k, 'h) services \<Rightarrow> ingest_settings \<Rightarrow> dict \<Rightarrow> pystr \<Rightarrow> pystr \<Rightarrow>
    ('r, 'p, 'k, 'h) world \<Rightarrow> ingest_fate \<times> ('r, 'p, 'k, 'h) world" where
  "ingest_fate S cfg d device trace w =
     (case IoTEvent (py_of S) d of
        Inl e \<Rightarrow> (Refused_schema, bump (EVENTS_DROPPED (lit ''schema_error'')) w)
      | Inr ev \<Rightarrow>
          (case is_allowed S cfg device w of
             (Inr False, w1) \<Rightarrow> (Refused_rate ev, bump (EVENTS_DROPPED (lit ''rate_limited'')) w1)
           | (_, w1) \<Rightarrow>
               (case produce_event S cfg ev trace w1 of
                  (Inr _, w2) \<Rightarrow> (Published ev, bump EVENTS_VALIDATED w2)
                | (Inl _, w2) \<Rightarrow> (Kafka_lost ev, bump (EVENTS_DROPPED (lit ''kafka_error'')) w2))))"

fun context_after :: "ingest_fate \<Rightarrow> ingestion_context \<Rightarrow> ingestion_context" where
  "context_after Refused_schema c = c"
| "context_after (Refused_rate ev) c = c\<lparr>ic_event := Some ev\<rparr>"
| "context_after (Published ev) c = c\<lparr>ic_event := Some ev, ic_processed := True\<rparr>"
| "context_after (Kafka_lost ev) c = c\<lparr>ic_event := Some ev\<rparr>"

definition timely :: "pylib \<Rightarrow> dict \<Rightarrow> bool" where
  "timely py d \<longleftrightarrow> (case timestamp_field py d of Inl e \<Rightarrow> False | Inr f \<Rightarrow> True)"

lemma timely_ValidationError:
  "timely py d \<Longrightarrow> IoTEvent py d = Inl e \<Longrightarrow> isinstance e ''ValidationError''"
  using IoTEvent_Inl [of py d e] by (auto simp: timely_def split: sum.splits)

lemma tail_fate:
  assumes "uncancelled S" "timely (py_of S) d"
    and "rm_parsed_payload (ic_raw_message c) = Some (JObj d)"
    and "ingest_fate S cfg d (ic_device_id c) (ic_trace_id c) w = (f, w')"
  shows "ingest_tail S cfg (c, w) = (Inr (), (context_after f c, tick VALIDATION_LATENCY w'))"
proof (cases "IoTEvent (py_of S) d")
  case (Inl e)
  with assms tail_invalid timely_ValidationError show ?thesis
    by (fastforce simp: ingest_fate_def)
next
  case (Inr ev)
  obtain b w1 where b: "is_allowed S cfg (ic_device_id c) w = (Inr b, w1)"
    using uncancelled.is_allowed_quiet [OF assms(1)] by (rule quiet_result)
  let ?p = "produce_event S cfg ev (ic_trace_id c) w1"
  have "ordinary e" if "?p = (Inl e, w2)" for e w2
    using produce_event_ordinary [OF assms(1) that] .
  with Inr b assms(4) have
    "RateLimitHandler S cfg (KafkaPublishHandler S cfg (ret ())) (c\<lparr>ic_event := Some ev\<rparr>, w)
      = (Inr (), (context_after f c, w'))"
    by (cases b; cases ?p; cases "fst ?p")
       (auto simp: ingest_fate_def rate_limit_eval [where c = "c\<lparr>ic_event := Some ev\<rparr>"] publish_eval)
  from tail_valid [OF assms(3) Inr this] show ?thesis .
qed

lemma fate_accounts:
  assumes "ingest_fate S cfg d device trace w = (f, w')"
  shows "ingest_outcomes w' = ingest_outcomes w + 1 \<and>
    tally EVENTS_VALIDATED w' = tally EVENTS_VALIDATED w + (if \<exists>ev. f = Published ev then 1 else 0)"
proof -
  have same: "tally k w1 = tally k w" if "is_allowed S cfg device w = (r, w1)" for r w1 k
    using that by (rule is_allowed_only_redis) simp
  show ?thesis
    using assms
    by (auto simp: ingest_fate_def ingest_outcomes_def same dest!: produce_event_frame
        split: sum.splits prod.splits bool.splits)
qed

section \<open>The pipeline as it is shipped, and with the payload\<close>

lemma ingest_handlers_list:
  "ingest_handlers S cfg glob =
     [logging_handler S glob, ValidationHandler S, RateLimitHandler S cfg, KafkaPublishHandler S cfg]"
  by (simp add: ingest_handlers_def pipeline_use_def)

text \<open>The context and the world after \<open>ensure_trace\<close> and \<open>LoggingHandler\<close>, of a message whose
  payload is the dict \<open>d\<close>.\<close>

definition logged_context :: "raw_message \<Rightarrow> pystr \<Rightarrow> dict \<Rightarrow> ingestion_context" where
  "logged_context m u d = (new_ingestion_context m)\<lparr>ic_trace_id := u,
     ic_device_id := device_of_topic (rm_topic m),
     ic_raw_message := m\<lparr>rm_parsed_payload := Some (JObj d), rm_trace_id := Some u\<rparr>\<rparr>"

definition received_counter :: "pylib \<Rightarrow> raw_message \<Rightarrow> dict \<Rightarrow> counter" where
  "received_counter py m d = EVENTS_RECEIVED (device_of_topic (rm_topic m))
     (case map_of d (lit ''event_type'') of None \<Rightarrow> lit ''unknown'' | Some v \<Rightarrow> py_str (py_repr py) v)"

lemma ingest_execute_payload:
  assumes "h_uuid4 (host_of S) (host w) = (u, h)"
  shows "ingest_execute S cfg (Some (JObj d)) (new_ingestion_context m, w) =
     ingest_tail S cfg (logged_context m u d,
       bump (received_counter (py_of S) m d) (w\<lparr>host := h\<rparr>))"
proof -
  have trace: "ensure_trace ic_get_id ic_set_id (ask_host (h_uuid4 (host_of S)))
      (new_ingestion_context m, w) =
    (Inr (), ((new_ingestion_context m)\<lparr>ic_trace_id := u\<rparr>, w\<lparr>host := h\<rparr>))"
    using assms
    by (subst ic.ensure_trace_draws [where u = u and w' = "w\<lparr>host := h\<rparr>"])
       (simp_all add: ask_host_def ic_get_id_def ic_set_id_def new_ingestion_context_def)
  show ?thesis
    unfolding ingest_execute_def execute_def ingest_handlers_list
    using trace
    by (simp add: andthen_def bind_def logging_handler_def ingest_tail_def)
       (simp add: io_defs logged_context_def received_counter_def new_ingestion_context_def)
qed

lemma ingest_execute_fate:
  assumes "uncancelled S" "timely (py_of S) d" "h_uuid4 (host_of S) (host w) = (u, h)"
    and "ingest_fate S cfg d (device_of_topic (rm_topic m)) u
      (bump (received_counter (py_of S) m d) (w\<lparr>host := h\<rparr>)) = (f, w')"
  shows "ingest_execute S cfg (Some (JObj d)) (new_ingestion_context m, w) =
     (Inr (), (context_after f (logged_context m u d), tick VALIDATION_LATENCY w'))"
  unfolding ingest_execute_payload [OF assms(3)]
  by (rule tail_fate [OF assms(1,2)]) (use assms(4) in \<open>simp_all add: logged_context_def\<close>)

lemma ingest_name_error:
  "\<exists>c' w'. ingest_execute S cfg raw_payload_global (new_ingestion_context m, w) =
       (Inl (NameError (lit ''name raw_payload is not defined'')), (c', w'))
     \<and> \<not> ic_processed c' \<and> kafka w' = kafka w \<and> redis w' = redis w \<and> met w' = met w"
proof -
  obtain u h where u: "h_uuid4 (host_of S) (host w) = (u, h)" by (cases "h_uuid4 (host_of S) (host w)")
  then have trace: "ensure_trace ic_get_id ic_set_id (ask_host (h_uuid4 (host_of S)))
      (new_ingestion_context m, w) =
    (Inr (), ((new_ingestion_context m)\<lparr>ic_trace_id := u\<rparr>, w\<lparr>host := h\<rparr>))"
    by (subst ic.ensure_trace_draws [where u = u and w' = "w\<lparr>host := h\<rparr>"])
       (simp_all add: ask_host_def ic_get_id_def ic_set_id_def new_ingestion_context_def)
  show ?thesis
    unfolding ingest_execute_def execute_def ingest_handlers_list raw_payload_global_def
    using trace
    by (simp add: andthen_def bind_def logging_handler_def)
       (simp add: io_defs NameError_def new_ingestion_context_def)
qed

text \<open>C1: As shipped, the ingestion pipeline publishes nothing. \<open>LoggingHandler\<close> raises NameError on
  every message, before any counter is incremented: whatever the message, the settings and the
  services do, executing the pipeline raises NameError, Kafka and Redis are not called, and no
  metric changes.\<close>

theorem ingest_never_publishes:
  "\<exists>e c' w'. ingest_execute S cfg raw_payload_global (new_ingestion_context m, w) = (Inl e, (c', w'))
     \<and> isinstance e ''NameError'' \<and> \<not> ic_processed c'
     \<and> kafka w' = kafka w \<and> redis w' = redis w \<and> met w' = met w"
  using ingest_name_error [of S cfg m w] by (fastforce simp: NameError_def)

text \<open>C17: The pipeline refines a sequential specification. If no service call is cancelled and the
  event's timestamp is not at the end of the calendar (then the validation raises OverflowError, which
  no handler catches), the four handlers, each with its continuation, its guards and its exception
  clauses, do on a message with the payload \<open>d\<close> exactly what \<open>ingest_fate\<close> says in one line of cases:
  count the reception, validate, ask the limiter, produce, and count one of the four ends; the context
  tells which, and the validation is timed once.\<close>

theorem pipeline_refines_fate:
  assumes "uncancelled S" "timely (py_of S) d" "h_uuid4 (host_of S) (host w) = (u, h)"
    and "ingest_fate S cfg d (device_of_topic (rm_topic m)) u
      (bump (received_counter (py_of S) m d) (w\<lparr>host := h\<rparr>)) = (f, w')"
  shows "ingest_execute S cfg (Some (JObj d)) (new_ingestion_context m, w) =
     (Inr (), (context_after f (logged_context m u d), tick VALIDATION_LATENCY w'))"
  by (rule ingest_execute_fate [OF assms])

text \<open>C18: With the payload bound (the reading of \<open>raw_payload\<close> that the comments of the handler
  describe) the pipeline accounts for every event. If no service call is cancelled and the event's
  timestamp is not at the end of the calendar, executing the pipeline returns normally, and exactly
  one of the four outcome counters (validated, schema error, rate limited, Kafka error) goes up, by
  one; it is the validated one exactly when the context is marked processed.\<close>

theorem ingest_accounts:
  assumes "uncancelled S" "timely (py_of S) d"
    and "ingest_execute S cfg (Some (JObj d)) (new_ingestion_context m, w) = (r, (c', w'))"
  shows "r = Inr () \<and> ingest_outcomes w' = ingest_outcomes w + 1 \<and>
    tally EVENTS_VALIDATED w' = tally EVENTS_VALIDATED w + (if ic_processed c' then 1 else 0)"
proof -
  obtain u h where u: "h_uuid4 (host_of S) (host w) = (u, h)" by (cases "h_uuid4 (host_of S) (host w)")
  let ?w1 = "bump (received_counter (py_of S) m d) (w\<lparr>host := h\<rparr>)"
  obtain f w2 where f: "ingest_fate S cfg d (device_of_topic (rm_topic m)) u ?w1 = (f, w2)"
    by (cases "ingest_fate S cfg d (device_of_topic (rm_topic m)) u ?w1")
  have "ingest_outcomes ?w1 = ingest_outcomes w" "tally EVENTS_VALIDATED ?w1 = tally EVENTS_VALIDATED w"
    by (simp_all add: ingest_outcomes_def received_counter_def)
  moreover have "ic_processed (context_after f (logged_context m u d)) \<longleftrightarrow> (\<exists>ev. f = Published ev)"
    by (cases f) (simp_all add: logged_context_def new_ingestion_context_def)
  moreover have "ingest_outcomes (tick VALIDATION_LATENCY w2) = ingest_outcomes w2"
    by (simp add: ingest_outcomes_def)
  ultimately show ?thesis
    using ingest_execute_fate [OF assms(1,2) u f] fate_accounts [OF f] assms(3) by auto
qed

lemma fate_durable:
  assumes "kafka_log (kafka_of S) durable pending" "pending (kafka w) = {#}"
    and "ingest_fate S cfg d device trace w = (Published ev, w')"
  shows "IoTEvent (py_of S) d = Inr ev \<and> (\<exists>k. key_serializer (Some (device_id ev)) = Inr k \<and>
    (\<exists>v. kafka_value (py_of S) ev trace = Inr v \<and>
      durable (kafka w') = durable (kafka w) + {#(I_KAFKA_TOPIC_RAW cfg, JObj v, k)#}))"
proof -
  obtain b w1 where b: "is_allowed S cfg device w = (b, w1)" by (cases "is_allowed S cfg device w")
  then have kafka: "kafka w1 = kafka w" by (rule is_allowed_only_redis) simp
  from assms(3) b obtain w2 where ev: "IoTEvent (py_of S) d = Inr ev"
    and p: "produce_event S cfg ev trace w1 = (Inr (), w2)" and "w' = bump EVENTS_VALIDATED w2"
    by (auto simp: ingest_fate_def split: sum.splits prod.splits bool.splits)
  moreover from p obtain v where "kafka_value (py_of S) ev trace = Inr v"
    "produce S (I_KAFKA_TOPIC_RAW cfg) v (Some (device_id ev)) w1 = (Inr (), w2)"
    by (auto simp: produce_event_def bind_def of_result_def split: sum.splits)
  ultimately show ?thesis using kafka_log.produce_durable [OF assms(1) refl, of "I_KAFKA_TOPIC_RAW cfg" v] assms(2) kafka
    by (fastforce intro: subset_mset.antisym)
qed

lemma publishes_once:
  assumes "uncancelled S" "timely (py_of S) d" "kafka_log (kafka_of S) durable pending"
    and "pending (kafka w) = {#}"
    and "ingest_execute S cfg (Some (JObj d)) (new_ingestion_context m, w) = (r, (c', w'))"
    and "ic_processed c'"
  shows "\<exists>ev v k. IoTEvent (py_of S) d = Inr ev \<and> kafka_value (py_of S) ev (ic_trace_id c') = Inr v \<and>
    key_serializer (Some (device_id ev)) = Inr k \<and>
    durable (kafka w') = durable (kafka w) + {#(I_KAFKA_TOPIC_RAW cfg, JObj v, k)#}"
proof -
  obtain u h where u: "h_uuid4 (host_of S) (host w) = (u, h)" by (cases "h_uuid4 (host_of S) (host w)")
  let ?w1 = "bump (received_counter (py_of S) m d) (w\<lparr>host := h\<rparr>)"
  obtain f w2 where f: "ingest_fate S cfg d (device_of_topic (rm_topic m)) u ?w1 = (f, w2)"
    by (cases "ingest_fate S cfg d (device_of_topic (rm_topic m)) u ?w1")
  note run = ingest_execute_fate [OF assms(1,2) u f]
  have "ic_processed (context_after f (logged_context m u d)) \<longleftrightarrow> (\<exists>ev. f = Published ev)"
    "ic_trace_id (context_after f (logged_context m u d)) = u"
    by (cases f; simp add: logged_context_def new_ingestion_context_def)+
  with run assms(5,6) obtain ev where "f = Published ev" "ic_trace_id c' = u"
    "w' = tick VALIDATION_LATENCY w2" by auto
  with fate_durable [OF assms(3) _ f [unfolded this(1)]] assms(4) show ?thesis by auto
qed

text \<open>C19: With the payload bound, an event that the pipeline marks processed has validated, and it is
  in Kafka exactly once: if no service call is cancelled, the timestamp is not at the end of the
  calendar and nothing was pending in the producer, the durable records afterwards are those from
  before and one more, on the raw topic, keyed by the event's device id, whose value is the dump of
  the validated event (its payload and metadata as pydantic dumps them, with None for NaN and the
  infinities) and the trace id of the context.\<close>

theorem ingest_publishes_once:
  assumes "uncancelled S" "timely (py_of S) d" "kafka_log (kafka_of S) durable pending"
    and "pending (kafka w) = {#}"
    and "ingest_execute S cfg (Some (JObj d)) (new_ingestion_context m, w) = (r, (c', w'))"
    and "ic_processed c'"
  shows "\<exists>ev v k. IoTEvent (py_of S) d = Inr ev \<and> kafka_value (py_of S) ev (ic_trace_id c') = Inr v \<and>
    key_serializer (Some (device_id ev)) = Inr k \<and>
    durable (kafka w') = durable (kafka w) + {#(I_KAFKA_TOPIC_RAW cfg, JObj v, k)#}"
  by (rule publishes_once [OF assms])

section \<open>A run on the reference services\<close>

definition sample_message :: raw_message where
  "sample_message = \<lparr>rm_topic = lit ''devices/sensor-022/events'', rm_payload = [],
     rm_received_at = 0, rm_parsed_payload = None, rm_trace_id = None\<rparr>"

definition sample_ingest :: "(exn + unit) \<times> ingestion_context \<times> (ref_redis, unit, ref_kafka, ref_host) world" where
  "sample_ingest = ingest_execute good_services ingest_defaults (Some (JObj sample_dict))
     (new_ingestion_context sample_message, ingest_world)"

lemma sample_timely: "timely (py_of good_services) sample_dict"
  using IoTEvent_fields(4) [OF sample_IoTEvent] by (simp add: timely_def)

lemma sample_device: "device_of_topic (rm_topic sample_message) = lit ''sensor-022''"
  by (simp add: device_of_topic_def sample_message_def lit_def)

lemma sample_allowed:
  assumes "redis w = empty_redis"
  shows "\<exists>x. is_allowed good_services ingest_defaults d w = (Inr True, w\<lparr>redis := x\<rparr>)"
  using assms
  by (simp add: is_allowed_def rate_limit_lua_def io_defs ref_defs ingest_defaults_def Let_def)
     (rule exI, rule refl)

lemma sample_produce:
  assumes "kafka w = empty_kafka" "producer_set w"
  shows "\<exists>w'. produce good_services topic value (Some (lit s)) w = (Inr (), w')"
  using assms
  by (simp add: produce_def key_serializer_def utf8_encode_def io_defs ref_defs Let_def)

lemma sample_processed: "fst sample_ingest = Inr () \<and> ic_processed (fst (snd sample_ingest))"
proof -
  obtain u h where u: "h_uuid4 (host_of good_services) (host ingest_world) = (u, h)"
    by (cases "h_uuid4 (host_of good_services) (host ingest_world)")
  let ?w1 = "bump (received_counter (py_of good_services) sample_message sample_dict)
    (ingest_world\<lparr>host := h\<rparr>)"
  have "redis ?w1 = empty_redis" "kafka ?w1 = empty_kafka" "producer_set ?w1"
    by (simp_all add: ingest_world_def)
  from sample_allowed [OF this(1), of "lit ''sensor-022''"] obtain x where
    x: "is_allowed good_services ingest_defaults (lit ''sensor-022'') ?w1 = (Inr True, ?w1\<lparr>redis := x\<rparr>)"
    by blast
  obtain v where v: "kafka_value (py_of good_services) sample_event u = Inr v"
    by (simp add: kafka_value_def sample_to_kafka)
  obtain w2 where "produce good_services (I_KAFKA_TOPIC_RAW ingest_defaults) v (Some (lit ''sensor-022''))
      (?w1\<lparr>redis := x\<rparr>) = (Inr (), w2)"
    using sample_produce [of "?w1\<lparr>redis := x\<rparr>" "I_KAFKA_TOPIC_RAW ingest_defaults" v "''sensor-022''"]
      \<open>kafka ?w1 = empty_kafka\<close> \<open>producer_set ?w1\<close> by auto
  then have "produce_event good_services ingest_defaults sample_event u (?w1\<lparr>redis := x\<rparr>) = (Inr (), w2)"
    using v by (simp add: produce_event_def bind_def of_result_def) (simp add: sample_event_def)
  with x have "ingest_fate good_services ingest_defaults sample_dict
      (device_of_topic (rm_topic sample_message)) u ?w1 = (Published sample_event, bump EVENTS_VALIDATED w2)"
    using sample_IoTEvent
    by (simp add: ingest_fate_def sample_device sample_event_def)
  from ingest_execute_fate [OF good.uncancelled_axioms sample_timely u this] show ?thesis
    by (simp add: sample_ingest_def)
qed

lemma sample_ingest_run:
  "ingest_execute good_services ingest_defaults (Some (JObj sample_dict))
     (new_ingestion_context sample_message, ingest_world) =
   (fst sample_ingest, (fst (snd sample_ingest), snd (snd sample_ingest)))"
  by (simp add: sample_ingest_def)

theorem ingest_accounts_witness:
  "fst sample_ingest = Inr () \<and>
   ingest_outcomes (snd (snd sample_ingest)) = 1 \<and> tally EVENTS_VALIDATED (snd (snd sample_ingest)) = 1"
  using ingest_accounts [OF good.uncancelled_axioms sample_timely sample_ingest_run] sample_processed
  by (simp add: ingest_outcomes_def ingest_world_def no_metrics_def)

theorem ingest_publishes_once_witness:
  "\<exists>v k. kafka_value ref_py sample_event (ic_trace_id (fst (snd sample_ingest))) = Inr v \<and>
     rk_durable (kafka (snd (snd sample_ingest))) = {#(lit ''iot.events.raw'', JObj v, k)#}"
proof -
  have "kafka_log (kafka_of good_services) rk_durable rk_pending"
    using rk.kafka_log_axioms by (simp add: good_services_def ingest_services_def)
  from ingest_publishes_once [OF good.uncancelled_axioms sample_timely this _ sample_ingest_run]
  show ?thesis
    using sample_processed sample_IoTEvent
    by (auto simp: ingest_world_def rk_pending_def rk_durable_def empty_kafka_def
        ingest_defaults_def)
qed

theorem pipeline_refines_fate_witness:
  "\<exists>f w'. ingest_execute good_services ingest_defaults (Some (JObj sample_dict))
      (new_ingestion_context sample_message, ingest_world) =
     (Inr (), (context_after f (logged_context sample_message (lit ''uuid-'' @ nat_str 0) sample_dict), w'))"
proof -
  let ?h = "(host ingest_world)\<lparr>rh_uuids := 1\<rparr>"
  have u: "h_uuid4 (host_of good_services) (host ingest_world) = (lit ''uuid-'' @ nat_str 0, ?h)"
    by (simp add: good_services_def ingest_services_def ref_host_def ingest_world_def idle_host_def)
  obtain f w' where "ingest_fate good_services ingest_defaults sample_dict
      (device_of_topic (rm_topic sample_message)) (lit ''uuid-'' @ nat_str 0)
      (bump (received_counter (py_of good_services) sample_message sample_dict) (ingest_world\<lparr>host := ?h\<rparr>)) = (f, w')"
    by fastforce
  from pipeline_refines_fate [OF good.uncancelled_axioms sample_timely u this] show ?thesis by blast
qed

end
