(* ===== verification/Ingest_Main.thy ===== *)
theory Ingest_Main
  imports Ingest_Handlers
begin

text \<open>
  \<open>apps/ingestion/main.py\<close>: start and stop of the service, the two probes, and the three background
  tasks around the bounded queue.

  The tasks run interleaved on one event loop. \<open>ingest_step\<close> is the step relation of the service:
  a step is what happens between two points where a task waits, labelled with what the task was
  woken by (a message of the broker, an error, the end of a sleep, a turn of the dispatcher).
  \<open>Finish\<close> is the dispatcher's run of the pipeline for the message it took. The broker (aiomqtt)
  is not code of this repository: any order of its labels is allowed.
\<close>

section \<open>Start, stop and probes\<close>

definition lifespan_start :: "('r, 'p, 'k, 'h) services \<Rightarrow> ingest_settings \<Rightarrow>
    (('r, 'p, 'k, 'h) world, unit) io" where
  "lifespan_start S cfg = Kafka_Producer.start S cfg"

definition lifespan_stop :: "('r, 'p, 'k, 'h) services \<Rightarrow> (('r, 'p, 'k, 'h) world, unit) io" where
  "lifespan_stop S = andthen (Kafka_Producer.stop S) (on_redis (r_close (redis_of S)))"

text \<open>\<open>lifespan\<close> around what runs between the start and the shutdown, which is the argument, with the
  tasks and their cancellation; the other argument is the metrics server of the library.\<close>

definition ingest_metrics_server :: "(int \<Rightarrow> ('s, unit) io) \<Rightarrow> ingest_settings \<Rightarrow> ('s, unit) io" where
  "ingest_metrics_server start_http_server cfg = start_shared_metrics_server start_http_server (I_METRICS_PORT cfg)"

declare ingest_metrics_server_def [simp]

definition lifespan :: "('r, 'p, 'k, 'h) services \<Rightarrow> ingest_settings \<Rightarrow>
    (int \<Rightarrow> (('r, 'p, 'k, 'h) world, unit) io) \<Rightarrow> (('r, 'p, 'k, 'h) world, unit) io \<Rightarrow>
    (('r, 'p, 'k, 'h) world, unit) io" where
  "lifespan S cfg start_http_server app =
     andthen (ingest_metrics_server start_http_server cfg)
       (andthen (lifespan_start S cfg) (try_finally app (lifespan_stop S)))"

text \<open>A producer that cannot be started ends the service before anything runs; the client remains
  set, so that the readiness probe would find it.\<close>

lemma lifespan_needs_kafka:
  assumes "start_http_server (I_METRICS_PORT cfg) w = (Inr (), w1)"
    and "k_start (kafka_of S) (start_config cfg) (kafka w1) = (Inl e, k)"
  shows "lifespan S cfg start_http_server app w = (Inl e, w1\<lparr>producer_set := True, kafka := k\<rparr>)"
  using assms by (simp add: lifespan_def lifespan_start_def Kafka_Producer.start_def io_defs)

definition healthz :: "nat \<times> (string \<times> pystr) list" where
  "healthz = (200, [(''status'', lit ''ok'')])"

record ready_response =
  http_code :: nat
  ready_status :: string
  kafka_check :: string
  redis_check :: pystr

text \<open>The arguments say whether the two module variables hold a client.\<close>

definition readyz :: "('r, 'p, 'k, 'h) services \<Rightarrow> bool \<Rightarrow> bool \<Rightarrow>
    (('r, 'p, 'k, 'h) world, ready_response) io" where
  "readyz S kafka_producer redis_client =
     bind (gets producer_set) (\<lambda>p.
     let kafka_ok = kafka_producer \<and> p in
     bind (try_except
            (andthen (if redis_client then on_redis (r_ping (redis_of S)) else ret ()) (ret (lit ''ok'')))
            (catching ''Exception'' (\<lambda>exc. ret (lit ''error: '' @ msg exc))))
       (\<lambda>redis_text. ret \<lparr>http_code = (if kafka_ok then 200 else 503),
          ready_status = (if kafka_ok then ''ready'' else ''degraded''),
          kafka_check = (if kafka_ok then ''ok'' else ''not_ready''), redis_check = redis_text\<rparr>))"

section \<open>The queue\<close>

definition queue_max :: nat where
  "queue_max = 10000"

text \<open>\<open>put_nowait\<close>: None is QueueFull. The second component is the count of unfinished tasks.\<close>

definition put_nowait :: "raw_message \<Rightarrow> raw_message list \<times> nat \<Rightarrow> (raw_message list \<times> nat) option" where
  "put_nowait m q = (if queue_max \<le> length (fst q) then None else Some (fst q @ [m], snd q + 1))"

definition task_done :: "raw_message list \<times> nat \<Rightarrow> raw_message list \<times> nat" where
  "task_done q = (fst q, snd q - 1)"

section \<open>The tasks\<close>

datatype sub_phase = Connecting | Subscribing | Receiving | Waiting | Ended

record ('r, 'p, 'k, 'h) ingest_state =
  i_queue :: "raw_message list \<times> nat"
  i_phase :: sub_phase
  i_delay :: rat
  i_busy :: "raw_message option"
  i_dispatching :: bool
  i_world :: "('r, 'p, 'k, 'h) world"

datatype label =
    Broker_up | Broker_subscribed | Broker_message raw_message | Broker_closed | Broker_error
  | Broker_crash | Wake | Cancel_subscriber
  | Take | Finish | Cancel_dispatcher
  | Update_gauge

definition connected :: "int \<Rightarrow> ('r, 'p, 'k, 'h) world \<Rightarrow> ('r, 'p, 'k, 'h) world" where
  "connected v w = snd (set_gauge MQTT_CONNECTED v w)"

definition in_client :: "sub_phase \<Rightarrow> bool" where
  "in_client ph \<longleftrightarrow> ph = Connecting \<or> ph = Subscribing \<or> ph = Receiving"

text \<open>The body of \<open>async for message in client.messages\<close>.\<close>

definition on_message :: "raw_message \<Rightarrow> ('r, 'p, 'k, 'h) ingest_state \<Rightarrow> ('r, 'p, 'k, 'h) ingest_state" where
  "on_message m s =
     (case put_nowait m (i_queue s) of
        Some q \<Rightarrow> s\<lparr>i_queue := q\<rparr>
      | None \<Rightarrow> s\<lparr>i_world := bump (EVENTS_DROPPED (lit ''queue_full'')) (i_world s)\<rparr>)"

text \<open>\<open>_process_mqtt_message\<close> and what the dispatcher does with its result.\<close>

definition process_mqtt_message :: "('r, 'p, 'k, 'h) services \<Rightarrow> ingest_settings \<Rightarrow> json option \<Rightarrow>
    raw_message \<Rightarrow> (('r, 'p, 'k, 'h) world, unit) io" where
  "process_mqtt_message S cfg glob m =
     (\<lambda>w. case ingest_execute S cfg glob (new_ingestion_context m, w) of (r, (_, w')) \<Rightarrow> (r, w'))"

definition on_finish :: "('r, 'p, 'k, 'h) services \<Rightarrow> ingest_settings \<Rightarrow> json option \<Rightarrow> raw_message \<Rightarrow>
    ('r, 'p, 'k, 'h) ingest_state \<Rightarrow> ('r, 'p, 'k, 'h) ingest_state" where
  "on_finish S cfg glob m s =
     (case process_mqtt_message S cfg glob m (i_world s) of
        (Inr _, w) \<Rightarrow> s\<lparr>i_busy := None, i_world := w, i_queue := task_done (i_queue s)\<rparr>
      | (Inl e, w) \<Rightarrow>
          if ordinary e then s\<lparr>i_busy := None, i_world := w\<rparr>
          else s\<lparr>i_busy := None, i_world := w, i_dispatching := False\<rparr>)"

inductive ingest_step :: "('r, 'p, 'k, 'h) services \<Rightarrow> ingest_settings \<Rightarrow> json option \<Rightarrow>
    ('r, 'p, 'k, 'h) ingest_state \<Rightarrow> label \<Rightarrow> ('r, 'p, 'k, 'h) ingest_state \<Rightarrow> bool"
  for S :: "('r, 'p, 'k, 'h) services" and cfg :: ingest_settings and glob :: "json option"
where
  up: "i_phase s = Connecting \<Longrightarrow>
    ingest_step S cfg glob s Broker_up
      (s\<lparr>i_phase := Subscribing, i_delay := I_MQTT_RECONNECT_DELAY_MIN cfg,
         i_world := connected 1 (i_world s)\<rparr>)"
| subscribed: "i_phase s = Subscribing \<Longrightarrow>
    ingest_step S cfg glob s Broker_subscribed (s\<lparr>i_phase := Receiving\<rparr>)"
| message: "i_phase s = Receiving \<Longrightarrow>
    ingest_step S cfg glob s (Broker_message m) (on_message m s)"
| closed: "i_phase s = Receiving \<Longrightarrow>
    ingest_step S cfg glob s Broker_closed (s\<lparr>i_phase := Connecting\<rparr>)"
| error: "in_client (i_phase s) \<Longrightarrow>
    ingest_step S cfg glob s Broker_error (s\<lparr>i_phase := Waiting, i_world := connected 0 (i_world s)\<rparr>)"
| crash: "in_client (i_phase s) \<Longrightarrow>
    ingest_step S cfg glob s Broker_crash (s\<lparr>i_phase := Ended\<rparr>)"
| wake: "i_phase s = Waiting \<Longrightarrow>
    ingest_step S cfg glob s Wake
      (s\<lparr>i_phase := Connecting, i_delay := min (i_delay s * 2) (I_MQTT_RECONNECT_DELAY_MAX cfg)\<rparr>)"
| cancel: "in_client (i_phase s) \<Longrightarrow>
    ingest_step S cfg glob s Cancel_subscriber (s\<lparr>i_phase := Ended, i_world := connected 0 (i_world s)\<rparr>)"
| cancel_waiting: "i_phase s = Waiting \<Longrightarrow>
    ingest_step S cfg glob s Cancel_subscriber (s\<lparr>i_phase := Ended\<rparr>)"
| take_msg: "i_dispatching s \<Longrightarrow> i_busy s = None \<Longrightarrow> fst (i_queue s) = m # ms \<Longrightarrow>
    ingest_step S cfg glob s Take (s\<lparr>i_queue := (ms, snd (i_queue s)), i_busy := Some m\<rparr>)"
| finish: "i_dispatching s \<Longrightarrow> i_busy s = Some m \<Longrightarrow>
    ingest_step S cfg glob s Finish (on_finish S cfg glob m s)"
| cancel_dispatcher: "i_dispatching s \<Longrightarrow> i_busy s = None \<Longrightarrow>
    ingest_step S cfg glob s Cancel_dispatcher (s\<lparr>i_dispatching := False\<rparr>)"
| gauge: "ingest_step S cfg glob s Update_gauge
    (s\<lparr>i_world := snd (set_gauge QUEUE_SIZE (int (length (fst (i_queue s)))) (i_world s))\<rparr>)"

inductive_cases ingest_step_cases: "ingest_step S cfg glob s l s'"
inductive_simps message_simps: "ingest_step S cfg glob s (Broker_message m) s'"
inductive_simps finish_simps: "ingest_step S cfg glob s Finish s'"

inductive ingest_run :: "('r, 'p, 'k, 'h) services \<Rightarrow> ingest_settings \<Rightarrow> json option \<Rightarrow>
    ('r, 'p, 'k, 'h) ingest_state \<Rightarrow> label list \<Rightarrow> ('r, 'p, 'k, 'h) ingest_state \<Rightarrow> bool"
  for S :: "('r, 'p, 'k, 'h) services" and cfg :: ingest_settings and glob :: "json option"
where
  stay: "ingest_run S cfg glob s [] s"
| go: "ingest_run S cfg glob s ls s1 \<Longrightarrow> ingest_step S cfg glob s1 l s2 \<Longrightarrow>
    ingest_run S cfg glob s (ls @ [l]) s2"

text \<open>The service after \<open>lifespan\<close> has started the tasks.\<close>

definition ingest_init :: "ingest_settings \<Rightarrow> ('r, 'p, 'k, 'h) world \<Rightarrow> ('r, 'p, 'k, 'h) ingest_state" where
  "ingest_init cfg w = \<lparr>i_queue = ([], 0), i_phase = Connecting, i_delay = I_MQTT_RECONNECT_DELAY_MIN cfg,
     i_busy = None, i_dispatching = True, i_world = w\<rparr>"

section \<open>What the pipeline leaves alone\<close>

text \<open>The gauges and the count of messages dropped for a full queue belong to the tasks.\<close>

definition tasks_own :: "('r, 'p, 'k, 'h) world \<Rightarrow> ('r, 'p, 'k, 'h) world \<Rightarrow> bool" where
  "tasks_own w w' \<longleftrightarrow> gauges (met w') = gauges (met w) \<and>
     tally (EVENTS_DROPPED (lit ''queue_full'')) w' = tally (EVENTS_DROPPED (lit ''queue_full'')) w"

lemma preorder_tasks_own [leads_intros]: "preorder_rel tasks_own"
  by (simp add: preorder_rel_def tasks_own_def)

lemma tasks_own_calls [leads_intros]:
  "leads tasks_own (on_redis mr)" "leads tasks_own (on_kafka mk)" "leads tasks_own (ask_host f)"
  "leads tasks_own (observe h)"
  "c \<noteq> EVENTS_DROPPED (lit ''queue_full'') \<Longrightarrow> leads tasks_own (inc c)"
  by (auto simp: tasks_own_def observe_def inc_def intro!: world_calls_same leads_modify)

lemma tasks_own_timed [leads_intros]:
  "leads tasks_own m \<Longrightarrow> leads tasks_own (timed h m)"
  "leads (on_snd tasks_own) n \<Longrightarrow> leads (on_snd tasks_own) (timed_ctx h n)"
  unfolding timed_def timed_ctx_def by (intro leads_intros | assumption)+

lemma handlers_leave_tasks:
  assumes "leads (on_snd tasks_own) k"
  shows "leads (on_snd tasks_own) (logging_handler S glob k)"
    "leads (on_snd tasks_own) (ValidationHandler S k)"
    "leads (on_snd tasks_own) (RateLimitHandler S cfg k)"
    "leads (on_snd tasks_own) (KafkaPublishHandler S cfg k)"
proof -
  show "leads (on_snd tasks_own) (logging_handler S glob k)"
    unfolding logging_handler_def
    by (cases glob) (simp_all, (intro leads_intros assms; simp split: prod.split)+)
  show "leads (on_snd tasks_own) (ValidationHandler S k)"
    unfolding ValidationHandler_def by (intro leads_intros assms) (simp_all split: prod.split)
  show "leads (on_snd tasks_own) (RateLimitHandler S cfg k)"
    unfolding RateLimitHandler_def is_allowed_def Let_def by (intro leads_intros assms) simp_all
  have "leads tasks_own (produce_event S cfg ev trace)" for ev trace
    unfolding produce_event_def produce_def count_kafka_error_def by (intro leads_intros) simp_all
  then have "leads (on_snd tasks_own) (try_except
             (andthen (eff (produce_event S cfg ev (ic_trace_id ctx)))
             (andthen (eff (inc EVENTS_VALIDATED))
             (andthen (modify (\<lambda>(c, w). (c\<lparr>ic_processed := True\<rparr>, w))) k)))
             (catching ''Exception'' (\<lambda>exc. eff (inc (EVENTS_DROPPED (lit ''kafka_error''))))))" for ev ctx
    by (intro leads_intros assms) (simp_all split: prod.split)
  then show "leads (on_snd tasks_own) (KafkaPublishHandler S cfg k)"
    unfolding KafkaPublishHandler_def
    by (intro leads_intros) (auto intro: leads_ret preorder_on_snd preorder_tasks_own split: option.split)
qed

lemma execute_leaves_tasks: "leads (on_snd tasks_own) (ingest_execute S cfg glob)"
proof -
  have "leads (on_snd tasks_own) (dispatch (ingest_handlers S cfg glob) 0)"
    unfolding ingest_handlers_list dispatch_Cons dispatch_Nil
    by (intro handlers_leave_tasks leads_ret leads_intros)
  moreover have "leads (on_snd tasks_own) (ensure_trace ic_get_id ic_set_id (ask_host (h_uuid4 (host_of S))))"
    unfolding ensure_trace_def by (intro leads_intros) (simp split: prod.split)
  ultimately show ?thesis
    unfolding ingest_execute_def execute_def by (auto intro!: leads_intros)
qed

lemma process_leaves_tasks:
  assumes "process_mqtt_message S cfg glob m w = (r, w')" shows "tasks_own w w'"
  using assms leadsD [OF execute_leaves_tasks]
  by (fastforce simp: process_mqtt_message_def on_snd_def split: prod.splits)

section \<open>Invariants of the service\<close>

fun messages_in :: "label list \<Rightarrow> nat" where
  "messages_in [] = 0"
| "messages_in (Broker_message m # ls) = messages_in ls + 1"
| "messages_in (_ # ls) = messages_in ls"

fun taken_in :: "label list \<Rightarrow> nat" where
  "taken_in [] = 0"
| "taken_in (Take # ls) = taken_in ls + 1"
| "taken_in (_ # ls) = taken_in ls"

lemma in_snoc:
  "messages_in (ls @ [l]) = messages_in ls + messages_in [l]"
  "taken_in (ls @ [l]) = taken_in ls + taken_in [l]"
  by (induction ls rule: messages_in.induct) simp_all

abbreviation full_drops :: "('r, 'p, 'k, 'h) world \<Rightarrow> nat" where
  "full_drops w \<equiv> tally (EVENTS_DROPPED (lit ''queue_full'')) w"

definition ingest_inv :: "ingest_settings \<Rightarrow> ('r, 'p, 'k, 'h) world \<Rightarrow> label list \<Rightarrow>
    ('r, 'p, 'k, 'h) ingest_state \<Rightarrow> bool" where
  "ingest_inv cfg w0 ls s \<longleftrightarrow>
     length (fst (i_queue s)) \<le> queue_max \<and>
     I_MQTT_RECONNECT_DELAY_MIN cfg \<le> i_delay s \<and> i_delay s \<le> I_MQTT_RECONNECT_DELAY_MAX cfg \<and>
     (i_phase s = Subscribing \<or> i_phase s = Receiving \<longrightarrow> gauges (met (i_world s)) MQTT_CONNECTED = 1) \<and>
     (i_phase s = Waiting \<longrightarrow> gauges (met (i_world s)) MQTT_CONNECTED = 0) \<and>
     messages_in ls + full_drops w0 =
       taken_in ls + length (fst (i_queue s)) + full_drops (i_world s)"

lemma connected_fields [simp]:
  "gauges (met (connected v w)) MQTT_CONNECTED = v" "tally c (connected v w) = tally c w"
  "kafka (connected v w) = kafka w" "redis (connected v w) = redis w"
  by (simp_all add: connected_def set_gauge_def modify_def)

lemma on_finish_fields:
  "fst (i_queue (on_finish S cfg glob m s)) = fst (i_queue s)"
  "i_delay (on_finish S cfg glob m s) = i_delay s" "i_phase (on_finish S cfg glob m s) = i_phase s"
  "tasks_own (i_world s) (i_world (on_finish S cfg glob m s))"
  using process_leaves_tasks
  by (auto simp: on_finish_def task_done_def split: prod.splits sum.splits)

lemma ingest_inv_step:
  assumes "ingest_step S cfg glob s l s'" "ingest_inv cfg w0 ls s"
    and "0 \<le> I_MQTT_RECONNECT_DELAY_MIN cfg" "I_MQTT_RECONNECT_DELAY_MIN cfg \<le> I_MQTT_RECONNECT_DELAY_MAX cfg"
  shows "ingest_inv cfg w0 (ls @ [l]) s'"
  using assms
proof (induction rule: ingest_step.induct)
  case (message s m)
  then show ?case
    by (auto simp: ingest_inv_def in_snoc on_message_def put_nowait_def split: if_splits)
next
  case (finish s m)
  then show ?case
    using on_finish_fields(4) [of s S cfg glob m]
    by (auto simp: ingest_inv_def in_snoc tasks_own_def on_finish_fields(1-3))
next
  case (gauge s)
  then show ?case by (auto simp: ingest_inv_def in_snoc set_gauge_def modify_def)
next
  case (wake s)
  then show ?case by (auto simp: ingest_inv_def in_snoc min_def)
qed (auto simp: ingest_inv_def in_snoc in_client_def)

lemma ingest_run_inv:
  assumes "ingest_run S cfg glob s ls s'" "ingest_inv cfg w0 [] s"
    and "0 \<le> I_MQTT_RECONNECT_DELAY_MIN cfg" "I_MQTT_RECONNECT_DELAY_MIN cfg \<le> I_MQTT_RECONNECT_DELAY_MAX cfg"
  shows "ingest_inv cfg w0 ls s'"
  using assms by (induction rule: ingest_run.induct) (auto intro: ingest_inv_step)

text \<open>C20: In every state the ingestion service can reach, whatever the broker sends and however the tasks
  interleave: the queue holds at most 10000 messages; the reconnect delay lies between its minimum
  and its maximum; the gauge MQTT_CONNECTED is 1 while the subscriber is connected and 0 while it
  waits to reconnect; and no message gets lost before the pipeline without being counted: the
  messages received are those taken by the dispatcher, those in the queue and those counted as
  dropped for a full queue.\<close>

theorem ingest_service_invariant:
  assumes "0 \<le> I_MQTT_RECONNECT_DELAY_MIN cfg" "I_MQTT_RECONNECT_DELAY_MIN cfg \<le> I_MQTT_RECONNECT_DELAY_MAX cfg"
    and "ingest_run S cfg glob (ingest_init cfg w0) ls s"
  shows "length (fst (i_queue s)) \<le> 10000 \<and>
     I_MQTT_RECONNECT_DELAY_MIN cfg \<le> i_delay s \<and> i_delay s \<le> I_MQTT_RECONNECT_DELAY_MAX cfg \<and>
     (i_phase s = Subscribing \<or> i_phase s = Receiving \<longrightarrow> gauges (met (i_world s)) MQTT_CONNECTED = 1) \<and>
     (i_phase s = Waiting \<longrightarrow> gauges (met (i_world s)) MQTT_CONNECTED = 0) \<and>
     messages_in ls + full_drops w0 = taken_in ls + length (fst (i_queue s)) + full_drops (i_world s)"
proof -
  have "ingest_inv cfg w0 [] (ingest_init cfg w0)"
    using assms(1,2) by (simp add: ingest_inv_def ingest_init_def)
  from ingest_run_inv [OF assms(3) this assms(1,2)] show ?thesis
    by (simp add: ingest_inv_def queue_max_def)
qed

text \<open>A run of the service: it connects, receives the sample message, takes it and runs the pipeline.\<close>

definition sample_labels :: "label list" where
  "sample_labels = [Broker_up, Broker_subscribed, Broker_message sample_message, Take, Finish]"

lemma sample_ingest_run_exists:
  "\<exists>s. ingest_run S cfg glob (ingest_init cfg w) sample_labels s"
proof -
  note steps = ingest_run.go [OF _ ingest_step.up] ingest_run.go [OF _ ingest_step.subscribed]
    ingest_run.go [OF _ ingest_step.message] ingest_run.go [OF _ ingest_step.take_msg]
    ingest_run.go [OF _ ingest_step.finish]
  have "sample_labels = (((([] @ [Broker_up]) @ [Broker_subscribed]) @ [Broker_message sample_message])
      @ [Take]) @ [Finish]" by (simp add: sample_labels_def)
  moreover have "\<exists>s. ingest_run S cfg glob (ingest_init cfg w) ((((([] @ [Broker_up]) @ [Broker_subscribed])
      @ [Broker_message sample_message]) @ [Take]) @ [Finish]) s"
    by (rule exI, rule steps, rule steps, rule steps, rule steps, rule steps, rule ingest_run.stay)
       (simp_all add: ingest_init_def on_message_def put_nowait_def queue_max_def)
  ultimately show ?thesis by metis
qed

theorem ingest_service_invariant_witness:
  "\<exists>s :: (ref_redis, unit, ref_kafka, ref_host) ingest_state.
     ingest_run good_services ingest_defaults raw_payload_global (ingest_init ingest_defaults ingest_world)
       sample_labels s \<and> fst (i_queue s) = [] \<and> full_drops (i_world s) = 0"
proof -
  obtain s where run: "ingest_run good_services ingest_defaults raw_payload_global
      (ingest_init ingest_defaults ingest_world) sample_labels s" using sample_ingest_run_exists by blast
  have "messages_in sample_labels = 1" "taken_in sample_labels = 1" by (simp_all add: sample_labels_def)
  with ingest_service_invariant [OF _ _ run] run show ?thesis
    by (auto simp: ingest_defaults_def ingest_world_def no_metrics_def)
qed

section \<open>Reconnecting\<close>

lemma ingest_run_snoc:
  assumes "ingest_run S cfg glob s (ls @ [l]) s2"
  obtains s1 where "ingest_run S cfg glob s ls s1" "ingest_step S cfg glob s1 l s2"
  using assms by (cases rule: ingest_run.cases) auto

inductive_cases error_cases: "ingest_step S cfg glob s Broker_error s'"
inductive_cases wake_cases: "ingest_step S cfg glob s Wake s'"

lemma min_double: "0 \<le> (m :: rat) \<Longrightarrow> min (min a m * 2) m = min (a * 2) m"
  by (auto simp: min_def)

lemma concat_replicate_snoc: "concat (replicate (Suc n) xs) = concat (replicate n xs) @ xs"
  by (induction n) simp_all

text \<open>The subscriber backs off exponentially: after \<open>n\<close> failed attempts to connect in a row, each
  followed by its sleep, the next delay is the delay it began with, doubled \<open>n\<close> times, up to the
  maximum.\<close>

lemma reconnect_backoff:
  assumes "i_phase s = Connecting" "i_delay s \<le> I_MQTT_RECONNECT_DELAY_MAX cfg"
    and "0 \<le> I_MQTT_RECONNECT_DELAY_MAX cfg"
    and "ingest_run S cfg glob s (concat (replicate n [Broker_error, Wake])) s'"
  shows "i_phase s' = Connecting \<and> i_delay s' = min (i_delay s * 2 ^ n) (I_MQTT_RECONNECT_DELAY_MAX cfg)"
  using assms(4)
proof (induction n arbitrary: s')
  case 0
  then show ?case using assms(1,2) by (auto elim: ingest_run.cases)
next
  case (Suc n)
  have "concat (replicate (Suc n) [Broker_error, Wake]) =
      (concat (replicate n [Broker_error, Wake]) @ [Broker_error]) @ [Wake]"
    by (simp only: concat_replicate_snoc append_assoc append_Cons append_Nil)
  with Suc.prems have "ingest_run S cfg glob s
      ((concat (replicate n [Broker_error, Wake]) @ [Broker_error]) @ [Wake]) s'" by metis
  then obtain s1 s2 where "ingest_run S cfg glob s (concat (replicate n [Broker_error, Wake])) s1"
    "ingest_step S cfg glob s1 Broker_error s2" "ingest_step S cfg glob s2 Wake s'"
    by (metis ingest_run_snoc)
  with Suc.IH have "i_delay s2 = min (i_delay s * 2 ^ n) (I_MQTT_RECONNECT_DELAY_MAX cfg)"
    "i_phase s' = Connecting" "i_delay s' = min (i_delay s2 * 2) (I_MQTT_RECONNECT_DELAY_MAX cfg)"
    by (auto elim!: error_cases wake_cases)
  with assms(3) show ?case by (simp add: min_double mult.assoc mult.commute [of 2])
qed

text \<open>Six failures of the default service: 1, 2, 4, 8, 16 and then 30 seconds.\<close>

lemma reconnect_run_exists:
  "i_phase s = Connecting \<Longrightarrow> \<exists>s'. ingest_run S cfg glob s (concat (replicate n [Broker_error, Wake])) s' \<and>
     i_phase s' = Connecting"
proof (induction n)
  case 0
  then show ?case using ingest_run.stay by fastforce
next
  case (Suc n)
  then obtain s1 where s1: "ingest_run S cfg glob s (concat (replicate n [Broker_error, Wake])) s1"
    "i_phase s1 = Connecting" by blast
  let ?s2 = "s1\<lparr>i_phase := Waiting, i_world := connected 0 (i_world s1)\<rparr>"
  have "ingest_step S cfg glob s1 Broker_error ?s2" by (rule ingest_step.error) (simp add: s1(2) in_client_def)
  moreover have "ingest_step S cfg glob ?s2 Wake
      (?s2\<lparr>i_phase := Connecting, i_delay := min (i_delay ?s2 * 2) (I_MQTT_RECONNECT_DELAY_MAX cfg)\<rparr>)"
    by (rule ingest_step.wake) simp
  ultimately have "ingest_run S cfg glob s ((concat (replicate n [Broker_error, Wake]) @ [Broker_error]) @ [Wake])
      (?s2\<lparr>i_phase := Connecting, i_delay := min (i_delay ?s2 * 2) (I_MQTT_RECONNECT_DELAY_MAX cfg)\<rparr>)"
    by (intro ingest_run.go [OF ingest_run.go [OF s1(1)]])
  moreover have "concat (replicate (Suc n) [Broker_error, Wake]) =
      (concat (replicate n [Broker_error, Wake]) @ [Broker_error]) @ [Wake]"
    by (simp only: concat_replicate_snoc append_assoc append_Cons append_Nil)
  ultimately show ?case by (intro exI conjI) (auto simp del: replicate.simps)
qed

lemma reconnect_backoff_example:
  "\<exists>s' :: (ref_redis, unit, ref_kafka, ref_host) ingest_state.
     ingest_run good_services ingest_defaults raw_payload_global (ingest_init ingest_defaults ingest_world)
       (concat (replicate 6 [Broker_error, Wake])) s' \<and> i_delay s' = 30"
proof -
  have "i_phase (ingest_init ingest_defaults ingest_world) = Connecting" by (simp add: ingest_init_def)
  from reconnect_run_exists [OF this] obtain s' where run:
    "ingest_run good_services ingest_defaults raw_payload_global (ingest_init ingest_defaults ingest_world)
       (concat (replicate 6 [Broker_error, Wake])) s'" by blast
  from reconnect_backoff [OF _ _ _ run] run show ?thesis
    by (intro exI [of _ s']) (simp add: ingest_init_def ingest_defaults_def)
qed

section \<open>The service as it is shipped\<close>

lemma shipped_finish:
  "\<exists>w'. process_mqtt_message S cfg raw_payload_global m w = (Inl (NameError (lit ''name raw_payload is not defined'')), w') \<and>
     kafka w' = kafka w \<and> redis w' = redis w \<and> met w' = met w"
  using ingest_name_error [of S cfg m w] by (auto simp: process_mqtt_message_def)

definition shipped_inv :: "('r, 'p, 'k, 'h) world \<Rightarrow> label list \<Rightarrow> ('r, 'p, 'k, 'h) ingest_state \<Rightarrow> bool" where
  "shipped_inv w0 ls s \<longleftrightarrow> kafka (i_world s) = kafka w0 \<and> redis (i_world s) = redis w0 \<and>
     tally EVENTS_VALIDATED (i_world s) = tally EVENTS_VALIDATED w0 \<and>
     snd (i_queue s) + full_drops (i_world s) = messages_in ls + full_drops w0"

lemma shipped_inv_step:
  assumes "ingest_step S cfg raw_payload_global s l s'" "shipped_inv w0 ls s"
  shows "shipped_inv w0 (ls @ [l]) s'"
  using assms
proof (cases rule: ingest_step.cases)
  case (message m)
  then show ?thesis using assms(2)
    by (auto simp: shipped_inv_def in_snoc on_message_def put_nowait_def split: if_splits)
next
  case (finish m)
  obtain w' where "process_mqtt_message S cfg raw_payload_global m (i_world s) =
      (Inl (NameError (lit ''name raw_payload is not defined'')), w')"
    "kafka w' = kafka (i_world s)" "redis w' = redis (i_world s)" "met w' = met (i_world s)"
    using shipped_finish by blast
  with finish assms(2) show ?thesis
    by (simp add: shipped_inv_def in_snoc on_finish_def NameError_def)
qed (use assms(2) in \<open>auto simp: shipped_inv_def in_snoc set_gauge_def modify_def\<close>)

text \<open>As shipped, the service never publishes an event: in every state it can reach, whatever the
  broker sends, Kafka and Redis are as they were at the start, no event has been counted as
  validated, and no message that was put into the queue has ever been marked done.\<close>

lemma service_publishes_nothing:
  assumes "ingest_run S cfg raw_payload_global (ingest_init cfg w0) ls s"
  shows "kafka (i_world s) = kafka w0 \<and> redis (i_world s) = redis w0 \<and>
     tally EVENTS_VALIDATED (i_world s) = tally EVENTS_VALIDATED w0 \<and>
     snd (i_queue s) + full_drops (i_world s) = messages_in ls + full_drops w0"
proof -
  have "shipped_inv w0 ls s"
    using assms
  proof (induction "ingest_init cfg w0" ls s rule: ingest_run.induct)
    case stay
    then show ?case by (simp add: shipped_inv_def ingest_init_def)
  next
    case (go ls s1 l s2)
    then show ?case by (blast intro: shipped_inv_step)
  qed
  then show ?thesis by (simp add: shipped_inv_def)
qed

lemma service_publishes_nothing_example:
  "\<exists>s. ingest_run good_services ingest_defaults raw_payload_global (ingest_init ingest_defaults ingest_world)
       sample_labels s \<and> rk_log (kafka (i_world s)) = []"
proof -
  obtain s where run: "ingest_run good_services ingest_defaults raw_payload_global
      (ingest_init ingest_defaults ingest_world) sample_labels s" using sample_ingest_run_exists by blast
  from service_publishes_nothing [OF run] run show ?thesis
    by (auto simp: ingest_world_def empty_kafka_def)
qed

section \<open>Readiness\<close>

text \<open>The readiness probe looks at one variable: if Redis calls are not cancelled it answers, with the
  code 200 exactly when a Kafka client has been started once, whatever Redis answers, and without a
  look at the MQTT connection that its docstring promises.\<close>

lemma readyz_answers:
  assumes "uncancelled S"
  shows "\<exists>a w'. readyz S True client w = (Inr a, w') \<and>
    (http_code a = 200 \<longleftrightarrow> producer_set w) \<and> (http_code a = 503 \<longleftrightarrow> \<not> producer_set w) \<and> met w' = met w"
proof -
  let ?ping = "try_except
      (andthen (if client then on_redis (r_ping (redis_of S)) else ret ()) (ret (lit ''ok'')))
      (catching ''Exception'' (\<lambda>exc. ret (lit ''error: '' @ msg exc)))"
  have "quiet ?ping" by (intro raises_intros uncancelled.mild_redis(7) assms)
  then obtain t w' where t: "?ping w = (Inr t, w')" by (rule quiet_result)
  have "leads (\<lambda>w w'. met w' = met w) ?ping"
    by (intro leads_intros world_calls_same) (auto simp: preorder_rel_def)
  from leadsD [OF this t] have "met w' = met w" .
  with t show ?thesis by (simp add: readyz_def bind_def gets_def ret_def Let_def)
qed

lemma readyz_answers_example:
  "\<exists>a w'. readyz good_services True True ingest_world = (Inr a, w') \<and> http_code a = 200"
  using readyz_answers [OF good.uncancelled_axioms, of True ingest_world] by (auto simp: ingest_world_def)

end
