(* ===== verification/Kafka_Batch.thy ===== *)
theory Kafka_Batch
  imports Kafka_Producer Reference
begin

text \<open>
  What \<open>KafkaProducerClient.produce_batch\<close> promises and what it does not. The batch is accepted in
  order, one \<open>send\<close> for each message up to the first that fails, and one \<open>flush\<close> at the end; the
  futures that \<open>send\<close> returns are collected and never awaited, so the method cannot know whether
  a record was delivered.
\<close>

section \<open>Records of a batch\<close>

fun records_of :: "(pystr \<times> dict \<times> pystr option) list \<Rightarrow> krecord multiset" where
  "records_of [] = {#}"
| "records_of ((topic, value, key) # messages) =
     (case record_of topic value key of None \<Rightarrow> {#} | Some r \<Rightarrow> {#r#}) + records_of messages"

lemma msub_chain: "A \<subseteq># B + C \<Longrightarrow> B \<subseteq># D + E \<Longrightarrow> A \<subseteq># D + (E + C :: 'a multiset)"
  by (metis (no_types, lifting) add.assoc subset_mset.add_right_mono subset_mset.order_trans)

context kafka_log
begin

definition total :: "'k \<Rightarrow> krecord multiset" where
  "total x = durable x + pending x"

lemma send_one:
  assumes "kafka_of S = K"
    and "bind (of_result (key_serializer key)) (\<lambda>k. on_kafka (k_send (kafka_of S) topic (JObj value) k)) w
      = (r, w')"
  shows "durable (kafka w) \<subseteq># durable (kafka w') \<and>
    total (kafka w') \<subseteq># total (kafka w) + records_of [(topic, value, key)]"
proof (cases "key_serializer key")
  case (Inl e)
  with assms(2) show ?thesis by (simp add: io_defs record_of_def)
next
  case (Inr k)
  obtain q x where x: "k_send (kafka_of S) topic (JObj value) k (kafka w) = (q, x)" by fastforce
  with assms(2) Inr have "kafka w' = x" by (auto simp: io_defs split: prod.splits)
  with send_any [OF x [unfolded assms(1)]] Inr show ?thesis by (simp add: record_of_def total_def)
qed

lemma send_all_bound:
  assumes "kafka_of S = K" "send_all S messages w = (r, w')"
  shows "durable (kafka w) \<subseteq># durable (kafka w') \<and>
    total (kafka w') \<subseteq># total (kafka w) + records_of messages"
  using assms(2)
proof (induction messages arbitrary: w)
  case Nil
  then show ?case by (simp add: io_defs)
next
  case (Cons msg messages)
  obtain topic v key where msg: "msg = (topic, v, key)" by (cases msg)
  let ?m = "bind (of_result (key_serializer key)) (\<lambda>k. on_kafka (k_send (kafka_of S) topic (JObj v) k))"
  obtain q w1 where q: "?m w = (q, w1)" by fastforce
  note one = send_one [OF assms(1) q]
  show ?case
  proof (cases q)
    case (Inl e)
    with q Cons.prems msg have "w' = w1" by (simp add: andthen_def bind_def)
    with one show ?thesis unfolding msg
      by (auto intro: subset_mset.order_trans simp: add.assoc [symmetric])
  next
    case (Inr u)
    with q Cons.prems msg have "send_all S messages w1 = (r, w')" by (simp add: andthen_def bind_def)
    from Cons.IH [OF this] one have
      "durable (kafka w) \<subseteq># durable (kafka w')"
      "total (kafka w') \<subseteq># total (kafka w) + (records_of [(topic, v, key)] + records_of messages)"
      by (auto intro: subset_mset.order_trans msub_chain)
    then show ?thesis unfolding msg by simp
  qed
qed

lemma batch_bound:
  assumes "kafka_of S = K" "produce_batch S messages w = (r, w')"
  shows "durable (kafka w) \<subseteq># durable (kafka w') \<and>
    total (kafka w') \<subseteq># total (kafka w) + records_of messages \<and>
    (r = Inr () \<and> messages \<noteq> [] \<longrightarrow> pending (kafka w') = {#})"
proof (cases "producer_set w \<and> messages \<noteq> []")
  case False
  with assms(2) have "w' = w \<and> (r = Inr () \<longrightarrow> messages = [])"
    by (auto simp: produce_batch_def io_defs split: if_splits)
  then show ?thesis by auto
next
  case True
  obtain q w1 where q: "send_all S messages w = (q, w1)" by fastforce
  note sent = send_all_bound [OF assms(1) q]
  show ?thesis
  proof (cases q)
    case (Inl e)
    with q True assms(2) have "kafka w' = kafka w1 \<and> r \<noteq> Inr ()"
      by (auto simp: produce_batch_def count_kafka_error_def io_defs split: if_splits)
    with sent show ?thesis by simp
  next
    case (Inr u)
    obtain fr x where x: "k_flush (kafka_of S) (kafka w1) = (fr, x)" by fastforce
    note flushed = flush_any [OF x [unfolded assms(1)]]
    have w': "kafka w' = x" "r = Inr () \<longrightarrow> fr = Inr ()"
      using Inr q True assms(2) x
      by (auto simp: produce_batch_def count_kafka_error_def io_defs split: if_splits sum.splits prod.splits)
    have "durable (kafka w) \<subseteq># durable x" using sent flushed subset_mset.order_trans by blast
    moreover have "total x \<subseteq># total (kafka w) + records_of messages"
      using sent flushed unfolding total_def by (blast intro: subset_mset.order_trans)
    moreover have "fr = Inr () \<longrightarrow> pending x = {#}" using flush_ok x assms(1) by metis
    ultimately show ?thesis using w' by simp
  qed
qed

end

section \<open>The batch\<close>

text \<open>C33: \<open>produce_batch\<close> invents nothing and takes nothing back: however it ends, what was durable
  stays durable, and what is durable or still pending afterwards was so before or is the record of a
  message of the batch, each at most as often as it was given; when it returns for a batch that is
  not empty, nothing is pending any more.\<close>

theorem batch_sends_only_its_records:
  assumes "kafka_log (kafka_of S) durable pending" "produce_batch S messages w = (r, w')"
  shows "durable (kafka w) \<subseteq># durable (kafka w') \<and>
    durable (kafka w') + pending (kafka w') \<subseteq>#
      durable (kafka w) + pending (kafka w) + records_of messages \<and>
    (r = Inr () \<and> messages \<noteq> [] \<longrightarrow> pending (kafka w') = {#})"
  using kafka_log.batch_bound [OF assms(1) refl assms(2)]
  unfolding kafka_log.total_def [OF assms(1)] by blast

theorem batch_sends_only_its_records_witness:
  "\<exists>w'. produce_batch good_services [(lit ''t'', sample_dict, None)] ingest_world = (Inr (), w') \<and>
     rk_pending (kafka w') = {#}"
proof -
  have log: "kafka_log (kafka_of good_services) rk_durable rk_pending"
    unfolding good_services_def ingest_services_def by simp (rule rk.kafka_log_axioms)
  obtain r w' where run: "produce_batch good_services [(lit ''t'', sample_dict, None)] ingest_world = (r, w')"
    by fastforce
  then have "r = Inr ()"
    by (auto simp: produce_batch_def key_serializer_def ref_defs io_defs)
  with batch_sends_only_its_records [OF log run] run show ?thesis by simp
qed

text \<open>C34: The docstring's promise, that a batch that could not be delivered raises a KafkaError, does
  not hold: when the broker refuses every record, a batch of any length still returns normally, no
  record of it is durable or pending, and no error is counted, so that the caller cannot tell.\<close>

theorem batch_loses_silently:
  "\<exists>w'. produce_batch (ingest_services 1 (\<lambda>_. None) (\<lambda>_. None) (\<lambda>_. True))
      (replicate (Suc n) (topic, value, None)) ingest_world = (Inr (), w') \<and>
    rk_durable (kafka w') = {#} \<and> rk_pending (kafka w') = {#} \<and>
    (\<forall>c. tally c w' = 0)"
proof -
  let ?S = "ingest_services 1 (\<lambda>_. None) (\<lambda>_. None) (\<lambda>_. True)"
  have sends: "send_all ?S (replicate m (topic, value, None)) w =
      (Inr (), w\<lparr>kafka := (kafka w)\<lparr>rk_buffer := rk_buffer (kafka w) @ replicate m (topic, JObj value, None),
         rk_calls := rk_calls (kafka w) + m\<rparr>\<rparr>)" for m w
    by (induction m arbitrary: w)
       (simp_all add: io_defs key_serializer_def ref_defs replicate_app_Cons_same)
  have "producer_set ingest_world" by (simp add: ingest_world_def)
  then show ?thesis
    using sends [of "Suc n" ingest_world]
    by (simp add: produce_batch_def andthen_def bind_def gets_def timed_def try_finally_def
        try_except_def on_kafka_def observe_def modify_def del: replicate.simps send_all.simps)
       (simp add: ref_defs rk_durable_def rk_pending_def io_defs tick_def)
qed

end
