(* ===== verification/Database.thy ===== *)
theory Database
  imports Reference
begin

text \<open>
  \<open>apps/worker/db.py\<close> over the schema of \<open>infra/db/migrations/001_initial.sql\<close>.

  The tables are a record \<open>database\<close>; \<open>exec_sql\<close> says what each of the four statements of
  \<open>db.py\<close> does to them under that schema (primary keys, NOT NULL, the foreign key, the monthly
  partitions, what text and jsonb accept), with None where the server has to refuse the
  statement. The server itself is not code of this repository: the locale \<open>pg_server\<close> states that a
  statement that succeeds did what \<open>exec_sql\<close> says at the server's time \<open>NOW()\<close>, and that one
  that fails, for whatever reason, did that or nothing. \<open>ref_pg\<close> is a server that satisfies it.

  Columns that no statement of the program sets and that nothing reads (location, tags, resolution
  of DLQ rows and the like) keep their defaults and are left out.
\<close>

section \<open>The schema\<close>

record event_row =
  er_event_id :: pystr
  er_device_id :: pystr
  er_event_type :: pystr
  er_schema_version :: pystr
  er_payload :: json
  er_metadata :: json
  er_raw_timestamp :: datetime
  er_ingested_at :: int
  er_processed_at :: int
  er_status :: string

record device_row =
  dr_device_type :: pystr
  dr_status :: string
  dr_registered_at :: int

record state_row =
  sr_last_event_id :: pystr
  sr_last_event_type :: pystr
  sr_last_seen_at :: datetime
  sr_last_payload :: json
  sr_event_count :: int

record dlq_row =
  qr_event_id :: pystr
  qr_device_id :: "pystr option"
  qr_original_topic :: pystr
  qr_raw_payload :: json
  qr_error_message :: pystr
  qr_retry_count :: int
  qr_first_seen :: int
  qr_status :: string

record database =
  d_events :: "event_row list"
  d_devices :: "pystr \<Rightarrow> device_row option"
  d_device_state :: "pystr \<Rightarrow> state_row option"
  d_dlq_events :: "dlq_row list"

definition migrated :: database where
  "migrated = \<lparr>d_events = [], d_devices = (\<lambda>_. None), d_device_state = (\<lambda>_. None), d_dlq_events = []\<rparr>"

text \<open>The partition of an \<open>ingested_at\<close>: one for each month of 2026, and none for other times.\<close>

definition partition_of :: "int \<Rightarrow> int option" where
  "partition_of t = (let dt = of_us t in if year dt = 2026 then Some (month dt) else None)"

text \<open>TEXT holds no NUL and only what UTF-8 encodes; JSONB has neither NaN nor infinities, and its
  strings are texts.\<close>

definition text_ok :: "pystr \<Rightarrow> bool" where
  "text_ok s \<longleftrightarrow> encodable s \<and> 0 \<notin> set s"

fun jsonb_ok :: "json \<Rightarrow> bool" where
  "jsonb_ok (JStr s) = text_ok s"
| "jsonb_ok (JFloat (Fin m e)) = True"
| "jsonb_ok (JFloat NegZero) = True"
| "jsonb_ok (JFloat _) = False"
| "jsonb_ok (JArr xs) = (\<forall>x \<in> set xs. jsonb_ok x)"
| "jsonb_ok (JObj d) = (\<forall>kv \<in> set d. text_ok (fst kv) \<and> jsonb_ok (snd kv))"
| "jsonb_ok _ = True"

definition text_arg :: "json \<Rightarrow> pystr option" where
  "text_arg v = (case v of JStr s \<Rightarrow> if text_ok s then Some s else None | _ \<Rightarrow> None)"

definition inserted :: pystr where "inserted = lit ''INSERT 0 1''"
definition not_inserted :: pystr where "not_inserted = lit ''INSERT 0 0''"

text \<open>The four statements, at the server's time \<open>now\<close>.\<close>

definition exec_insert_event :: "int \<Rightarrow> pystr \<Rightarrow> pystr \<Rightarrow> pystr \<Rightarrow> pystr \<Rightarrow> json \<Rightarrow> json \<Rightarrow> datetime \<Rightarrow> database \<Rightarrow>
    (pystr \<times> database) option" where [simp]:
  "exec_insert_event now event_id' device_id' event_type' schema_version' payload' metadata' raw_timestamp' db =
     (if \<not> list_all text_ok [event_id', device_id', event_type', schema_version']
         \<or> \<not> jsonb_ok payload' \<or> \<not> jsonb_ok metadata' \<or> partition_of now = None then None
      else if \<exists>r \<in> set (d_events db). er_event_id r = event_id' \<and> er_ingested_at r = now
           then Some (not_inserted, db)
      else Some (inserted, db\<lparr>d_events := d_events db @
        [\<lparr>er_event_id = event_id', er_device_id = device_id', er_event_type = event_type',
          er_schema_version = schema_version', er_payload = payload', er_metadata = metadata',
          er_raw_timestamp = raw_timestamp', er_ingested_at = now, er_processed_at = now,
          er_status = ''processed''\<rparr>]\<rparr>))"

definition exec_insert_device :: "int \<Rightarrow> pystr \<Rightarrow> database \<Rightarrow> (pystr \<times> database) option" where [simp]:
  "exec_insert_device now device_id' db =
     (if \<not> text_ok device_id' then None
      else if d_devices db device_id' \<noteq> None then Some (not_inserted, db)
      else Some (inserted, db\<lparr>d_devices := (d_devices db)(device_id' \<mapsto>
        \<lparr>dr_device_type = lit ''sensor'', dr_status = ''active'', dr_registered_at = now\<rparr>)\<rparr>))"

definition exec_upsert_state :: "pystr \<Rightarrow> pystr \<Rightarrow> pystr \<Rightarrow> datetime \<Rightarrow> json \<Rightarrow> database \<Rightarrow>
    (pystr \<times> database) option" where [simp]:
  "exec_upsert_state device_id' event_id' event_type' last_seen_at' last_payload' db =
     (if \<not> list_all text_ok [device_id', event_id', event_type'] \<or> \<not> jsonb_ok last_payload'
         \<or> d_devices db device_id' = None then None
      else Some (inserted, db\<lparr>d_device_state := (d_device_state db)(device_id' \<mapsto>
        \<lparr>sr_last_event_id = event_id', sr_last_event_type = event_type',
          sr_last_seen_at = last_seen_at', sr_last_payload = last_payload',
          sr_event_count = (case d_device_state db device_id' of
             None \<Rightarrow> 1 | Some r \<Rightarrow> sr_event_count r + 1)\<rparr>)\<rparr>))"

definition exec_insert_dlq :: "int \<Rightarrow> json \<Rightarrow> json \<Rightarrow> pystr \<Rightarrow> json \<Rightarrow> pystr \<Rightarrow> int \<Rightarrow> database \<Rightarrow>
    (pystr \<times> database) option" where [simp]:
  "exec_insert_dlq now event_id' device_id' original_topic' raw_payload' error_message' retry_count' db =
     (case text_arg event_id' of
        None \<Rightarrow> None
      | Some i \<Rightarrow>
          if \<not> (device_id' = JNull \<or> text_arg device_id' \<noteq> None)
             \<or> \<not> list_all text_ok [original_topic', error_message'] \<or> \<not> jsonb_ok raw_payload'
             \<or> retry_count' < - (2 ^ 31) \<or> 2 ^ 31 \<le> retry_count' then None
          else Some (inserted, db\<lparr>d_dlq_events := d_dlq_events db @
            [\<lparr>qr_event_id = i, qr_device_id = text_arg device_id', qr_original_topic = original_topic',
              qr_raw_payload = raw_payload', qr_error_message = error_message',
              qr_retry_count = retry_count', qr_first_seen = now, qr_status = ''pending''\<rparr>]\<rparr>))"

fun exec_sql :: "int \<Rightarrow> sql \<Rightarrow> database \<Rightarrow> (pystr \<times> database) option" where
  "exec_sql now (InsertEvent i d t v p m ts) db = exec_insert_event now i d t v p m ts db"
| "exec_sql now (InsertDevice d) db = exec_insert_device now d db"
| "exec_sql now (UpsertDeviceState d i t ts p) db = exec_upsert_state d i t ts p db"
| "exec_sql now (InsertDlqEvent i d tp raw em n) db = exec_insert_dlq now i d tp raw em n db"

section \<open>The server\<close>

locale pg_server =
  fixes P :: "'p pg_api"
    and tables :: "'p \<Rightarrow> database"
    and now_of :: "'p \<Rightarrow> int"
  assumes execute_ok: "pg_execute P q x = (Inr tag, x') \<Longrightarrow>
      now_of x \<le> now_of x' \<and> exec_sql (now_of x') q (tables x) = Some (tag, tables x')"
    and execute_fails: "pg_execute P q x = (Inl e, x') \<Longrightarrow>
      now_of x \<le> now_of x' \<and>
      (tables x' = tables x \<or> (\<exists>tag. exec_sql (now_of x') q (tables x) = Some (tag, tables x')))"
    and pools_keep: "pg_create_pool P cfg x = (ru, x') \<Longrightarrow> tables x' = tables x"
      "pg_close_pool P x = (ru, x') \<Longrightarrow> tables x' = tables x"

text \<open>The reference server: each statement takes a microsecond; the \<open>n\<close>-th statement fails, before it
  does anything, where \<open>flt n\<close> gives an exception.\<close>

record ref_pg =
  rp_tables :: database
  rp_now :: int
  rp_calls :: nat

definition PostgresError :: exn where
  "PostgresError = Exn [''DataError'', ''PostgresError'', ''Exception'', ''BaseException''] (lit ''refused'')"

definition rp_execute :: "(nat \<Rightarrow> exn option) \<Rightarrow> sql \<Rightarrow> (ref_pg, pystr) io" where
  "rp_execute flt q x =
     (let y = x\<lparr>rp_now := rp_now x + 1, rp_calls := rp_calls x + 1\<rparr>
      in case flt (rp_calls x) of
           Some e \<Rightarrow> (Inl e, y)
         | None \<Rightarrow> (case exec_sql (rp_now y) q (rp_tables y) of
                      None \<Rightarrow> (Inl PostgresError, y)
                    | Some (tag, d) \<Rightarrow> (Inr tag, y\<lparr>rp_tables := d\<rparr>)))"

definition ref_pg :: "(nat \<Rightarrow> exn option) \<Rightarrow> ref_pg pg_api" where
  "ref_pg flt = \<lparr>pg_execute = rp_execute flt, pg_create_pool = (\<lambda>cfg. ret ()), pg_close_pool = ret ()\<rparr>"

text \<open>A fresh database at noon of 19 March 2026.\<close>

definition fresh_pg :: ref_pg where
  "fresh_pg = \<lparr>rp_tables = migrated, rp_now = instant (DateTime 2026 3 19 12 0 0 0 (Some 0)),
     rp_calls = 0\<rparr>"

lemmas [ref_defs] = rp_execute_def ref_pg_def fresh_pg_def migrated_def

interpretation rp: pg_server "ref_pg flt" rp_tables rp_now for flt
  by unfold_locales
     (auto simp: ref_pg_def rp_execute_def Let_def io_defs split: option.splits prod.splits)

section \<open>db.py\<close>

definition init_pool :: "('r, 'p, 'k, 'h) services \<Rightarrow> worker_settings \<Rightarrow>
    (('r, 'p, 'k, 'h) world, unit) io" where
  "init_pool S cfg =
     andthen (on_pg (pg_create_pool (pg_of S) cfg)) (modify (\<lambda>w. w\<lparr>pool_set := True\<rparr>))"

definition close_pool :: "('r, 'p, 'k, 'h) services \<Rightarrow> (('r, 'p, 'k, 'h) world, unit) io" where
  "close_pool S = bind (gets pool_set) (\<lambda>p. if p then on_pg (pg_close_pool (pg_of S)) else ret ())"

definition get_pool :: "(('r, 'p, 'k, 'h) world, unit) io" where
  "get_pool = bind (gets pool_set) (\<lambda>p.
     if \<not> p then raise (RuntimeError (lit ''DB pool not initialized'')) else ret ())"

text \<open>\<open>int(result.split()[-1])\<close>: the command tag of an INSERT is \<open>INSERT 0 N\<close>.\<close>

definition py_split :: "pystr \<Rightarrow> pystr list" where
  "py_split s = filter (\<lambda>p. p \<noteq> [])
     (split_on 32 (map (\<lambda>c. if 9 \<le> c \<and> c \<le> 13 \<or> 28 \<le> c \<and> c \<le> 31 then 32 else c) s))"

definition IndexError :: exn where
  "IndexError = Exn [''IndexError'', ''LookupError'', ''Exception'', ''BaseException'']
     (lit ''list index out of range'')"

definition rows_affected :: "pystr \<Rightarrow> exn + int" where
  "rows_affected result' =
     (if py_split result' = [] then Inl IndexError
      else case parse_int (last (py_split result')) of
             None \<Rightarrow> Inl (ValueError (lit ''invalid literal for int()''))
           | Some n \<Rightarrow> Inr n)"

definition insert_event :: "('r, 'p, 'k, 'h) services \<Rightarrow> pystr \<Rightarrow> pystr \<Rightarrow> pystr \<Rightarrow> pystr \<Rightarrow>
    dict \<Rightarrow> dict \<Rightarrow> datetime \<Rightarrow> (('r, 'p, 'k, 'h) world, bool) io" where
  "insert_event S event_id' device_id' event_type' schema_version' payload' metadata' raw_timestamp' =
     andthen get_pool
       (bind (on_pg (pg_execute (pg_of S)
                (InsertEvent event_id' device_id' event_type' schema_version' (JObj payload')
                   (JObj metadata') raw_timestamp')))
         (\<lambda>result'. bind (of_result (rows_affected result')) (\<lambda>n. ret (n > 0))))"

definition upsert_device_state :: "('r, 'p, 'k, 'h) services \<Rightarrow> pystr \<Rightarrow> pystr \<Rightarrow> pystr \<Rightarrow> datetime \<Rightarrow>
    dict \<Rightarrow> (('r, 'p, 'k, 'h) world, unit) io" where
  "upsert_device_state S device_id' event_id' event_type' last_seen_at' last_payload' =
     andthen get_pool
       (andthen (on_pg (pg_execute (pg_of S) (InsertDevice device_id')))
         (andthen (on_pg (pg_execute (pg_of S)
             (UpsertDeviceState device_id' event_id' event_type' last_seen_at' (JObj last_payload'))))
           (ret ())))"

definition record_dlq_event :: "('r, 'p, 'k, 'h) services \<Rightarrow> json \<Rightarrow> json \<Rightarrow> pystr \<Rightarrow> json \<Rightarrow> pystr \<Rightarrow>
    int \<Rightarrow> (('r, 'p, 'k, 'h) world, unit) io" where
  "record_dlq_event S event_id' device_id' original_topic' raw_payload' error_message' retry_count' =
     andthen get_pool
       (andthen (on_pg (pg_execute (pg_of S)
           (InsertDlqEvent event_id' device_id' original_topic' raw_payload' error_message' retry_count')))
         (ret ()))"

section \<open>What a statement does to the tables\<close>

text \<open>The constraints of the schema.\<close>

definition wf_database :: "database \<Rightarrow> bool" where
  "wf_database db \<longleftrightarrow>
     distinct (map (\<lambda>r. (er_event_id r, er_ingested_at r)) (d_events db)) \<and>
     (\<forall>r \<in> set (d_events db). partition_of (er_ingested_at r) \<noteq> None) \<and>
     (\<forall>d r. d_device_state db d = Some r \<longrightarrow> d_devices db d \<noteq> None \<and> 1 \<le> sr_event_count r)"

text \<open>Rows of events and DLQ events are only appended, devices only added, and no count goes down.\<close>

definition grows :: "database \<Rightarrow> database \<Rightarrow> bool" where
  "grows db db' \<longleftrightarrow>
     (\<exists>es. d_events db' = d_events db @ es) \<and> (\<exists>qs. d_dlq_events db' = d_dlq_events db @ qs) \<and>
     d_devices db \<subseteq>\<^sub>m d_devices db' \<and>
     (\<forall>d r. d_device_state db d = Some r \<longrightarrow>
        (\<exists>r'. d_device_state db' d = Some r' \<and> sr_event_count r \<le> sr_event_count r'))"

definition evolves :: "database \<Rightarrow> database \<Rightarrow> bool" where
  "evolves db db' \<longleftrightarrow> grows db db' \<and> (wf_database db \<longrightarrow> wf_database db')"

lemma grows_refl: "grows db db"
  by (simp add: grows_def)

lemma grows_trans: "grows a b \<Longrightarrow> grows b c \<Longrightarrow> grows a c"
  unfolding grows_def by (elim conjE exE, intro conjI) (auto intro: map_le_trans, meson order.trans)

lemma preorder_evolves: "preorder_rel (\<lambda>x x'. evolves (tables x) (tables x'))"
  using grows_refl grows_trans unfolding preorder_rel_def evolves_def by blast

lemma exec_sql_grows: "exec_sql now q db = Some (tag, db') \<Longrightarrow> grows db db'"
  by (cases q)
     (auto simp: grows_def map_le_def split: if_splits option.splits)

lemma exec_sql_wf: "exec_sql now q db = Some (tag, db') \<Longrightarrow> wf_database db \<Longrightarrow> wf_database db'"
  by (cases q)
     (fastforce simp: wf_database_def split: if_splits option.splits)+

lemma exec_sql_evolves: "exec_sql now q db = Some (tag, db') \<Longrightarrow> evolves db db'"
  by (simp add: evolves_def exec_sql_grows exec_sql_wf)

context pg_server
begin

lemma execute_evolves [leads_intros]:
  "leads (\<lambda>x x'. evolves (tables x) (tables x')) (pg_execute P q)"
proof (rule leadsI)
  fix x r x' assume run: "pg_execute P q x = (r, x')"
  show "evolves (tables x) (tables x')"
  proof (cases r)
    case (Inl e)
    with run execute_fails consider "tables x' = tables x"
      | tag where "exec_sql (now_of x') q (tables x) = Some (tag, tables x')" by blast
    then show ?thesis by cases (auto simp: evolves_def grows_refl dest: exec_sql_grows exec_sql_wf)
  next
    case (Inr tag)
    with run execute_ok show ?thesis using exec_sql_evolves by blast
  qed
qed

lemma pools_evolve [leads_intros]:
  "leads (\<lambda>x x'. evolves (tables x) (tables x')) (pg_create_pool P cfg)"
  "leads (\<lambda>x x'. evolves (tables x) (tables x')) (pg_close_pool P)"
  using pools_keep by (auto simp: leads_def evolves_def grows_refl)

end

text \<open>Every operation of \<open>db.py\<close>, also when it fails half way, keeps the constraints of the schema and
  loses no row.\<close>

abbreviation pg_evolves :: "('p \<Rightarrow> database) \<Rightarrow> ('r, 'p, 'k, 'h) world \<Rightarrow> ('r, 'p, 'k, 'h) world \<Rightarrow> bool" where
  "pg_evolves tables \<equiv> pg_rel (\<lambda>x x'. evolves (tables x) (tables x'))"

lemma preorder_pg_evolves [leads_intros]: "preorder_rel (pg_evolves tables)"
  by (intro leads_intros preorder_evolves)

lemma leads_get_pool [leads_intros]: "preorder_rel R \<Longrightarrow> leads R get_pool"
  unfolding get_pool_def by (intro leads_intros)

lemma db_ops_evolve [leads_intros]:
  assumes "pg_server (pg_of S) tables now"
  shows "leads (pg_evolves tables) (insert_event S i d t v p m ts)"
    "leads (pg_evolves tables) (upsert_device_state S d i t ts p)"
    "leads (pg_evolves tables) (record_dlq_event S ij dj tp raw em n)"
  unfolding insert_event_def upsert_device_state_def record_dlq_event_def
  by (intro leads_intros preorder_evolves pg_server.execute_evolves [OF assms])+

section \<open>What the operations of db.py do\<close>

lemma tags [simp]: "rows_affected inserted = Inr 1" "rows_affected not_inserted = Inr 0"
  by (simp_all add: rows_affected_def inserted_def not_inserted_def py_split_def lit_def
      parse_int_def)

lemma insert_event_run:
  assumes "insert_event S i d t v p m ts w = (r, w')" "pool_set w"
  obtains rr x' where "pg_execute (pg_of S) (InsertEvent i d t v (JObj p) (JObj m) ts) (postgres w) = (rr, x')"
    "w' = w\<lparr>postgres := x'\<rparr>"
    "r = (case rr of Inl e \<Rightarrow> Inl e | Inr tag \<Rightarrow>
           (case rows_affected tag of Inl e \<Rightarrow> Inl e | Inr n \<Rightarrow> Inr (n > 0)))"
  using assms
  by (auto simp: insert_event_def get_pool_def io_defs split: prod.splits sum.splits)

text \<open>The row that \<open>insert_event\<close> writes at the time \<open>now\<close>.\<close>

definition event_row_at :: "int \<Rightarrow> pystr \<Rightarrow> pystr \<Rightarrow> pystr \<Rightarrow> pystr \<Rightarrow> dict \<Rightarrow> dict \<Rightarrow> datetime \<Rightarrow> event_row" where
  "event_row_at now i d t v p m ts = \<lparr>er_event_id = i, er_device_id = d, er_event_type = t,
     er_schema_version = v, er_payload = JObj p, er_metadata = JObj m, er_raw_timestamp = ts,
     er_ingested_at = now, er_processed_at = now, er_status = ''processed''\<rparr>"

definition rows_with_id :: "pystr \<Rightarrow> database \<Rightarrow> event_row list" where
  "rows_with_id i db = filter (\<lambda>r. er_event_id r = i) (d_events db)"

lemma insert_event_effect:
  assumes "pg_server (pg_of S) tables now_of" "pool_set w"
    and "insert_event S i d t v p m ts w = (Inr b, w')"
  shows "(let db = tables (postgres w); now = now_of (postgres w') in
     (b \<longleftrightarrow> (\<forall>r \<in> set (rows_with_id i db). er_ingested_at r \<noteq> now)) \<and>
     tables (postgres w') =
       (if b then db\<lparr>d_events := d_events db @ [event_row_at now i d t v p m ts]\<rparr> else db))"
proof -
  from assms(2,3) obtain rr x' where
    x': "pg_execute (pg_of S) (InsertEvent i d t v (JObj p) (JObj m) ts) (postgres w) = (rr, x')"
    "postgres w' = x'"
    "Inr b = (case rr of Inl e \<Rightarrow> Inl e | Inr tag \<Rightarrow>
           (case rows_affected tag of Inl e \<Rightarrow> Inl e | Inr n \<Rightarrow> Inr (n > 0)))"
    by (elim insert_event_run) auto
  then obtain tag n where tag: "rr = Inr tag" "rows_affected tag = Inr n" "b = (n > 0)"
    by (auto split: sum.splits)
  with pg_server.execute_ok [OF assms(1)] x'(1) have
    "exec_sql (now_of x') (InsertEvent i d t v (JObj p) (JObj m) ts) (tables (postgres w))
      = Some (tag, tables x')" by blast
  with tag x'(2) show ?thesis
    by (auto simp: Let_def rows_with_id_def event_row_at_def split: if_splits)
qed

text \<open>\<open>insert_event\<close> tells the truth: when it returns, the result says whether a row was written,
  which is the case unless a row with the id was ingested in the same microsecond; the row has the
  fields of the event and the server's time, and nothing else in the database changed.\<close>

lemma insert_event_result:
  assumes "pg_server (pg_of S) tables now_of" "pool_set w"
    and "insert_event S i d t v p m ts w = (Inr b, w')"
  shows "(let db = tables (postgres w); now = now_of (postgres w') in
     (b \<longleftrightarrow> (\<forall>r \<in> set (rows_with_id i db). er_ingested_at r \<noteq> now)) \<and>
     tables (postgres w') =
       (if b then db\<lparr>d_events := d_events db @ [event_row_at now i d t v p m ts]\<rparr> else db))"
  by (rule insert_event_effect [OF assms])

text \<open>C29: The database does not deduplicate. The key of the conflict clause contains \<open>ingested_at\<close>,
  which is the time of the insertion, so an event id that is in the table with earlier times is
  inserted again: \<open>insert_event\<close> answers True and there is one more row with the id.\<close>

theorem database_keeps_duplicates:
  assumes "pg_server (pg_of S) tables now_of" "pool_set w"
    and "insert_event S i d t v p m ts w = (Inr b, w')"
    and "\<forall>r \<in> set (rows_with_id i (tables (postgres w))). er_ingested_at r < now_of (postgres w')"
  shows "b \<and> length (rows_with_id i (tables (postgres w'))) =
    length (rows_with_id i (tables (postgres w))) + 1"
  using insert_event_effect [OF assms(1-3)] assms(4)
  by (auto simp: Let_def rows_with_id_def event_row_at_def)

lemma upsert_run:
  assumes "upsert_device_state S d i t ts p w = (Inr u, w')" "pool_set w"
  obtains tag1 x tag2 where "pg_execute (pg_of S) (InsertDevice d) (postgres w) = (Inr tag1, x)"
    "pg_execute (pg_of S) (UpsertDeviceState d i t ts (JObj p)) x = (Inr tag2, postgres w')"
    "w' = w\<lparr>postgres := postgres w'\<rparr>"
  using assms
  by (auto simp: upsert_device_state_def get_pool_def io_defs split: prod.splits sum.splits)

lemma upsert_exec:
  assumes "exec_sql now1 (InsertDevice d) db = Some (tag1, db1)"
    and "exec_sql now2 (UpsertDeviceState d i t ts p) db1 = Some (tag2, db2)"
  shows "d_devices db2 d \<noteq> None \<and>
     d_device_state db2 = (d_device_state db)(d \<mapsto> \<lparr>sr_last_event_id = i, sr_last_event_type = t,
       sr_last_seen_at = ts, sr_last_payload = p,
       sr_event_count = (case d_device_state db d of None \<Rightarrow> 1 | Some r \<Rightarrow> sr_event_count r + 1)\<rparr>) \<and>
     d_events db2 = d_events db \<and> d_dlq_events db2 = d_dlq_events db \<and>
     (\<forall>j. j \<noteq> d \<or> d_devices db d \<noteq> None \<longrightarrow> d_devices db2 j = d_devices db j)"
  using assms by (auto split: if_splits)

text \<open>C35: \<open>upsert_device_state\<close> overwrites: when it returns, the device is registered, its state row
  holds exactly the arguments of the call, whatever was last seen before (an older event replaces
  a newer one), and its event count went up by one; no other row of the database changed but the
  registration of the device.\<close>

theorem upsert_overwrites:
  assumes "pg_server (pg_of S) tables now_of" "pool_set w"
    and "upsert_device_state S d i t ts p w = (Inr u, w')"
  shows "(let db = tables (postgres w); db' = tables (postgres w') in
     d_devices db' d \<noteq> None \<and>
     d_device_state db' = (d_device_state db)(d \<mapsto> \<lparr>sr_last_event_id = i, sr_last_event_type = t,
       sr_last_seen_at = ts, sr_last_payload = JObj p,
       sr_event_count = (case d_device_state db d of None \<Rightarrow> 1 | Some r \<Rightarrow> sr_event_count r + 1)\<rparr>) \<and>
     d_events db' = d_events db \<and> d_dlq_events db' = d_dlq_events db \<and>
     (\<forall>j. j \<noteq> d \<or> d_devices db d \<noteq> None \<longrightarrow> d_devices db' j = d_devices db j))"
proof -
  from assms(2,3) obtain tag1 x tag2 where
    "pg_execute (pg_of S) (InsertDevice d) (postgres w) = (Inr tag1, x)"
    "pg_execute (pg_of S) (UpsertDeviceState d i t ts (JObj p)) x = (Inr tag2, postgres w')"
    by (elim upsert_run)
  with pg_server.execute_ok [OF assms(1)] have
    "exec_sql (now_of x) (InsertDevice d) (tables (postgres w)) = Some (tag1, tables x)"
    "exec_sql (now_of (postgres w')) (UpsertDeviceState d i t ts (JObj p)) (tables x)
      = Some (tag2, tables (postgres w'))" by blast+
  from upsert_exec [OF this] show ?thesis by (simp add: Let_def)
qed

text \<open>The second statement is never refused for the foreign key, as the first registers the device.\<close>

lemma upsert_no_foreign_key_error:
  assumes "exec_sql now1 (InsertDevice d) db = Some (tag, db1)"
    and "list_all text_ok [i, t]" "jsonb_ok p"
  shows "\<exists>db2. exec_sql now2 (UpsertDeviceState d i t ts p) db1 = Some (inserted, db2)"
  using assms by (auto split: if_splits)

section \<open>The reference services of the worker\<close>

definition worker_services :: "nat \<Rightarrow> (int \<Rightarrow> exn option) \<Rightarrow> (nat \<Rightarrow> exn option) \<Rightarrow> (krecord \<Rightarrow> bool) \<Rightarrow>
    (nat \<Rightarrow> exn option) \<Rightarrow> (ref_redis, ref_pg, ref_kafka, ref_host) services" where
  "worker_services lat rflt kflt bad pflt = \<lparr>redis_of = ref_redis lat rflt, pg_of = ref_pg pflt,
     kafka_of = ref_kafka kflt bad, host_of = ref_host, py_of = ref_py\<rparr>"

definition good_worker :: "(ref_redis, ref_pg, ref_kafka, ref_host) services" where
  "good_worker = worker_services 1 (\<lambda>_. None) (\<lambda>_. None) (\<lambda>_. False) (\<lambda>_. None)"

definition worker_world :: "(ref_redis, ref_pg, ref_kafka, ref_host) world" where
  "worker_world = \<lparr>redis = empty_redis, postgres = fresh_pg, kafka = empty_kafka, host = idle_host,
     met = no_metrics, producer_set = True, pool_set = True\<rparr>"

lemmas [ref_defs] = good_worker_def worker_services_def worker_world_def

lemma ref_pg_mild:
  assumes "\<And>n e. flt n = Some e \<Longrightarrow> ordinary e"
  shows "mild (pg_execute (ref_pg flt) q)" "mild (pg_create_pool (ref_pg flt) cfg)"
    "mild (pg_close_pool (ref_pg flt))"
  using assms
  by (auto simp: ref_pg_def rp_execute_def raises_def io_defs Let_def PostgresError_def
      split: option.splits)

lemma worker_services_uncancelled:
  assumes "\<And>t e. rflt t = Some e \<Longrightarrow> ordinary e" "\<And>n e. kflt n = Some e \<Longrightarrow> ordinary e"
    "\<And>n e. pflt n = Some e \<Longrightarrow> ordinary e"
  shows "uncancelled (worker_services lat rflt kflt bad pflt)"
  by (unfold_locales; unfold worker_services_def services.simps)
     (rule ref_redis_mild ref_kafka_mild ref_host_mild ref_pg_mild raises_ret assms | assumption)+

interpretation gw: uncancelled good_worker
  unfolding good_worker_def by (rule worker_services_uncancelled) simp_all

lemma good_worker_pg: "pg_server (pg_of good_worker) rp_tables rp_now"
  using rp.pg_server_axioms by (simp add: good_worker_def worker_services_def)

lemma ascii_text: "\<forall>c \<in> set s. 0 < c \<and> c < 128 \<Longrightarrow> text_ok s"
  by (auto simp: text_ok_def intro: encodable_ascii)

lemma fresh_partition: "partition_of (rp_now fresh_pg + 1) = Some 3" "partition_of (rp_now fresh_pg + 2) = Some 3"
  by code_simp+

text \<open>The sample event, inserted twice.\<close>

definition insert_sample :: "((ref_redis, ref_pg, ref_kafka, ref_host) world, bool) io" where
  "insert_sample = insert_event good_worker (event_id sample_event) (device_id sample_event)
     (event_type sample_event) (schema_version sample_event) (payload sample_event)
     (metadata sample_event) (timestamp sample_event)"

lemma sample_texts: "list_all text_ok [event_id sample_event, device_id sample_event,
    event_type sample_event, schema_version sample_event]"
  "jsonb_ok (JObj (payload sample_event))" "jsonb_ok (JObj (metadata sample_event))"
  by (simp_all add: sample_event_def) (simp_all add: lit_def text_ok_def encodable_def surrogate_def)

lemma insert_sample_eval:
  assumes "pool_set w" "partition_of (rp_now (postgres w) + 1) \<noteq> None"
    and "\<forall>r \<in> set (d_events (rp_tables (postgres w))). er_ingested_at r \<le> rp_now (postgres w)"
  shows "\<exists>w'. insert_sample w = (Inr True, w') \<and> rp_now (postgres w') = rp_now (postgres w) + 1 \<and>
    pool_set w'"
proof -
  have "\<not> (\<exists>r \<in> set (d_events (rp_tables (postgres w))). er_event_id r = event_id sample_event \<and>
      er_ingested_at r = rp_now (postgres w) + 1)" using assms(3) by fastforce
  then show ?thesis
    using assms(1,2) sample_texts
    by (simp add: insert_sample_def insert_event_def get_pool_def io_defs good_worker_def
        worker_services_def ref_pg_def rp_execute_def Let_def del: jsonb_ok.simps)
qed

lemma worker_world_pool: "pool_set worker_world" "postgres worker_world = fresh_pg"
  by (simp_all add: worker_world_def)

lemma insert_sample_first:
  "\<exists>w1. insert_sample worker_world = (Inr True, w1) \<and> rp_now (postgres w1) = rp_now fresh_pg + 1 \<and> pool_set w1"
  using insert_sample_eval [of worker_world] worker_world_pool fresh_partition(1)
  by (auto simp: fresh_pg_def migrated_def)

lemma insert_event_result_example:
  "\<exists>w1. insert_sample worker_world = (Inr True, w1) \<and>
     length (d_events (rp_tables (postgres w1))) = 1"
proof -
  obtain w1 where run: "insert_sample worker_world = (Inr True, w1)" using insert_sample_first by blast
  from insert_event_result [OF good_worker_pg worker_world_pool(1) run [unfolded insert_sample_def]] run
  show ?thesis by (auto simp: Let_def worker_world_def fresh_pg_def migrated_def)
qed

theorem database_keeps_duplicates_witness:
  "\<exists>w1 w2. insert_sample worker_world = (Inr True, w1) \<and> insert_sample w1 = (Inr True, w2) \<and>
     length (rows_with_id (event_id sample_event) (rp_tables (postgres w2))) = 2"
proof -
  obtain w1 where run: "insert_sample worker_world = (Inr True, w1)" "rp_now (postgres w1) = rp_now fresh_pg + 1"
    "pool_set w1" using insert_sample_first by blast
  from insert_event_effect [OF good_worker_pg worker_world_pool(1) run(1) [unfolded insert_sample_def]]
  have rows: "d_events (rp_tables (postgres w1)) = [event_row_at (rp_now (postgres w1)) (event_id sample_event)
      (device_id sample_event) (event_type sample_event) (schema_version sample_event)
      (payload sample_event) (metadata sample_event) (timestamp sample_event)]"
    by (auto simp: Let_def worker_world_def fresh_pg_def migrated_def)
  then have "length (rows_with_id (event_id sample_event) (rp_tables (postgres w1))) = 1"
    by (simp add: rows_with_id_def event_row_at_def)
  moreover obtain w2 where run2: "insert_sample w1 = (Inr True, w2)"
    "rp_now (postgres w2) = rp_now (postgres w1) + 1"
    using insert_sample_eval [OF run(3)] run(2) fresh_partition(2) rows
    by (auto simp: event_row_at_def add.assoc)
  ultimately show ?thesis
    using database_keeps_duplicates [OF good_worker_pg run(3) run2(1) [unfolded insert_sample_def]] rows run(1)
    by (auto simp: rows_with_id_def event_row_at_def)
qed

text \<open>The state of a device after an event of 2026 and then one of 2020.\<close>

definition two_upserts :: "((ref_redis, ref_pg, ref_kafka, ref_host) world, unit) io" where
  "two_upserts =
     andthen (upsert_device_state good_worker (lit ''d'') (lit ''new'') (lit ''t'')
         (DateTime 2026 3 19 14 0 0 0 (Some 0)) [])
       (upsert_device_state good_worker (lit ''d'') (lit ''old'') (lit ''t'')
         (DateTime 2020 1 1 0 0 0 0 (Some 0)) [])"

lemma text_ok_abc: "text_ok (lit ''d'')" "text_ok (lit ''new'')" "text_ok (lit ''t'')" "text_ok (lit ''old'')"
  by (simp_all add: lit_def text_ok_def encodable_def surrogate_def)

lemma upsert_abc:
  assumes "pool_set w" "text_ok i"
  shows "\<exists>w'. upsert_device_state good_worker (lit ''d'') i (lit ''t'') ts [] w = (Inr (), w') \<and> pool_set w'"
  using assms text_ok_abc
  by (simp add: upsert_device_state_def get_pool_def io_defs good_worker_def worker_services_def
      ref_pg_def rp_execute_def Let_def)

theorem upsert_overwrites_witness:
  "\<exists>w. two_upserts worker_world = (Inr (), w) \<and>
     (\<exists>r. d_device_state (rp_tables (postgres w)) (lit ''d'') = Some r \<and>
        sr_last_seen_at r = DateTime 2020 1 1 0 0 0 0 (Some 0) \<and> sr_last_event_id r = lit ''old'')"
proof -
  let ?u = "\<lambda>i. upsert_device_state good_worker (lit ''d'') i (lit ''t'')"
  obtain w1 where one: "?u (lit ''new'') (DateTime 2026 3 19 14 0 0 0 (Some 0)) [] worker_world = (Inr (), w1)"
    "pool_set w1" using upsert_abc text_ok_abc worker_world_pool by metis
  obtain w2 where two: "?u (lit ''old'') (DateTime 2020 1 1 0 0 0 0 (Some 0)) [] w1 = (Inr (), w2)"
    using upsert_abc text_ok_abc one(2) by metis
  from upsert_overwrites [OF good_worker_pg one(2) two] one(1) two show ?thesis
    by (auto simp: two_upserts_def andthen_def bind_def Let_def)
qed

end
