(* ===== verification/Retry.thy ===== *)
theory Retry
  imports Database Kafka_Producer
begin

text \<open>
  \<open>apps/worker/retry.py\<close>: exponential backoff with jitter, the retry loop, and the publisher of
  dead letters.

  The loop over \<open>range(1, MAX + 1)\<close> is the recursion \<open>retry_loop\<close> over the list of attempt numbers;
  the action it retries runs on a context (the variables of the caller) and the world. Delays are
  rationals. The locale \<open>host_timer\<close> states what is relied on of \<open>random.uniform\<close> and
  \<open>asyncio.sleep\<close>; under it the lemmas count the attempts and bound the time slept.
\<close>

section \<open>The delays\<close>

text \<open>\<open>min(base * multiplier ** (attempt - 1), max)\<close>\<close>

definition raw_delay :: "worker_settings \<Rightarrow> int \<Rightarrow> rat" where
  "raw_delay cfg attempt =
     min (W_RETRY_BASE_DELAY_SECONDS cfg * W_RETRY_MULTIPLIER cfg ^ nat (attempt - 1))
         (W_RETRY_MAX_DELAY_SECONDS cfg)"

definition compute_delay :: "('r, 'p, 'k, 'h) services \<Rightarrow> worker_settings \<Rightarrow> int \<Rightarrow>
    (('r, 'p, 'k, 'h) world, rat) io" where
  "compute_delay S cfg attempt =
     (let delay = raw_delay cfg attempt;
          jitter_range = delay * W_RETRY_JITTER_FACTOR cfg
      in bind (ask_host (h_uniform (host_of S) (- jitter_range) jitter_range))
           (\<lambda>u. ret (delay + u)))"

section \<open>The loop\<close>

definition non_retryable :: "exn \<Rightarrow> bool" where
  "non_retryable e \<longleftrightarrow> isinstance e ''ValueError'' \<or> isinstance e ''JSONDecodeError''"

text \<open>One turn of the loop: \<open>Inr\<close> the value to return, \<open>Inl\<close> the exception to go on with.\<close>

definition retry_attempt :: "('r, 'p, 'k, 'h) services \<Rightarrow> worker_settings \<Rightarrow>
    ('c \<times> ('r, 'p, 'k, 'h) world, 'a) io \<Rightarrow> int \<Rightarrow>
    ('c \<times> ('r, 'p, 'k, 'h) world, exn + 'a) io" where
  "retry_attempt S cfg coro_fn attempt =
     try_except (bind coro_fn (\<lambda>x. ret (Inr x)))
       (\<lambda>exc.
          if non_retryable exc then raise exc
          else if ordinary exc then
            andthen (eff (inc (RETRY_ATTEMPTS (int_str attempt))))
              (if attempt < W_RETRY_MAX_ATTEMPTS cfg
               then andthen (eff (bind (compute_delay S cfg attempt)
                                    (\<lambda>delay. on_host (h_sleep (host_of S) delay))))
                      (ret (Inl exc))
               else ret (Inl exc))
          else raise exc)"

fun retry_loop :: "('r, 'p, 'k, 'h) services \<Rightarrow> worker_settings \<Rightarrow>
    ('c \<times> ('r, 'p, 'k, 'h) world, 'a) io \<Rightarrow> exn option \<Rightarrow> int list \<Rightarrow>
    ('c \<times> ('r, 'p, 'k, 'h) world, 'a) io" where
  "retry_loop S cfg coro_fn last_exc [] =
     (case last_exc of None \<Rightarrow> raise AssertionError | Some e \<Rightarrow> raise e)"
| "retry_loop S cfg coro_fn last_exc (attempt # attempts) =
     bind (retry_attempt S cfg coro_fn attempt) (\<lambda>r.
       case r of Inr x \<Rightarrow> ret x | Inl exc \<Rightarrow> retry_loop S cfg coro_fn (Some exc) attempts)"

definition with_retry :: "('r, 'p, 'k, 'h) services \<Rightarrow> worker_settings \<Rightarrow>
    ('c \<times> ('r, 'p, 'k, 'h) world, 'a) io \<Rightarrow> ('c \<times> ('r, 'p, 'k, 'h) world, 'a) io" where
  "with_retry S cfg coro_fn = retry_loop S cfg coro_fn None [1..W_RETRY_MAX_ATTEMPTS cfg]"

section \<open>Dead letters\<close>

definition dlq_envelope :: "worker_settings \<Rightarrow> pystr \<Rightarrow> pystr \<Rightarrow> json \<Rightarrow> pystr \<Rightarrow> pystr \<Rightarrow> int \<Rightarrow> pystr \<Rightarrow>
    int option \<Rightarrow> int option \<Rightarrow> dict" where
  "dlq_envelope cfg uuid now original etype emessage retries topic part off =
     [(lit ''dlq_id'', JStr uuid),
      (lit ''original_event'', original),
      (lit ''original_topic'', JStr topic),
      (lit ''original_partition'', opt_int part),
      (lit ''original_offset'', opt_int off),
      (lit ''error_type'', JStr etype),
      (lit ''error_message'', JStr emessage),
      (lit ''retry_count'', JInt retries),
      (lit ''failed_at'', JStr now),
      (lit ''worker_id'', JStr (W_WORKER_ID cfg))]"

text \<open>\<open>(event_id or "unknown").encode("utf-8")\<close>\<close>

definition dlq_key :: "json \<Rightarrow> exn + nat list" where
  "dlq_key i = str_encode (if truthy i then i else JStr (lit ''unknown''))"

definition get_default :: "json option \<Rightarrow> json \<Rightarrow> json" where
  "get_default v d = (case v of None \<Rightarrow> d | Some x \<Rightarrow> x)"

definition dlq_topic_default :: pystr where
  "dlq_topic_default = lit ''iot.events.raw''"

definition dlq_send :: "('r, 'p, 'k, 'h) services \<Rightarrow> worker_settings \<Rightarrow> json \<Rightarrow> pystr \<Rightarrow> pystr \<Rightarrow> int \<Rightarrow>
    pystr \<Rightarrow> int option \<Rightarrow> int option \<Rightarrow> (('r, 'p, 'k, 'h) world, unit) io" where
  "dlq_send S cfg original etype emessage retries topic part off =
     bind (of_result (dict_get original (lit ''event_id''))) (\<lambda>i.
     bind (of_result (dict_get original (lit ''device_id''))) (\<lambda>d.
     let i = get_default i (JStr (lit ''unknown'')); d = get_default d JNull in
     andthen (inc (EVENTS_DLQ etype))
     (bind (ask_host (h_uuid4 (host_of S))) (\<lambda>uuid.
     bind (ask_host (h_now_iso (host_of S))) (\<lambda>now.
     andthen
       (try_except
         (bind (of_result (dlq_key i)) (\<lambda>key.
            on_kafka (k_send_and_wait (kafka_of S) (W_KAFKA_TOPIC_DLQ cfg)
              (JObj (dlq_envelope cfg uuid now original etype emessage retries topic part off))
              (Some key))))
         (catching ''KafkaError'' (\<lambda>exc. ret ())))
       (try_except
         (record_dlq_event S i d topic original
            (lit ''['' @ etype @ lit ''] '' @ emessage) retries)
         (catching ''Exception'' (\<lambda>exc. ret ()))))))))"

text \<open>The envelope has the fields of the shared model \<open>DLQEvent\<close>, in its order.\<close>

lemma dlq_envelope_fields:
  "dlq_to_kafka_dict py ev = Inr d \<Longrightarrow> map fst (dlq_envelope cfg u n o' et em rc tp pa off) = map fst d"
  by (auto simp: dlq_envelope_def dlq_to_kafka_dict_def split: if_splits)

section \<open>The host's timer\<close>

locale host_timer =
  fixes H :: "'h host_api"
    and slept :: "'h \<Rightarrow> rat"
  assumes uniform_range: "a \<le> b \<Longrightarrow> h_uniform H a b x = (u, x') \<Longrightarrow> a \<le> u \<and> u \<le> b \<and> slept x' = slept x"
    and sleep_ok: "0 \<le> d \<Longrightarrow> \<exists>x'. h_sleep H d x = (Inr (), x') \<and> slept x' = slept x + d"
begin

text \<open>One backoff: the sleep after a failed attempt.\<close>

lemma backoff:
  assumes "host_of S = H" "0 \<le> raw_delay cfg n" "0 \<le> W_RETRY_JITTER_FACTOR cfg" "W_RETRY_JITTER_FACTOR cfg \<le> 1"
  shows "\<exists>h d. bind (compute_delay S cfg n) (\<lambda>delay. on_host (h_sleep (host_of S) delay)) w
      = (Inr (), w\<lparr>host := h\<rparr>) \<and>
    slept h = slept (host w) + d \<and>
    raw_delay cfg n * (1 - W_RETRY_JITTER_FACTOR cfg) \<le> d \<and>
    d \<le> raw_delay cfg n * (1 + W_RETRY_JITTER_FACTOR cfg)"
proof -
  let ?j = "raw_delay cfg n * W_RETRY_JITTER_FACTOR cfg"
  obtain u x where u: "h_uniform H (- ?j) ?j (host w) = (u, x)"
    by (cases "h_uniform H (- ?j) ?j (host w)")
  have "0 \<le> ?j" using assms by simp
  then have range: "- ?j \<le> u \<and> u \<le> ?j \<and> slept x = slept (host w)" using uniform_range [OF _ u] by simp
  have "?j \<le> raw_delay cfg n" by (rule mult_left_le [OF assms(4,2)])
  with range have "0 \<le> raw_delay cfg n + u" by simp
  then obtain y where "h_sleep H (raw_delay cfg n + u) x = (Inr (), y)"
    "slept y = slept x + (raw_delay cfg n + u)" using sleep_ok by blast
  with range show ?thesis
    using u assms(1)
    by (intro exI [of _ y] exI [of _ "raw_delay cfg n + u"])
       (simp add: compute_delay_def Let_def io_defs algebra_simps)
qed

end

interpretation rh: host_timer ref_host "\<lambda>x. sum_list (rh_slept x)"
  by unfold_locales (auto simp: ref_host_def io_defs)

section \<open>Attempts and backoff\<close>

definition retryable :: "exn \<Rightarrow> bool" where
  "retryable e \<longleftrightarrow> ordinary e \<and> \<not> non_retryable e"

text \<open>What the retried action may do to what is counted here: it counts itself in the context, and it
  neither sleeps nor counts attempts.\<close>

definition counts_itself :: "('c \<Rightarrow> int) \<Rightarrow> ('h \<Rightarrow> rat) \<Rightarrow>
    ('c \<times> ('r, 'p, 'k, 'h) world, 'a) io \<Rightarrow> bool" where
  "counts_itself calls slept m \<longleftrightarrow>
     leads (\<lambda>s s'. calls (fst s') = calls (fst s) + 1 \<and> slept (host (snd s')) = slept (host (snd s)) \<and>
        (\<forall>i. tally (RETRY_ATTEMPTS i) (snd s') = tally (RETRY_ATTEMPTS i) (snd s))) m"

definition backoff_sum :: "worker_settings \<Rightarrow> int \<Rightarrow> int \<Rightarrow> rat" where
  "backoff_sum cfg a b = (\<Sum>n \<in> {a..b}. raw_delay cfg n)"

lemma backoff_sum_Cons: "a \<le> b \<Longrightarrow> backoff_sum cfg a b = raw_delay cfg a + backoff_sum cfg (a + 1) b"
proof -
  assume "a \<le> b"
  then have "{a..b} = insert a {a + 1..b}" by auto
  then show ?thesis by (simp add: backoff_sum_def)
qed

lemma backoff_sum_Nil: "b < a \<Longrightarrow> backoff_sum cfg a b = 0"
  by (simp add: backoff_sum_def)

text \<open>The settings that make the delays sensible: no delay is negative, with its jitter.\<close>

definition sane_retry :: "worker_settings \<Rightarrow> bool" where
  "sane_retry cfg \<longleftrightarrow> 0 \<le> W_RETRY_BASE_DELAY_SECONDS cfg \<and> 0 \<le> W_RETRY_MULTIPLIER cfg \<and>
     0 \<le> W_RETRY_MAX_DELAY_SECONDS cfg \<and> 0 \<le> W_RETRY_JITTER_FACTOR cfg \<and>
     W_RETRY_JITTER_FACTOR cfg \<le> 1"

lemma raw_delay_nonneg: "sane_retry cfg \<Longrightarrow> 0 \<le> raw_delay cfg n"
  by (simp add: sane_retry_def raw_delay_def)

text \<open>The account of a run that starts at attempt \<open>n\<close>: \<open>k\<close> is the last attempt that failed and was
  counted.\<close>

definition retry_account :: "worker_settings \<Rightarrow> ('c \<Rightarrow> int) \<Rightarrow> ('h \<Rightarrow> rat) \<Rightarrow> int \<Rightarrow> int \<Rightarrow>
    exn + 'a \<Rightarrow> 'c \<times> ('r, 'p, 'k, 'h) world \<Rightarrow> 'c \<times> ('r, 'p, 'k, 'h) world \<Rightarrow> bool" where
  "retry_account cfg calls slept n k r s s' \<longleftrightarrow>
     (let m = W_RETRY_MAX_ATTEMPTS cfg; j = W_RETRY_JITTER_FACTOR cfg;
          b = backoff_sum cfg n (min k (m - 1)); t = slept (host (snd s')) - slept (host (snd s))
      in n - 1 \<le> k \<and> k \<le> m \<and>
         (k = m \<longleftrightarrow> (\<exists>e. r = Inl e \<and> retryable e)) \<and>
         calls (fst s') = calls (fst s) + (if k = m then m - n + 1 else k - n + 2) \<and>
         (\<forall>i. tally (RETRY_ATTEMPTS i) (snd s') = tally (RETRY_ATTEMPTS i) (snd s)
            + (if \<exists>a \<in> {n..k}. i = int_str a then 1 else 0)) \<and>
         b * (1 - j) \<le> t \<and> t \<le> b * (1 + j))"

text \<open>The last call of the action: its result is that of the loop, and nothing follows it but the count
  of the attempt if it was the last one.\<close>

definition last_call :: "worker_settings \<Rightarrow> ('c \<times> ('r, 'p, 'k, 'h) world, 'a) io \<Rightarrow> int \<Rightarrow> exn + 'a \<Rightarrow>
    'c \<times> ('r, 'p, 'k, 'h) world \<Rightarrow> bool" where
  "last_call cfg coro_fn k r s' \<longleftrightarrow>
     (\<exists>t s1. coro_fn t = (r, s1) \<and> fst s1 = fst s' \<and>
        snd s' = (if k = W_RETRY_MAX_ATTEMPTS cfg then bump (RETRY_ATTEMPTS (int_str k)) (snd s1) else snd s1))"

context host_timer
begin

lemma attempt_failed:
  assumes "host_of S = H" "sane_retry cfg" "coro_fn s = (Inl e, s1)" "retryable e"
    and "n < W_RETRY_MAX_ATTEMPTS cfg"
  shows "\<exists>s2 d. retry_attempt S cfg coro_fn n s = (Inr (Inl e), s2) \<and> fst s2 = fst s1 \<and>
    slept (host (snd s2)) = slept (host (snd s1)) + d \<and>
    raw_delay cfg n * (1 - W_RETRY_JITTER_FACTOR cfg) \<le> d \<and>
    d \<le> raw_delay cfg n * (1 + W_RETRY_JITTER_FACTOR cfg) \<and>
    (\<forall>i. tally (RETRY_ATTEMPTS i) (snd s2) =
       tally (RETRY_ATTEMPTS i) (snd s1) + (if i = int_str n then 1 else 0))"
proof -
  let ?w = "bump (RETRY_ATTEMPTS (int_str n)) (snd s1)"
  obtain h d where sleep: "bind (compute_delay S cfg n) (\<lambda>delay. on_host (h_sleep (host_of S) delay)) ?w
      = (Inr (), ?w\<lparr>host := h\<rparr>)"
    and d: "slept h = slept (host ?w) + d" "raw_delay cfg n * (1 - W_RETRY_JITTER_FACTOR cfg) \<le> d"
      "d \<le> raw_delay cfg n * (1 + W_RETRY_JITTER_FACTOR cfg)"
    using backoff [OF assms(1) raw_delay_nonneg [OF assms(2)]] assms(2)
    unfolding sane_retry_def by blast
  have "retry_attempt S cfg coro_fn n s = (Inr (Inl e), (fst s1, ?w\<lparr>host := h\<rparr>))"
    using assms(3-5) sleep
    by (cases s1) (simp add: retry_attempt_def retryable_def try_except_def andthen_def bind_def ret_def
        eff_def inc_def modify_def split: prod.splits sum.splits)
  with d show ?thesis by (intro exI [of _ "(fst s1, ?w\<lparr>host := h\<rparr>)"] exI [of _ d]) simp
qed

end

lemma attempt_last:
  assumes "coro_fn s = (Inl e, s1)" "retryable e" "\<not> n < W_RETRY_MAX_ATTEMPTS cfg"
  shows "retry_attempt S cfg coro_fn n s =
    (Inr (Inl e), (fst s1, bump (RETRY_ATTEMPTS (int_str n)) (snd s1)))"
  using assms by (cases s1) (simp add: retry_attempt_def retryable_def io_defs)

lemma attempt_over:
  assumes "coro_fn s = (r, s1)" "\<And>e. r = Inl e \<Longrightarrow> \<not> retryable e"
  shows "retry_attempt S cfg coro_fn n s = (case r of Inl e \<Rightarrow> (Inl e, s1) | Inr x \<Rightarrow> (Inr (Inr x), s1))"
  using assms by (auto simp: retry_attempt_def retryable_def io_defs split: sum.splits)

context host_timer
begin

lemma retry_loop_account:
  assumes "host_of S = H" "sane_retry cfg" "counts_itself calls slept coro_fn"
    and "retry_loop S cfg coro_fn last_exc [n..W_RETRY_MAX_ATTEMPTS cfg] s = (r, s')"
    and "n \<le> W_RETRY_MAX_ATTEMPTS cfg"
  shows "\<exists>k. retry_account cfg calls slept n k r s s' \<and> last_call cfg coro_fn k r s'"
  using assms(4,5)
proof (induction "nat (W_RETRY_MAX_ATTEMPTS cfg - n)" arbitrary: n s last_exc rule: less_induct)
  case less
  let ?m = "W_RETRY_MAX_ATTEMPTS cfg" and ?j = "W_RETRY_JITTER_FACTOR cfg"
  obtain rr s1 where rr: "coro_fn s = (rr, s1)" by (cases "coro_fn s")
  then have s1: "calls (fst s1) = calls (fst s) + 1" "slept (host (snd s1)) = slept (host (snd s))"
    "\<And>i. tally (RETRY_ATTEMPTS i) (snd s1) = tally (RETRY_ATTEMPTS i) (snd s)"
    using assms(3) unfolding counts_itself_def by (auto dest: leadsD)
  have run: "bind (retry_attempt S cfg coro_fn n) (\<lambda>r. case r of Inr x \<Rightarrow> ret x
      | Inl exc \<Rightarrow> retry_loop S cfg coro_fn (Some exc) [n + 1..?m]) s = (r, s')"
    using less.prems by (simp add: upto_rec1)
  show ?case
  proof (cases "\<exists>e. rr = Inl e \<and> retryable e")
    case False
    with run attempt_over [of coro_fn s rr s1 S cfg n] rr
    have last: "s' = s1" "r = rr" "\<not> (\<exists>e. r = Inl e \<and> retryable e)"
      by (auto simp: bind_def ret_def split: sum.splits)
    with s1 less.prems(2) have "retry_account cfg calls slept n (n - 1) r s s'"
      by (simp add: retry_account_def Let_def backoff_sum_Nil)
    moreover have "last_call cfg coro_fn (n - 1) r s'"
      unfolding last_call_def using last(1,2) rr less.prems(2) by (intro exI [of _ s] exI [of _ s1]) simp
    ultimately show ?thesis by blast
  next
    case True
    then obtain e where e: "rr = Inl e" "retryable e" by blast
    show ?thesis
    proof (cases "n < ?m")
      case False
      have "retry_attempt S cfg coro_fn n s =
          (Inr (Inl e), (fst s1, bump (RETRY_ATTEMPTS (int_str n)) (snd s1)))"
        by (rule attempt_last) (use rr e False in simp_all)
      with run False less.prems(2) have last: "r = Inl e" "s' = (fst s1, bump (RETRY_ATTEMPTS (int_str n)) (snd s1))" "n = ?m"
        by (auto simp: bind_def raise_def)
      with s1 e(2) have "retry_account cfg calls slept n ?m r s s'"
        by (simp add: retry_account_def Let_def backoff_sum_Nil)
      moreover have "last_call cfg coro_fn ?m r s'"
        unfolding last_call_def using last rr e(1) by (intro exI [of _ s] exI [of _ s1]) simp
      ultimately show ?thesis by blast
    next
      case True
      have "coro_fn s = (Inl e, s1)" using rr e(1) by simp
      from attempt_failed [where coro_fn = coro_fn, OF assms(1,2) this e(2) True] obtain s2 d where
        s2: "retry_attempt S cfg coro_fn n s = (Inr (Inl e), s2)" "fst s2 = fst s1"
          "slept (host (snd s2)) = slept (host (snd s1)) + d"
          "raw_delay cfg n * (1 - ?j) \<le> d" "d \<le> raw_delay cfg n * (1 + ?j)"
          "\<forall>i. tally (RETRY_ATTEMPTS i) (snd s2) =
             tally (RETRY_ATTEMPTS i) (snd s1) + (if i = int_str n then 1 else 0)" by blast
      with run have rest: "retry_loop S cfg coro_fn (Some e) [n + 1..?m] s2 = (r, s')"
        by (simp add: bind_def)
      from less.hyps [OF _ rest] True obtain k where k: "retry_account cfg calls slept (n + 1) k r s2 s'"
        and last: "last_call cfg coro_fn k r s'" by auto
      then have kn: "n \<le> k" "k \<le> ?m" by (simp_all add: retry_account_def Let_def)
      then have set_k: "{n..k} = insert n {n + 1..k}" by auto
      have sum: "backoff_sum cfg n (min k (?m - 1)) = raw_delay cfg n + backoff_sum cfg (n + 1) (min k (?m - 1))"
        using kn True by (intro backoff_sum_Cons) simp
      have "retry_account cfg calls slept n k r s s'"
        using k kn s1 s2(2-6) True
        unfolding retry_account_def Let_def set_k sum
        by (auto simp: algebra_simps)
      with last show ?thesis by blast
    qed
  qed
qed

end

lemma with_retry_none:
  assumes "W_RETRY_MAX_ATTEMPTS cfg < 1"
  shows "with_retry S cfg coro_fn s = (Inl AssertionError, s)"
  using assms by (simp add: with_retry_def raise_def)

text \<open>C16: The retry loop does what its docstring says. Take settings with at least one attempt, no
  negative delay or multiplier and a jitter between 0 and 1, sleeps that are not cancelled, and an
  action that counts its own calls and neither sleeps nor touches the attempt counter. Let \<open>k\<close> be the
  number of attempts that failed with a retryable error. Then \<open>k\<close> is at most the maximum, and equals
  it exactly when the loop ends with a retryable error; the result of the loop, value or error, is
  that of the last call of the action, which leaves the state in which the loop ends, but for the
  count of the last possible attempt; the action ran \<open>k + 1\<close> times, or the maximum; the attempt
  counter went up by one for each of the attempts \<open>1\<close> to \<open>k\<close> and for no other; and the loop slept,
  in total, the sum of the capped exponential delays of all failed attempts but the last possible
  one, up to the jitter factor.\<close>

theorem with_retry_accounts:
  assumes "host_timer (host_of S) slept" "sane_retry cfg" "counts_itself calls slept coro_fn"
    and "1 \<le> W_RETRY_MAX_ATTEMPTS cfg" "with_retry S cfg coro_fn s = (r, s')"
  shows "\<exists>k. 0 \<le> k \<and> k \<le> W_RETRY_MAX_ATTEMPTS cfg \<and>
    (k = W_RETRY_MAX_ATTEMPTS cfg \<longleftrightarrow> (\<exists>e. r = Inl e \<and> retryable e)) \<and>
    (\<exists>t s1. coro_fn t = (r, s1) \<and> fst s1 = fst s' \<and>
       snd s' = (if k = W_RETRY_MAX_ATTEMPTS cfg then bump (RETRY_ATTEMPTS (int_str k)) (snd s1) else snd s1)) \<and>
    calls (fst s') = calls (fst s) + min (k + 1) (W_RETRY_MAX_ATTEMPTS cfg) \<and>
    (\<forall>i. tally (RETRY_ATTEMPTS i) (snd s') = tally (RETRY_ATTEMPTS i) (snd s)
       + (if \<exists>a \<in> {1..k}. i = int_str a then 1 else 0)) \<and>
    (let b = \<Sum>n \<in> {1..min k (W_RETRY_MAX_ATTEMPTS cfg - 1)}. raw_delay cfg n;
         t = slept (host (snd s')) - slept (host (snd s))
     in b * (1 - W_RETRY_JITTER_FACTOR cfg) \<le> t \<and> t \<le> b * (1 + W_RETRY_JITTER_FACTOR cfg))"
proof -
  from host_timer.retry_loop_account [OF assms(1) refl assms(2,3) assms(5) [unfolded with_retry_def] assms(4)]
  obtain k where k: "retry_account cfg calls slept 1 k r s s'" and last: "last_call cfg coro_fn k r s'" by blast
  note last = last [unfolded last_call_def]
  from k have "0 \<le> k \<and> k \<le> W_RETRY_MAX_ATTEMPTS cfg \<and>
    (k = W_RETRY_MAX_ATTEMPTS cfg \<longleftrightarrow> (\<exists>e. r = Inl e \<and> retryable e))" by (simp add: retry_account_def Let_def)
  with k last show ?thesis
    by (intro exI [of _ k]) (auto simp only: retry_account_def backoff_sum_def Let_def min_def add_0 split: if_splits)
qed

text \<open>C32: With the default settings an event whose insertion keeps failing is given up after the
  fifth attempt, having slept between 11.25 and 18.75 seconds in all (1, 2, 4 and 8 seconds with a
  quarter of jitter): there is no sleep after the last attempt and the cap of 30 seconds is never
  reached.\<close>

theorem default_backoff_budget:
  fixes coro_fn :: "('c \<times> ('r, 'p, 'k, 'h) world, 'a) io"
  assumes "host_timer (host_of S) slept" "counts_itself calls slept coro_fn"
    and "with_retry S worker_defaults coro_fn s = (Inl e, s')" "retryable e"
  shows "calls (fst s') = calls (fst s) + 5 \<and>
    45 / 4 \<le> slept (host (snd s')) - slept (host (snd s)) \<and>
    slept (host (snd s')) - slept (host (snd s)) \<le> 75 / 4"
proof -
  have "sane_retry worker_defaults" by (simp add: sane_retry_def worker_defaults_def)
  moreover have m: "W_RETRY_MAX_ATTEMPTS worker_defaults = 5" by (simp add: worker_defaults_def)
  ultimately obtain k where "retry_account worker_defaults calls slept 1 k (Inl e :: exn + 'a) s s'"
    using host_timer.retry_loop_account [OF assms(1) refl _ assms(2) assms(3) [unfolded with_retry_def]]
    by auto
  moreover from this have "k = 5" using assms(4) m by (auto simp: retry_account_def Let_def)
  moreover have "{1..4::int} = {1, 2, 3, 4}" by auto
  ultimately show ?thesis
    using m by (simp add: retry_account_def Let_def backoff_sum_def raw_delay_def worker_defaults_def
        numeral_eq_Suc)
qed

text \<open>An action that fails each time, and counts its calls.\<close>

definition always_failing :: "(int \<times> ('r, 'p, 'k, 'h) world, unit) io" where
  "always_failing = andthen (modify (\<lambda>(c, w). (c + 1, w))) (raise (RuntimeError (lit ''down'')))"

lemma always_failing_counts: "counts_itself id slept always_failing"
  by (auto simp: counts_itself_def always_failing_def leads_def io_defs)

lemma always_failing_run:
  "\<exists>s'. with_retry good_worker worker_defaults always_failing (0, worker_world)
     = (Inl (RuntimeError (lit ''down'')), s')"
  by (simp add: with_retry_def worker_defaults_def upto_rec1 retry_attempt_def always_failing_def io_defs
      RuntimeError_def non_retryable_def compute_delay_def ref_defs Let_def)

lemma good_timer: "host_timer (host_of good_worker) (\<lambda>x. sum_list (rh_slept x))"
  using rh.host_timer_axioms by (simp add: good_worker_def worker_services_def)

theorem with_retry_accounts_witness:
  "\<exists>s'. with_retry good_worker worker_defaults always_failing (0, worker_world)
     = (Inl (RuntimeError (lit ''down'')), s') \<and> fst s' = 5 \<and> tally (RETRY_ATTEMPTS (lit ''5'')) (snd s') = 1"
proof -
  from always_failing_run obtain s' where run: "with_retry good_worker worker_defaults always_failing
      (0, worker_world) = (Inl (RuntimeError (lit ''down'')), s')" by blast
  have "sane_retry worker_defaults" by (simp add: sane_retry_def worker_defaults_def)
  from with_retry_accounts [OF good_timer this always_failing_counts _ run]
  obtain k where k: "k = 5" "fst s' = min (k + 1) 5"
    "\<forall>i. tally (RETRY_ATTEMPTS i) (snd s') = (if \<exists>a \<in> {1..k}. i = int_str a then 1 else 0)"
    by (auto simp: worker_defaults_def worker_world_def no_metrics_def RuntimeError_def retryable_def
        non_retryable_def)
  have "lit ''5'' = int_str 5" by (simp add: int_str_def nat_str.simps lit_def)
  then have "\<exists>a \<in> {1..5}. lit ''5'' = int_str a" by (intro bexI [of _ 5]) auto
  with run k show ?thesis by simp
qed

theorem default_backoff_budget_witness:
  "\<exists>s'. with_retry good_worker worker_defaults always_failing (0, worker_world)
     = (Inl (RuntimeError (lit ''down'')), s') \<and> fst s' = 5 \<and>
     sum_list (rh_slept (host (snd s'))) \<le> 75 / 4"
proof -
  from always_failing_run obtain s' where run: "with_retry good_worker worker_defaults always_failing
      (0, worker_world) = (Inl (RuntimeError (lit ''down'')), s')" by blast
  from default_backoff_budget [OF good_timer always_failing_counts run] run show ?thesis
    by (auto simp: RuntimeError_def retryable_def non_retryable_def worker_world_def idle_host_def)
qed

section \<open>What becomes of a dead letter\<close>

definition kafka_errors :: "'k kafka_api \<Rightarrow> bool" where
  "kafka_errors K \<longleftrightarrow> (\<forall>t v k. raises (\<lambda>e. isinstance e ''KafkaError'') (k_send_and_wait K t v k))"

definition dlq_id_of :: "dict \<Rightarrow> json" where
  "dlq_id_of d = get_default (map_of d (lit ''event_id'')) (JStr (lit ''unknown''))"

definition dlq_device_of :: "dict \<Rightarrow> json" where
  "dlq_device_of d = get_default (map_of d (lit ''device_id'')) JNull"

text \<open>The second half of \<open>dlq_send\<close>: the audit record.\<close>

definition dlq_record :: "('r, 'p, 'k, 'h) services \<Rightarrow> dict \<Rightarrow> pystr \<Rightarrow> pystr \<Rightarrow> int \<Rightarrow> pystr \<Rightarrow>
    (('r, 'p, 'k, 'h) world, unit) io" where
  "dlq_record S d etype emessage retries topic =
     try_except
       (record_dlq_event S (dlq_id_of d) (dlq_device_of d) topic (JObj d)
          (lit ''['' @ etype @ lit ''] '' @ emessage) retries)
       (catching ''Exception'' (\<lambda>exc. ret ()))"

lemma dlq_send_eval:
  assumes "h_uuid4 (host_of S) (host w) = (u, h1)" "h_now_iso (host_of S) h1 = (n, h2)"
  shows "dlq_send S cfg (JObj d) et em rc tp pa off w =
    (let w1 = (bump (EVENTS_DLQ et) w)\<lparr>host := h2\<rparr> in
     case dlq_key (dlq_id_of d) of
       Inl e \<Rightarrow> if isinstance e ''KafkaError'' then dlq_record S d et em rc tp w1 else (Inl e, w1)
     | Inr key \<Rightarrow>
         (case k_send_and_wait (kafka_of S) (W_KAFKA_TOPIC_DLQ cfg)
                 (JObj (dlq_envelope cfg u n (JObj d) et em rc tp pa off)) (Some key) (kafka w) of
            (Inl e, x) \<Rightarrow> if isinstance e ''KafkaError'' then dlq_record S d et em rc tp (w1\<lparr>kafka := x\<rparr>)
                          else (Inl e, w1\<lparr>kafka := x\<rparr>)
          | (Inr _, x) \<Rightarrow> dlq_record S d et em rc tp (w1\<lparr>kafka := x\<rparr>)))"
proof -
  have "dlq_send S cfg (JObj d) et em rc tp pa off w =
    andthen
       (try_except
         (bind (of_result (dlq_key (dlq_id_of d))) (\<lambda>key.
            on_kafka (k_send_and_wait (kafka_of S) (W_KAFKA_TOPIC_DLQ cfg)
              (JObj (dlq_envelope cfg u n (JObj d) et em rc tp pa off)) (Some key))))
         (catching ''KafkaError'' (\<lambda>exc. ret ())))
       (dlq_record S d et em rc tp) ((bump (EVENTS_DLQ et) w)\<lparr>host := h2\<rparr>)"
    using assms
    by (simp add: dlq_send_def dlq_record_def dlq_id_of_def dlq_device_of_def Let_def bind_def andthen_def
        of_result_def inc_def modify_def ask_host_def)
  then show ?thesis
    by (simp add: Let_def io_defs split: sum.split prod.split)
qed

lemma dlq_key_Inl: "dlq_key i = Inl e \<Longrightarrow> ordinary e \<and> \<not> isinstance e ''KafkaError''"
  by (cases i)
     (auto simp: dlq_key_def no_attribute_def exn_defs utf8_encode_def split: if_splits)

lemma dlq_record_quiet: "uncancelled S \<Longrightarrow> quiet (dlq_record S d et em rc tp)"
  unfolding dlq_record_def record_dlq_event_def get_pool_def
  by (intro raises_intros) (auto simp: RuntimeError_def intro: uncancelled.mild_pg)

lemma dlq_record_frame:
  "dlq_record S d et em rc tp w = (r, w') \<Longrightarrow> met w' = met w \<and> redis w' = redis w \<and>
     kafka w' = kafka w \<and> host w' = host w \<and> pool_set w' = pool_set w"
  by (auto simp: dlq_record_def record_dlq_event_def get_pool_def io_defs
      split: prod.splits sum.splits if_splits)

lemma dlq_send_effect:
  assumes "uncancelled S" "kafka_errors (kafka_of S)" "dlq_key (dlq_id_of d) = Inr key"
    and "dlq_send S cfg (JObj d) et em rc tp pa off w = (r, w')"
  shows "r = Inr () \<and> met w' = met (bump (EVENTS_DLQ et) w) \<and> redis w' = redis w"
proof -
  obtain u h1 where u: "h_uuid4 (host_of S) (host w) = (u, h1)" by (cases "h_uuid4 (host_of S) (host w)")
  obtain n h2 where n: "h_now_iso (host_of S) h1 = (n, h2)" by (cases "h_now_iso (host_of S) h1")
  obtain kr x where kr: "k_send_and_wait (kafka_of S) (W_KAFKA_TOPIC_DLQ cfg)
      (JObj (dlq_envelope cfg u n (JObj d) et em rc tp pa off)) (Some key) (kafka w) = (kr, x)"
    by (cases "k_send_and_wait (kafka_of S) (W_KAFKA_TOPIC_DLQ cfg)
      (JObj (dlq_envelope cfg u n (JObj d) et em rc tp pa off)) (Some key) (kafka w)")
  have "isinstance e ''KafkaError''" if "kr = Inl e" for e
    using assms(2) kr that unfolding kafka_errors_def by (auto dest: raisesD)
  then have run: "dlq_record S d et em rc tp ((bump (EVENTS_DLQ et) w)\<lparr>host := h2, kafka := x\<rparr>) = (r, w')"
    using assms(3,4) kr unfolding dlq_send_eval [OF u n] by (auto simp: Let_def split: sum.splits)
  obtain z w'' where "dlq_record S d et em rc tp ((bump (EVENTS_DLQ et) w)\<lparr>host := h2, kafka := x\<rparr>) = (Inr z, w'')"
    using dlq_record_quiet [OF assms(1)] by (rule quiet_result)
  with run dlq_record_frame [OF run] show ?thesis by auto
qed

text \<open>\<open>DLQPublisher.send\<close> contains the failures of its own calls: for a dict whose event id can be
  made a key, if no call is cancelled and Kafka fails only with a KafkaError, it returns, whatever
  Kafka and PostgreSQL do, and it counts one dead letter under its error type and nothing else.\<close>

lemma dlq_send_contained:
  assumes "uncancelled S" "kafka_errors (kafka_of S)" "dlq_key (dlq_id_of d) = Inr key"
    and "dlq_send S cfg (JObj d) et em rc tp pa off w = (r, w')"
  shows "r = Inr () \<and> met w' = met (bump (EVENTS_DLQ et) w) \<and> redis w' = redis w"
  by (rule dlq_send_effect [OF assms])

lemma dlq_send_bad:
  assumes "dlq_key (dlq_id_of d) = Inl e"
    and "dlq_send S cfg (JObj d) et em rc tp pa off w = (r, w')"
  shows "r = Inl e \<and> ordinary e \<and> kafka w' = kafka w \<and> postgres w' = postgres w \<and> redis w' = redis w"
proof -
  obtain u h1 where u: "h_uuid4 (host_of S) (host w) = (u, h1)" by (cases "h_uuid4 (host_of S) (host w)")
  obtain n h2 where n: "h_now_iso (host_of S) h1 = (n, h2)" by (cases "h_now_iso (host_of S) h1")
  from assms dlq_key_Inl [OF assms(1)] show ?thesis
    unfolding dlq_send_eval [OF u n] by (auto simp: Let_def)
qed

text \<open>Its docstring, that it does not raise, does not hold for every event: if the event id is
  neither falsy nor a text that UTF-8 encodes (an int, say), \<open>send\<close> raises before it has written
  anything, so that the event reaches neither the DLQ topic nor the audit table.\<close>

lemma dlq_send_loses:
  assumes "dlq_key (dlq_id_of d) = Inl e"
    and "dlq_send S cfg (JObj d) et em rc tp pa off w = (r, w')"
  shows "r = Inl e \<and> ordinary e \<and> kafka w' = kafka w \<and> postgres w' = postgres w"
  using dlq_send_bad [OF assms] by simp

text \<open>Kafka and PostgreSQL at work: a send succeeds, and so does a statement that the schema never
  refuses.\<close>

definition kafka_up :: "'k kafka_api \<Rightarrow> bool" where
  "kafka_up K \<longleftrightarrow> (\<forall>t v k x. \<exists>x'. k_send_and_wait K t v k x = (Inr (), x'))"

definition pg_up :: "'p pg_api \<Rightarrow> ('p \<Rightarrow> database) \<Rightarrow> ('p \<Rightarrow> int) \<Rightarrow> bool" where
  "pg_up P tables now_of \<longleftrightarrow> (\<forall>q x. (\<forall>t \<ge> now_of x. exec_sql t q (tables x) \<noteq> None) \<longrightarrow>
     (\<exists>tag x'. pg_execute P q x = (Inr tag, x')))"

text \<open>What the audit table can hold.\<close>

definition auditable :: "dict \<Rightarrow> pystr \<Rightarrow> pystr \<Rightarrow> int \<Rightarrow> bool" where
  "auditable d et em rc \<longleftrightarrow> text_arg (dlq_id_of d) \<noteq> None \<and>
     (dlq_device_of d = JNull \<or> text_arg (dlq_device_of d) \<noteq> None) \<and>
     jsonb_ok (JObj d) \<and> text_ok et \<and> text_ok em \<and> 0 \<le> rc \<and> rc < 2 ^ 31"

lemma auditable_key: "auditable d et em rc \<Longrightarrow> \<exists>key. dlq_key (dlq_id_of d) = Inr key"
  by (auto simp: auditable_def text_arg_def dlq_key_def text_ok_def utf8_encode_def
      split: json.splits if_splits)

lemma text_ok_lit: assumes "CHR 0x00 \<notin> set s" shows "text_ok (lit s)"
proof -
  have zero: "of_char c = (0 :: nat) \<longleftrightarrow> c = CHR 0x00" for c
    using inj_eq [OF inj_of_char_nat, of c "CHR 0x00"] by simp
  have "(0 :: nat) \<notin> of_char ` set s"
  proof
    assume "(0 :: nat) \<in> of_char ` set s"
    then obtain c where "c \<in> set s" "of_char c = (0 :: nat)" by (metis imageE)
    with zero [of c] assms show False by metis
  qed
  then show ?thesis by (simp only: text_ok_def encodable_lit) (simp add: lit_def)
qed

lemma text_ok_append: "text_ok (a @ b) \<longleftrightarrow> text_ok a \<and> text_ok b"
  by (auto simp: text_ok_def)

text \<open>C31: While Kafka and PostgreSQL work, with the pool set and no record of the producer pending, \<open>send\<close>
  leaves an event that the audit table can hold in both places: the DLQ topic has one more durable
  record, the envelope with the event as it was, keyed by the event id, and the audit table one more
  row, with the event, its error and its retry count. The table can hold it if the id is a text or
  missing, the device id is a text, null or missing, neither these nor the other strings of the event
  nor the error have a NUL or a lone surrogate, the event has no NaN or infinity, and the retry count
  is not negative and fits 32 bits (\<open>auditable\<close>).\<close>

theorem dlq_send_leaves_both:
  assumes "kafka_log (kafka_of S) durable pending" "pending (kafka w) = {#}" "kafka_up (kafka_of S)"
    and "pg_server (pg_of S) tables now_of" "pg_up (pg_of S) tables now_of" "pool_set w"
    and "auditable d et em rc"
    and "dlq_send S cfg (JObj d) et em rc dlq_topic_default pa off w = (r, w')"
  shows "r = Inr () \<and>
    (\<exists>key u n. dlq_key (dlq_id_of d) = Inr key \<and>
       durable (kafka w') = durable (kafka w) + {#(W_KAFKA_TOPIC_DLQ cfg,
         JObj (dlq_envelope cfg u n (JObj d) et em rc dlq_topic_default pa off), Some key)#}) \<and>
    (\<exists>i now. text_arg (dlq_id_of d) = Some i \<and>
       tables (postgres w') = (tables (postgres w))\<lparr>d_dlq_events := d_dlq_events (tables (postgres w)) @
         [\<lparr>qr_event_id = i, qr_device_id = text_arg (dlq_device_of d),
           qr_original_topic = dlq_topic_default, qr_raw_payload = JObj d,
           qr_error_message = lit ''['' @ et @ lit ''] '' @ em, qr_retry_count = rc,
           qr_first_seen = now, qr_status = ''pending''\<rparr>]\<rparr>)"
proof -
  obtain u h1 where u: "h_uuid4 (host_of S) (host w) = (u, h1)" by (cases "h_uuid4 (host_of S) (host w)")
  obtain n h2 where n: "h_now_iso (host_of S) h1 = (n, h2)" by (cases "h_now_iso (host_of S) h1")
  from assms(7) auditable_key obtain key where key: "dlq_key (dlq_id_of d) = Inr key" by blast
  let ?v = "JObj (dlq_envelope cfg u n (JObj d) et em rc dlq_topic_default pa off)"
  let ?q = "InsertDlqEvent (dlq_id_of d) (dlq_device_of d) dlq_topic_default (JObj d)
      (lit ''['' @ et @ lit ''] '' @ em) rc"
  from assms(3) obtain x where x: "k_send_and_wait (kafka_of S) (W_KAFKA_TOPIC_DLQ cfg) ?v (Some key)
      (kafka w) = (Inr (), x)" unfolding kafka_up_def by blast
  from assms(7) obtain i where i: "text_arg (dlq_id_of d) = Some i" by (auto simp: auditable_def)
  have texts: "text_ok et" "text_ok em" using assms(7) by (simp_all add: auditable_def)
  have "text_ok (lit ''['' @ et @ lit ''] '' @ em)" "text_ok dlq_topic_default"
    using text_ok_lit [of "''[''"] text_ok_lit [of "''] ''"] text_ok_lit [of "''iot.events.raw''"]
      text_ok_append texts by (simp_all add: dlq_topic_default_def)
  then have "\<forall>t. exec_sql t ?q (tables (postgres w)) \<noteq> None"
    using assms(7) i unfolding auditable_def
    by (elim conjE) (simp del: jsonb_ok.simps split: if_split)
  with assms(5) obtain tag y where y: "pg_execute (pg_of S) ?q (postgres w) = (Inr tag, y)"
    unfolding pg_up_def by blast
  from pg_server.execute_ok [OF assms(4) y]
  have row: "exec_sql (now_of y) ?q (tables (postgres w)) = Some (tag, tables y)" by blast
  from assms(8) key x y assms(6) have r: "r = Inr ()" "postgres w' = y" "kafka w' = x"
    unfolding dlq_send_eval [OF u n]
    by (auto simp: Let_def dlq_record_def record_dlq_event_def get_pool_def io_defs)
  from kafka_log.send_and_wait_ok [OF assms(1) x] kafka_log.send_and_wait_any [OF assms(1) x] assms(2)
  have "durable x = durable (kafka w) + {#(W_KAFKA_TOPIC_DLQ cfg, ?v, Some key)#}"
    by (auto intro: subset_mset.antisym)
  moreover have "tables y = (tables (postgres w))\<lparr>d_dlq_events := d_dlq_events (tables (postgres w)) @
         [\<lparr>qr_event_id = i, qr_device_id = text_arg (dlq_device_of d),
           qr_original_topic = dlq_topic_default, qr_raw_payload = JObj d,
           qr_error_message = lit ''['' @ et @ lit ''] '' @ em, qr_retry_count = rc,
           qr_first_seen = now_of y, qr_status = ''pending''\<rparr>]\<rparr>"
    using row i by (auto split: if_splits)
  ultimately show ?thesis using r key i by blast
qed

section \<open>Dead letters on the reference services\<close>

lemma good_kafka: "kafka_log (kafka_of good_worker) rk_durable rk_pending"
  "kafka_up (kafka_of good_worker)" "kafka_errors (kafka_of good_worker)"
proof -
  show "kafka_log (kafka_of good_worker) rk_durable rk_pending"
    using rk.kafka_log_axioms by (simp add: good_worker_def worker_services_def)
  show "kafka_up (kafka_of good_worker)" "kafka_errors (kafka_of good_worker)"
    by (simp_all add: good_worker_def worker_services_def kafka_up_def kafka_errors_def raises_def
        ref_kafka_def rk_call_def io_defs)
qed

lemma good_pg_up: "pg_up (pg_of good_worker) rp_tables rp_now"
  unfolding pg_up_def
proof (intro allI impI)
  fix q and x :: ref_pg assume ok: "\<forall>t \<ge> rp_now x. exec_sql t q (rp_tables x) \<noteq> None"
  have "rp_now x \<le> rp_now x + 1" by simp
  with ok obtain tag db where "exec_sql (rp_now x + 1) q (rp_tables x) = Some (tag, db)" by fastforce
  then show "\<exists>tag x'. pg_execute (pg_of good_worker) q x = (Inr tag, x')"
    by (simp add: good_worker_def worker_services_def ref_pg_def rp_execute_def Let_def)
qed

lemma sample_auditable: "auditable sample_dict (lit ''DB_ERROR'') (lit ''down'') 5"
  by (simp add: auditable_def dlq_id_of_def dlq_device_of_def get_default_def sample_dict_def
      text_arg_def text_ok_lit)

abbreviation sample_dlq :: "json \<Rightarrow> ((ref_redis, ref_pg, ref_kafka, ref_host) world, unit) io" where
  "sample_dlq e \<equiv> dlq_send good_worker worker_defaults e (lit ''DB_ERROR'') (lit ''down'') 5
     dlq_topic_default (Some 0) (Some 7)"

lemma dlq_send_contained_example:
  "\<exists>w'. sample_dlq (JObj sample_dict) worker_world = (Inr (), w') \<and>
     tally (EVENTS_DLQ (lit ''DB_ERROR'')) w' = 1"
proof -
  obtain key where key: "dlq_key (dlq_id_of sample_dict) = Inr key"
    using auditable_key [OF sample_auditable] by blast
  obtain r w' where run: "sample_dlq (JObj sample_dict) worker_world = (r, w')"
    by (cases "sample_dlq (JObj sample_dict) worker_world")
  from dlq_send_contained [OF gw.uncancelled_axioms good_kafka(3) key run] run show ?thesis
    by (auto simp: worker_world_def no_metrics_def)
qed

text \<open>The sample event with the number 5 for an id.\<close>

definition int_id_dict :: dict where
  "int_id_dict = AList.update (lit ''event_id'') (JInt 5) sample_dict"

lemma int_id_key: "dlq_key (dlq_id_of int_id_dict) = Inl (no_attribute (JInt 5) ''encode'')"
  by (simp add: int_id_dict_def dlq_id_of_def get_default_def dlq_key_def)

lemma dlq_send_loses_example:
  "\<exists>w'. sample_dlq (JObj int_id_dict) worker_world = (Inl (no_attribute (JInt 5) ''encode''), w') \<and>
     rk_log (kafka w') = [] \<and> d_dlq_events (rp_tables (postgres w')) = []"
proof -
  obtain r w' where run: "sample_dlq (JObj int_id_dict) worker_world = (r, w')"
    by (cases "sample_dlq (JObj int_id_dict) worker_world")
  from dlq_send_loses [OF int_id_key run] run show ?thesis
    by (auto simp: worker_world_def empty_kafka_def fresh_pg_def migrated_def)
qed

theorem dlq_send_leaves_both_witness:
  "\<exists>w'. sample_dlq (JObj sample_dict) worker_world = (Inr (), w') \<and>
     size (rk_durable (kafka w')) = 1 \<and> length (d_dlq_events (rp_tables (postgres w'))) = 1"
proof -
  obtain r w' where run: "sample_dlq (JObj sample_dict) worker_world = (r, w')"
    by (cases "sample_dlq (JObj sample_dict) worker_world")
  have "rk_pending (kafka worker_world) = {#}"
    by (simp add: worker_world_def rk_pending_def empty_kafka_def)
  from dlq_send_leaves_both [OF good_kafka(1) this good_kafka(2) good_worker_pg good_pg_up
      worker_world_pool(1) sample_auditable run] run show ?thesis
    by (auto simp: worker_world_def rk_durable_def empty_kafka_def fresh_pg_def migrated_def)
qed

end
