(* ===== verification/Idempotency.thy ===== *)
theory Idempotency
  imports Reference
begin

text \<open>
  \<open>apps/worker/idempotency.py\<close>: \<open>IdempotencyGuard\<close>, the SET NX claim of an event id, one by one
  and in a pipeline. The id is whatever \<open>raw_event.get("event_id")\<close> returned, so it is a \<open>json\<close>
  value, and the key is made of the text an f-string writes for it.

  The lemmas are about \<open>claimed\<close>, the states of Redis in which exactly the keys of a list are
  there until a given time. A claim answers whether its key is new and leads to the state with
  one more key; \<open>firsts\<close> is the specification for a sequence of claims, and both the one by one
  and the pipelined checks answer it.
\<close>

definition idempotency_key :: "pylib \<Rightarrow> json \<Rightarrow> pystr" where
  "idempotency_key py event_id' = lit ''iotflow:idempotency:'' @ py_str (py_repr py) event_id'"

definition is_new :: "('r, 'p, 'k, 'h) services \<Rightarrow> worker_settings \<Rightarrow> json \<Rightarrow>
    (('r, 'p, 'k, 'h) world, bool) io" where
  "is_new S cfg event_id' =
     timed IDEMPOTENCY_CHECK_LATENCY
       (try_except
         (bind (on_redis (r_set_nx (redis_of S) (idempotency_key (py_of S) event_id') (lit ''1'')
                  (W_IDEMPOTENCY_TTL_SECONDS cfg)))
           (\<lambda>result. if \<not> result then andthen (inc EVENTS_DUPLICATE) (ret False) else ret True))
         (catching ''Exception'' (\<lambda>exc. ret True)))"

fun batch_outcomes :: "(json \<times> bool) list \<Rightarrow> (('r, 'p, 'k, 'h) world, bool list) io" where
  "batch_outcomes [] = ret []"
| "batch_outcomes ((event_id', r) # rs) =
     (if \<not> r then andthen (inc EVENTS_DUPLICATE)
                   (bind (batch_outcomes rs) (\<lambda>outcomes. ret (False # outcomes)))
      else bind (batch_outcomes rs) (\<lambda>outcomes. ret (True # outcomes)))"

definition are_new_batch :: "('r, 'p, 'k, 'h) services \<Rightarrow> worker_settings \<Rightarrow> json list \<Rightarrow>
    (('r, 'p, 'k, 'h) world, bool list) io" where
  "are_new_batch S cfg event_ids =
     (if event_ids = [] then ret []
      else timed IDEMPOTENCY_CHECK_LATENCY
        (try_except
          (bind (on_redis (r_pipeline (redis_of S)
                   (map (\<lambda>i. (idempotency_key (py_of S) i, lit ''1'', W_IDEMPOTENCY_TTL_SECONDS cfg))
                      event_ids)))
            (\<lambda>results. batch_outcomes (zip event_ids results)))
          (catching ''Exception'' (\<lambda>exc. ret (replicate (length event_ids) True)))))"

definition release :: "('r, 'p, 'k, 'h) services \<Rightarrow> json \<Rightarrow> (('r, 'p, 'k, 'h) world, unit) io" where
  "release S event_id' =
     try_except
       (andthen (on_redis (r_delete (redis_of S) (idempotency_key (py_of S) event_id'))) (ret ()))
       (catching ''Exception'' (\<lambda>exc. ret ()))"

section \<open>The operations by cases\<close>

lemma is_new_answers:
  assumes "r_set_nx (redis_of S) (idempotency_key (py_of S) i) (lit ''1'')
      (W_IDEMPOTENCY_TTL_SECONDS cfg) (redis w) = (Inr b, x)"
  shows "is_new S cfg i w = (Inr b, tick IDEMPOTENCY_CHECK_LATENCY
     (if b then w\<lparr>redis := x\<rparr> else bump EVENTS_DUPLICATE (w\<lparr>redis := x\<rparr>)))"
  using assms by (simp add: is_new_def io_defs)

lemma is_new_fails_open:
  assumes "r_set_nx (redis_of S) (idempotency_key (py_of S) i) (lit ''1'')
      (W_IDEMPOTENCY_TTL_SECONDS cfg) (redis w) = (Inl e, x)" "ordinary e"
  shows "is_new S cfg i w = (Inr True, tick IDEMPOTENCY_CHECK_LATENCY (w\<lparr>redis := x\<rparr>))"
  using assms by (simp add: is_new_def io_defs)

lemma is_new_frame:
  assumes "is_new S cfg i w = (r, w')"
  shows "kafka w' = kafka w \<and> postgres w' = postgres w \<and> host w' = host w \<and>
    pool_set w' = pool_set w \<and> gauges (met w') = gauges (met w) \<and>
    (\<forall>c. tally c w' = tally c w + (if c = EVENTS_DUPLICATE \<and> r = Inr False then 1 else 0))"
  using assms
  by (auto simp: is_new_def io_defs tick_def bump_def split: prod.splits sum.splits if_splits)

lemma release_frame:
  assumes "release S i w = (r, w')"
  shows "kafka w' = kafka w \<and> postgres w' = postgres w \<and> host w' = host w \<and>
    pool_set w' = pool_set w \<and> met w' = met w"
  using assms by (auto simp: release_def io_defs split: prod.splits sum.splits if_splits)

lemma batch_outcomes_eval:
  "batch_outcomes rs w =
     (Inr (map snd rs), ((bump EVENTS_DUPLICATE) ^^ length (filter (\<lambda>r. \<not> snd r) rs)) w)"
  by (induction rs arbitrary: w) (auto simp: io_defs funpow_swap1)

lemma are_new_batch_answers:
  assumes "r_pipeline (redis_of S)
      (map (\<lambda>i. (idempotency_key (py_of S) i, lit ''1'', W_IDEMPOTENCY_TTL_SECONDS cfg)) is)
      (redis w) = (Inr bs, x)" "is \<noteq> []" "length bs = length is"
  shows "are_new_batch S cfg is w = (Inr bs, tick IDEMPOTENCY_CHECK_LATENCY
     (((bump EVENTS_DUPLICATE) ^^ length (filter Not bs)) (w\<lparr>redis := x\<rparr>)))"
proof -
  have "length (filter (\<lambda>r. \<not> snd r) (zip is bs)) = length (filter Not bs)"
    using assms(3)[symmetric] by (induction "is" bs rule: list_induct2) auto
  then show ?thesis using assms by (simp add: are_new_batch_def batch_outcomes_eval io_defs)
qed

context uncancelled
begin

lemma is_new_quiet [raises_intros]: "quiet (is_new S cfg i)"
  unfolding is_new_def by (intro raises_intros)

lemma release_quiet [raises_intros]: "quiet (release S i)"
  unfolding release_def by (intro raises_intros)

end

section \<open>Claims\<close>

fun firsts :: "'a list \<Rightarrow> 'a list \<Rightarrow> bool list" where
  "firsts seen [] = []"
| "firsts seen (k # ks) = (k \<notin> set seen) # firsts (k # seen) ks"

lemma length_firsts [simp]: "length (firsts seen ks) = length ks"
  by (induction ks arbitrary: seen) auto

text \<open>The answer at a position is whether the key is there for the first time, so each key is new
  exactly once.\<close>

lemma nth_firsts: "i < length ks \<Longrightarrow> firsts seen ks ! i \<longleftrightarrow> ks ! i \<notin> set seen \<union> set (take i ks)"
  by (induction ks arbitrary: seen i) (auto simp: nth_Cons take_Cons split: nat.splits)

definition claimed :: "('r \<Rightarrow> int \<Rightarrow> pystr \<Rightarrow> pystr option) \<Rightarrow> ('r \<Rightarrow> int) \<Rightarrow> int \<Rightarrow> pystr set \<Rightarrow>
    pystr list \<Rightarrow> 'r \<Rightarrow> bool" where
  "claimed value_at clock stop U seen x \<longleftrightarrow>
     (\<forall>k \<in> U. if k \<in> set seen then (\<forall>t. clock x \<le> t \<and> t < stop \<longrightarrow> value_at x t k \<noteq> None)
              else (\<forall>t \<ge> clock x. value_at x t k = None))"

lemma claimed_step:
  assumes "claimed value_at clock stop U seen x" "claim_step value_at clock k v ttl b x x'"
    and "k \<in> U" "clock x' < stop" "stop \<le> clock x + ttl"
  shows "b \<longleftrightarrow> k \<notin> set seen" and "claimed value_at clock stop U (k # seen) x'"
proof -
  have late: "clock x \<le> clock x'" using assms(2) by (simp add: claim_step_def)
  have "k \<in> set seen \<longleftrightarrow> value_at x (clock x') k \<noteq> None"
    using assms(1,3,4) late by (auto simp: claimed_def split: if_splits)
  then show b: "b \<longleftrightarrow> k \<notin> set seen"
    using assms(2) by (auto simp: claim_step_def split: if_splits)
  show "claimed value_at clock stop U (k # seen) x'"
  proof (cases b)
    case True
    then have "\<forall>t \<ge> clock x'. \<forall>j. value_at x' t j =
        (if j = k then (if t < clock x' + ttl then Some v else None) else value_at x t j)"
      using assms(2) by (simp add: claim_step_def upd_def)
    with assms late show ?thesis by (auto simp: claimed_def)
  next
    case False
    with assms(2) have "same value_at clock x x'" by (simp add: claim_step_def)
    then have "value_at x' t j = value_at x t j" if "clock x' \<le> t" for t j
      using that by (simp add: same_def)
    with assms(1) late b False show ?thesis by (simp add: claimed_def insert_absorb)
  qed
qed

lemma piped_clock: "piped value_at clock cs bs x x' \<Longrightarrow> clock x \<le> clock x'"
  by (induction value_at clock cs bs x x' rule: piped.induct)
     (force simp: same_def claim_step_def)+

lemma piped_length: "piped value_at clock cs bs x x' \<Longrightarrow> length bs = length cs"
  by (induction value_at clock cs bs x x' rule: piped.induct) auto

lemma piped_firsts:
  assumes "piped value_at clock (map (\<lambda>k. (k, v, ttl)) ks) bs x x'"
    and "claimed value_at clock stop U seen x" "set ks \<subseteq> U" "clock x' < stop" "stop \<le> clock x + ttl"
  shows "bs = firsts seen ks"
  using assms
proof (induction ks arbitrary: bs x seen)
  case Nil
  then show ?case by (cases bs) auto
next
  case (Cons k ks)
  from Cons.prems(1) obtain b bs' y where bs: "bs = b # bs'"
    and y: "claim_step value_at clock k v ttl b x y"
    and rest: "piped value_at clock (map (\<lambda>k. (k, v, ttl)) ks) bs' y x'"
    by (cases bs) auto
  have "clock x \<le> clock y" using y by (simp add: claim_step_def)
  moreover have "clock y \<le> clock x'" using rest by (rule piped_clock)
  ultimately have "b \<longleftrightarrow> k \<notin> set seen" "claimed value_at clock stop U (k # seen) y"
    "stop \<le> clock y + ttl"
    using claimed_step [OF Cons.prems(2) y, of] Cons.prems by auto
  with Cons.IH [OF rest this(2)] Cons.prems bs show ?case by simp
qed

section \<open>Sequences of checks\<close>

fun new_run :: "('r, 'p, 'k, 'h) services \<Rightarrow> worker_settings \<Rightarrow> json list \<Rightarrow>
    (('r, 'p, 'k, 'h) world, bool list) io" where
  "new_run S cfg [] = ret []"
| "new_run S cfg (i # is) =
     bind (is_new S cfg i) (\<lambda>b. bind (new_run S cfg is) (\<lambda>bs. ret (b # bs)))"

text \<open>While Redis answers, no call fails.\<close>

definition redis_answers :: "'r redis_api \<Rightarrow> bool" where
  "redis_answers A \<longleftrightarrow> (\<forall>k v ttl x. \<exists>b x'. r_set_nx A k v ttl x = (Inr b, x')) \<and>
     (\<forall>cs x. \<exists>bs x'. r_pipeline A cs x = (Inr bs, x'))"

lemma new_run_Cons:
  assumes "redis_answers (redis_of S)" "new_run S cfg (i # is) w = (Inr bs, w')"
  obtains b x bs' w1 where
    "r_set_nx (redis_of S) (idempotency_key (py_of S) i) (lit ''1'')
       (W_IDEMPOTENCY_TTL_SECONDS cfg) (redis w) = (Inr b, x)"
    "redis w1 = x" "new_run S cfg is w1 = (Inr bs', w')" "bs = b # bs'"
    "tally EVENTS_DUPLICATE w1 = tally EVENTS_DUPLICATE w + (if b then 0 else 1)"
proof -
  from assms(1) obtain b x where x: "r_set_nx (redis_of S) (idempotency_key (py_of S) i) (lit ''1'')
       (W_IDEMPOTENCY_TTL_SECONDS cfg) (redis w) = (Inr b, x)"
    unfolding redis_answers_def by blast
  let ?w1 = "tick IDEMPOTENCY_CHECK_LATENCY
     (if b then w\<lparr>redis := x\<rparr> else bump EVENTS_DUPLICATE (w\<lparr>redis := x\<rparr>))"
  from is_new_answers [OF x] assms(2) obtain bs' where
    "new_run S cfg is ?w1 = (Inr bs', w')" "bs = b # bs'"
    by (auto simp: bind_def ret_def split: prod.splits sum.splits)
  with x show thesis by (intro that [of b x ?w1 bs']) auto
qed

lemma tally_bumps: "tally c ((bump d ^^ n) w) = tally c w + (if c = d then n else 0)"
  by (induction n) auto

lemma bumps_redis: "redis ((bump d ^^ n) w) = redis w"
  by (induction n) auto

context redis_store
begin

lemma set_nx_clock: "r_set_nx A k v ttl x = (r, x') \<Longrightarrow> clock x \<le> clock x'"
  using set_ok [of k v ttl x] set_fails [of k v ttl x] by (cases r) (auto simp: claim_step_def)

end

lemma new_run_clock:
  assumes "redis_store (redis_of S) value_at clock" "redis_answers (redis_of S)"
    and "new_run S cfg is w = (Inr bs, w')"
  shows "clock (redis w) \<le> clock (redis w')"
  using assms(3)
proof (induction "is" arbitrary: w bs)
  case Nil
  then show ?case by (simp add: io_defs)
next
  case (Cons i "is")
  from new_run_Cons [OF assms(2) Cons.prems] Cons.IH
    redis_store.set_nx_clock [OF assms(1)]
  show ?case by (metis order.trans)
qed

lemma new_run_firsts:
  assumes "redis_store (redis_of S) value_at clock" "redis_answers (redis_of S)"
    and "new_run S cfg is w = (Inr bs, w')"
    and "claimed value_at clock stop U seen (redis w)" "idempotency_key (py_of S) ` set is \<subseteq> U"
    and "clock (redis w') < stop" "stop \<le> clock (redis w) + W_IDEMPOTENCY_TTL_SECONDS cfg"
  shows "bs = firsts seen (map (idempotency_key (py_of S)) is) \<and>
    tally EVENTS_DUPLICATE w' = tally EVENTS_DUPLICATE w + length (filter Not bs)"
  using assms(3-)
proof (induction "is" arbitrary: w bs seen)
  case Nil
  then show ?case by (simp add: io_defs)
next
  case (Cons i "is")
  let ?k = "idempotency_key (py_of S) i"
  from new_run_Cons [OF assms(2) Cons.prems(1)] obtain b bs' w1 where
    set_nx: "r_set_nx (redis_of S) ?k (lit ''1'') (W_IDEMPOTENCY_TTL_SECONDS cfg) (redis w)
      = (Inr b, redis w1)"
    and rest: "new_run S cfg is w1 = (Inr bs', w')" and bs: "bs = b # bs'"
    and dup: "tally EVENTS_DUPLICATE w1 = tally EVENTS_DUPLICATE w + (if b then 0 else 1)"
    by metis
  note step = redis_store.set_ok [OF assms(1) set_nx]
  have times: "clock (redis w) \<le> clock (redis w1)" "clock (redis w1) < stop"
    using step new_run_clock [OF assms(1,2) rest] Cons.prems(4) by (auto simp: claim_step_def)
  have "?k \<in> U" using Cons.prems(3) by simp
  note new = claimed_step [OF Cons.prems(2) step this times(2) Cons.prems(5)]
  from Cons.IH [OF rest new(2)] Cons.prems times
  have "bs' = firsts (?k # seen) (map (idempotency_key (py_of S)) is) \<and>
    tally EVENTS_DUPLICATE w' = tally EVENTS_DUPLICATE w1 + length (filter Not bs')" by auto
  with new(1) bs dup show ?case by simp
qed

section \<open>The claim\<close>

text \<open>No key of the ids is there, now or later.\<close>

definition unclaimed :: "('r \<Rightarrow> int \<Rightarrow> pystr \<Rightarrow> pystr option) \<Rightarrow> ('r \<Rightarrow> int) \<Rightarrow>
    ('r, 'p, 'k, 'h) services \<Rightarrow> json list \<Rightarrow> ('r, 'p, 'k, 'h) world \<Rightarrow> bool" where
  "unclaimed value_at clock S is w \<longleftrightarrow> (\<forall>i \<in> set is. \<forall>t \<ge> clock (redis w).
     value_at (redis w) t (idempotency_key (py_of S) i) = None)"

lemma unclaimed_claimed:
  "unclaimed value_at clock S is w \<Longrightarrow>
   claimed value_at clock stop (idempotency_key (py_of S) ` set is) [] (redis w)"
  by (auto simp: unclaimed_def claimed_def)

text \<open>C15: An event id is claimed once. While Redis answers, a sequence of checks that ends within the
  time to live of the claims answers, for ids that are not claimed at its start, exactly whether the
  key of the id occurs for the first time in the sequence, and counts the others as duplicates. This
  holds for checks of all workers, as they share the Redis.\<close>

theorem idempotency_claims_once:
  assumes "redis_store (redis_of S) value_at clock" "redis_answers (redis_of S)"
    and "unclaimed value_at clock S is w" "new_run S cfg is w = (Inr bs, w')"
    and "clock (redis w') < clock (redis w) + W_IDEMPOTENCY_TTL_SECONDS cfg"
  shows "bs = firsts [] (map (idempotency_key (py_of S)) is) \<and>
    tally EVENTS_DUPLICATE w' = tally EVENTS_DUPLICATE w + length (filter Not bs)"
  by (rule new_run_firsts [OF assms(1,2,4) unclaimed_claimed [OF assms(3)] order.refl assms(5)
      order.refl])

text \<open>C25: The pipelined check is equivalent to the checks one by one: under the same conditions both
  give the same answers and count the same duplicates.\<close>

theorem batch_check_equivalent:
  assumes "redis_store (redis_of S) value_at clock" "redis_answers (redis_of S)"
    and "unclaimed value_at clock S is w" "new_run S cfg is w = (Inr bs, w1)"
    and "clock (redis w1) < clock (redis w) + W_IDEMPOTENCY_TTL_SECONDS cfg"
    and "are_new_batch S cfg is w = (r, w2)"
    and "clock (redis w2) < clock (redis w) + W_IDEMPOTENCY_TTL_SECONDS cfg"
  shows "r = Inr bs \<and> tally EVENTS_DUPLICATE w2 = tally EVENTS_DUPLICATE w1"
proof (cases "is = []")
  case True
  with assms(4,6) show ?thesis by (auto simp: are_new_batch_def io_defs)
next
  case False
  let ?key = "idempotency_key (py_of S)" and ?ttl = "W_IDEMPOTENCY_TTL_SECONDS cfg"
  from assms(2) obtain cs x where x: "r_pipeline (redis_of S)
      (map (\<lambda>i. (?key i, lit ''1'', ?ttl)) is) (redis w) = (Inr cs, x)"
    unfolding redis_answers_def by blast
  from redis_store.pipeline_ok [OF assms(1) x]
  have piped: "piped value_at clock (map (\<lambda>k. (k, lit ''1'', ?ttl)) (map ?key is)) cs (redis w) x"
    by (simp add: comp_def)
  have len: "length cs = length is" using piped by (rule piped_length [THEN trans]) simp
  from are_new_batch_answers [OF x False len] assms(6)
  have r: "r = Inr cs" and w2: "w2 = tick IDEMPOTENCY_CHECK_LATENCY
      ((bump EVENTS_DUPLICATE ^^ length (filter Not cs)) (w\<lparr>redis := x\<rparr>))" by auto
  have "redis w2 = x" by (simp add: w2 bumps_redis)
  with piped_firsts [OF piped unclaimed_claimed [OF assms(3)]] assms(7)
  have "cs = firsts [] (map ?key is)" by simp
  with new_run_firsts [OF assms(1,2,4) unclaimed_claimed [OF assms(3)] order.refl assms(5) order.refl] r w2
  show ?thesis by (simp add: tally_bumps)
qed

text \<open>Three checks of two ids.\<close>

definition twice :: "json list" where
  "twice = [JStr (lit ''a''), JStr (lit ''b''), JStr (lit ''a'')]"

lemma good_redis_answers: "redis_answers (redis_of good_services)"
proof -
  have "\<exists>bs x'. rr_pipeline cs x = (Inr bs, x')" for cs x
    using quiet_result [OF raises_rr_pipeline] by metis
  moreover have "\<exists>b x'. rr_set_nx k v ttl x = (Inr b, x')" for k v ttl x
    using quiet_result [OF raises_rr_set_nx] by metis
  ultimately show ?thesis
    by (simp add: redis_answers_def good_services_def ingest_services_def ref_redis_def rr_call_def)
qed

lemma good_redis_store: "redis_store (redis_of good_services) rr_at rr_now"
  using rr.redis_store_axioms [of 1 "\<lambda>_. None"] by (simp add: good_services_def ingest_services_def)

lemma unclaimed_empty: "unclaimed rr_at rr_now S is ingest_world"
  by (simp add: unclaimed_def ingest_world_def empty_redis_def rr_at_def)

lemma twice_run:
  "\<exists>w1. new_run good_services worker_defaults twice ingest_world = (Inr [True, True, False], w1) \<and>
     rr_now (redis w1) = 3"
  "\<exists>r w2. are_new_batch good_services worker_defaults twice ingest_world = (r, w2) \<and>
     rr_now (redis w2) = 1"
  by (simp_all add: twice_def are_new_batch_def batch_outcomes_eval is_new_def io_defs ref_defs
      worker_defaults_def idempotency_key_def Let_def tick_def bump_def)

theorem idempotency_claims_once_witness:
  "\<exists>w1. new_run good_services worker_defaults twice ingest_world = (Inr [True, True, False], w1) \<and>
     tally EVENTS_DUPLICATE w1 = 1"
proof -
  from twice_run(1) obtain w1 where
    run: "new_run good_services worker_defaults twice ingest_world = (Inr [True, True, False], w1)"
    "rr_now (redis w1) = 3" by blast
  from idempotency_claims_once [OF good_redis_store good_redis_answers unclaimed_empty run(1)] run
  show ?thesis
    by (auto simp: worker_defaults_def ingest_world_def empty_redis_def no_metrics_def)
qed

theorem batch_check_equivalent_witness:
  "\<exists>w2. are_new_batch good_services worker_defaults twice ingest_world = (Inr [True, True, False], w2)"
proof -
  from twice_run obtain w1 r w2 where
    run: "new_run good_services worker_defaults twice ingest_world = (Inr [True, True, False], w1)"
    "rr_now (redis w1) = 3" "are_new_batch good_services worker_defaults twice ingest_world = (r, w2)"
    "rr_now (redis w2) = 1" by blast
  from batch_check_equivalent [OF good_redis_store good_redis_answers unclaimed_empty run(1) _ run(3)] run
  show ?thesis by (auto simp: worker_defaults_def ingest_world_def empty_redis_def)
qed

end
