(* ===== verification/Worker_Handlers.thy ===== *)
theory Worker_Handlers
  imports Retry Idempotency Pipeline
begin

text \<open>
  \<open>apps/worker/handlers.py\<close> and \<open>apps/worker/processor.py\<close>: the context of the worker's pipeline, its
  four handlers, and \<open>EventProcessor.process\<close>.

  The raw event is whatever JSON value the Kafka record holds. The variable \<open>retry_count\<close>, which the
  inner function of \<open>PersistenceHandler\<close> assigns, is one more component of the state while that
  handler runs (\<open>with_var\<close>).
\<close>

section \<open>The context\<close>

record worker_context =
  wc_raw_event :: json
  wc_trace_id :: json
  wc_kafka_partition :: "int option"
  wc_kafka_offset :: "int option"
  wc_event :: "iot_event option"
  wc_start_time :: rat
  wc_processed :: bool

definition wc_get_id :: "worker_context \<Rightarrow> json" where
  "wc_get_id c = wc_trace_id c"

definition wc_set_id :: "pystr \<Rightarrow> worker_context \<Rightarrow> worker_context" where
  "wc_set_id u c = c\<lparr>wc_trace_id := JStr u\<rparr>"

interpretation wc: has_trace_id wc_get_id wc_set_id
  by unfold_locales (simp add: wc_get_id_def wc_set_id_def)

type_synonym ('r, 'p, 'k, 'h) worker_handler = "(worker_context, ('r, 'p, 'k, 'h) world) handler"

section \<open>The handlers\<close>

definition IdempotencyHandler :: "('r, 'p, 'k, 'h) services \<Rightarrow> worker_settings \<Rightarrow>
    ('r, 'p, 'k, 'h) worker_handler" where
  "IdempotencyHandler S cfg next_call =
     bind (gets (\<lambda>(c, w). wc_raw_event c)) (\<lambda>raw_event.
     bind (of_result (dict_get raw_event (lit ''event_id''))) (\<lambda>i.
       case i of
         None \<Rightarrow> next_call
       | Some i \<Rightarrow>
           if \<not> truthy i then next_call
           else bind (eff (is_new S cfg i)) (\<lambda>new. if \<not> new then ret () else next_call)))"

text \<open>\<open>self._dlq.send(original_event=context.raw_event, ...)\<close>, as two handlers call it.\<close>

definition send_context :: "('r, 'p, 'k, 'h) services \<Rightarrow> worker_settings \<Rightarrow> pystr \<Rightarrow> pystr \<Rightarrow> int \<Rightarrow>
    (worker_context \<times> ('r, 'p, 'k, 'h) world, unit) io" where
  "send_context S cfg etype emessage retries =
     bind (gets fst) (\<lambda>c.
       eff (dlq_send S cfg (wc_raw_event c) etype emessage retries dlq_topic_default
              (wc_kafka_partition c) (wc_kafka_offset c)))"

definition WorkerValidationHandler :: "('r, 'p, 'k, 'h) services \<Rightarrow> worker_settings \<Rightarrow>
    ('r, 'p, 'k, 'h) worker_handler" where
  "WorkerValidationHandler S cfg next_call =
     bind (gets (\<lambda>(c, w). wc_raw_event c)) (\<lambda>raw_event.
     bind (of_result (dict_get raw_event (lit ''event_id''))) (\<lambda>_.
       try_except
         (bind (of_result (IoTEvent_of (py_of S) raw_event)) (\<lambda>ev.
            andthen (modify (\<lambda>(c, w). (c\<lparr>wc_event := Some ev\<rparr>, w))) next_call))
         (catching ''Exception'' (\<lambda>exc. send_context S cfg (lit ''VALIDATION_ERROR'') (msg exc) 0))))"

text \<open>The inner function \<open>_insert\<close>; the first component of the context is \<open>retry_count\<close>.\<close>

definition insert_once :: "('r, 'p, 'k, 'h) services \<Rightarrow> iot_event \<Rightarrow>
    ((int \<times> worker_context) \<times> ('r, 'p, 'k, 'h) world, unit) io" where
  "insert_once S ev =
     andthen (modify (\<lambda>((n, c), w). ((n + 1, c), w)))
       (eff (timed DB_WRITE_LATENCY
         (andthen (insert_event S (event_id ev) (device_id ev) (event_type ev) (schema_version ev)
                     (payload ev) (metadata ev) (timestamp ev))
           (ret ()))))"

definition give_up :: "('r, 'p, 'k, 'h) services \<Rightarrow> worker_settings \<Rightarrow> iot_event \<Rightarrow> pystr \<Rightarrow> exn \<Rightarrow>
    ((int \<times> worker_context) \<times> ('r, 'p, 'k, 'h) world, unit) io" where
  "give_up S cfg ev etype exc =
     andthen (eff (release S (JStr (event_id ev))))
       (bind (gets (\<lambda>((n, c), w). n)) (\<lambda>n. up (send_context S cfg etype (msg exc) n)))"

definition PersistenceHandler :: "('r, 'p, 'k, 'h) services \<Rightarrow> worker_settings \<Rightarrow>
    ('r, 'p, 'k, 'h) worker_handler" where
  "PersistenceHandler S cfg next_call =
     bind (gets (\<lambda>(c, w). wc_event c)) (\<lambda>e.
       case e of
         None \<Rightarrow> ret ()
       | Some ev \<Rightarrow>
           with_var 0
             (try_except
               (andthen (with_retry S cfg (insert_once S ev)) (up next_call))
               (\<lambda>exc.
                  if isinstance exc ''PostgresError'' then
                    andthen (eff (inc (DB_ERRORS (exn_name exc))))
                      (give_up S cfg ev (lit ''DB_ERROR'') exc)
                  else if isinstance exc ''Exception'' then give_up S cfg ev (exn_name exc) exc
                  else raise exc)))"

definition DeviceStateHandler :: "('r, 'p, 'k, 'h) services \<Rightarrow> ('r, 'p, 'k, 'h) worker_handler" where
  "DeviceStateHandler S next_call =
     bind (gets (\<lambda>(c, w). wc_event c)) (\<lambda>e.
       case e of
         None \<Rightarrow> ret ()
       | Some ev \<Rightarrow>
           andthen
             (eff (try_except
               (upsert_device_state S (device_id ev) (event_id ev) (event_type ev) (timestamp ev)
                  (payload ev))
               (catching ''Exception'' (\<lambda>exc. ret ()))))
           (andthen (eff (inc (EVENTS_PROCESSED (event_type ev))))
           (bind (eff (ask_host (h_monotonic (host_of S)))) (\<lambda>_.
           (andthen (modify (\<lambda>(c, w). (c\<lparr>wc_processed := True\<rparr>, w)))
             next_call)))))"

section \<open>The processor\<close>

definition worker_handlers :: "('r, 'p, 'k, 'h) services \<Rightarrow> worker_settings \<Rightarrow>
    ('r, 'p, 'k, 'h) worker_handler list" where
  "worker_handlers S cfg =
     foldl pipeline_use []
       [IdempotencyHandler S cfg, WorkerValidationHandler S cfg, PersistenceHandler S cfg,
        DeviceStateHandler S]"

definition new_worker_context :: "json \<Rightarrow> json \<Rightarrow> int option \<Rightarrow> int option \<Rightarrow> rat \<Rightarrow> worker_context" where
  "new_worker_context raw trace part off t0 = \<lparr>wc_raw_event = raw, wc_trace_id = trace,
     wc_kafka_partition = part, wc_kafka_offset = off, wc_event = None, wc_start_time = t0,
     wc_processed = False\<rparr>"

text \<open>An action on a context that is a local variable.\<close>

definition in_context :: "'c \<Rightarrow> ('c \<times> 'w, 'a) io \<Rightarrow> ('w, 'a) io" where
  "in_context c m = (\<lambda>w. case m (c, w) of (r, (_, w')) \<Rightarrow> (r, w'))"

definition worker_execute :: "('r, 'p, 'k, 'h) services \<Rightarrow> worker_settings \<Rightarrow>
    (worker_context \<times> ('r, 'p, 'k, 'h) world, unit) io" where
  "worker_execute S cfg =
     execute wc_get_id wc_set_id (ask_host (h_uuid4 (host_of S))) (worker_handlers S cfg)"

definition process :: "('r, 'p, 'k, 'h) services \<Rightarrow> worker_settings \<Rightarrow> json \<Rightarrow> int option \<Rightarrow> int option \<Rightarrow>
    (('r, 'p, 'k, 'h) world, unit) io" where
  "process S cfg raw_event part off =
     andthen (add_gauge ACTIVE_TASKS 1)
       (try_finally
         (timed PROCESSING_LATENCY
           (bind (of_result (dict_get raw_event (lit ''_trace_id''))) (\<lambda>t.
            bind (ask_host (h_monotonic (host_of S))) (\<lambda>t0.
              in_context (new_worker_context raw_event (get_default t (JStr [])) part off t0)
                (worker_execute S cfg)))))
         (add_gauge ACTIVE_TASKS (- 1)))"

lemma worker_handlers_list:
  "worker_handlers S cfg = [IdempotencyHandler S cfg, WorkerValidationHandler S cfg,
     PersistenceHandler S cfg, DeviceStateHandler S]"
  by (simp add: worker_handlers_def pipeline_use_def)

lemma leads_in_context [leads_intros]: "leads (on_snd R) m \<Longrightarrow> leads R (in_context c m)"
  by (fastforce simp: leads_def in_context_def on_snd_def split: prod.splits)

lemma raises_in_context [raises_intros]: "raises P m \<Longrightarrow> raises P (in_context c m)"
  by (fastforce simp: raises_def in_context_def split: prod.splits)

section \<open>What every run of the processor keeps\<close>

text \<open>The retry loop: what it does to a state is what the retried action does, and what the backoff and
  the attempt counter do. If it returns, the last thing that happened is a run of the action that
  returned.\<close>

lemma leads_retry_attempt:
  assumes "preorder_rel Q" "leads Q m" "\<And>ty. leads Q (eff (inc (RETRY_ATTEMPTS ty)))"
    and "\<And>n. leads Q (eff (bind (compute_delay S cfg n) (\<lambda>delay. on_host (h_sleep (host_of S) delay))))"
  shows "leads Q (retry_attempt S cfg m n)"
  unfolding retry_attempt_def by (intro leads_intros assms)

lemma leads_retry_loop:
  assumes "preorder_rel Q" "\<And>n. leads Q (retry_attempt S cfg m n)"
  shows "leads Q (retry_loop S cfg m last_exc ns)"
proof (induction ns arbitrary: last_exc)
  case Nil
  then show ?case using assms(1) by (cases last_exc) (auto intro: leads_raise)
next
  case (Cons n ns)
  have "leads Q (case r of Inr x \<Rightarrow> ret x | Inl exc \<Rightarrow> retry_loop S cfg m (Some exc) ns)" for r
    using Cons assms(1) by (cases r) (auto intro: leads_ret)
  then show ?case using assms by (simp add: leads_bind)
qed

lemma leads_with_retry:
  assumes "preorder_rel Q" "leads Q m" "\<And>ty. leads Q (eff (inc (RETRY_ATTEMPTS ty)))"
    and "\<And>n. leads Q (eff (bind (compute_delay S cfg n) (\<lambda>delay. on_host (h_sleep (host_of S) delay))))"
  shows "leads Q (with_retry S cfg m)"
  unfolding with_retry_def by (intro leads_retry_loop leads_retry_attempt assms)

lemma retry_attempt_Inr:
  assumes "retry_attempt S cfg m n s = (Inr (Inr x), s')" shows "m s = (Inr x, s')"
  using assms
  by (auto simp: retry_attempt_def try_except_def bind_def ret_def raise_def andthen_def
      split: prod.splits sum.splits if_splits)

lemma retry_loop_Inr:
  assumes "preorder_rel R" "\<And>n. leads R (retry_attempt S cfg m n)"
    and "retry_loop S cfg m last_exc ns s = (Inr x, s')"
  shows "\<exists>s1. R s s1 \<and> m s1 = (Inr x, s')"
  using assms(3)
proof (induction ns arbitrary: last_exc s)
  case Nil
  then show ?case by (simp add: raise_def split: option.splits)
next
  case (Cons n ns)
  from Cons.prems obtain r s1 where r: "retry_attempt S cfg m n s = (Inr r, s1)"
    and next_step: "(case r of Inr x \<Rightarrow> ret x | Inl exc \<Rightarrow> retry_loop S cfg m (Some exc) ns) s1 = (Inr x, s')"
    by (auto simp: bind_def split: prod.splits sum.splits)
  show ?case
  proof (cases r)
    case (Inr y)
    with next_step r have "m s = (Inr x, s')" by (auto simp: ret_def dest: retry_attempt_Inr)
    moreover have "R s s" using assms(1) unfolding preorder_rel_def by blast
    ultimately show ?thesis by blast
  next
    case (Inl e)
    with next_step have "retry_loop S cfg m (Some e) ns s1 = (Inr x, s')" by simp
    from Cons.IH [OF this] obtain s2 where "R s1 s2" "m s2 = (Inr x, s')" by blast
    with leadsD [OF assms(2) r] assms(1) show ?thesis unfolding preorder_rel_def by blast
  qed
qed

text \<open>\<open>retry_loop\<close> raises what the retried action raises, what the sleep raises, and AssertionError when
  there is no attempt to be made.\<close>

lemma raises_with_retry:
  assumes "raises P m" "\<And>d. raises P (h_sleep (host_of S) d)" "P AssertionError"
  shows "raises P (with_retry S cfg m)"
proof -
  have attempt: "raises P (retry_attempt S cfg m n)" for n
    unfolding retry_attempt_def compute_delay_def Let_def
    by (rule raises_try [where Q = P]) (intro raises_intros assms | assumption)+
  have failed: "P e" if "retry_attempt S cfg m n s = (Inr (Inl e), s')" for n s e s'
    using assms(1) that
    by (auto simp: retry_attempt_def try_except_def bind_def ret_def raise_def andthen_def
        split: prod.splits sum.splits if_splits dest: raisesD)
  have "raises P (retry_loop S cfg m last_exc ns)" if "\<And>e. last_exc = Some e \<Longrightarrow> P e" for last_exc ns
    using that
  proof (induction ns arbitrary: last_exc)
    case Nil
    then show ?case using assms(3) by (cases last_exc) (auto intro: raises_raise)
  next
    case (Cons n ns)
    show ?case
    proof (rule raisesI)
      fix s e s' assume "retry_loop S cfg m last_exc (n # ns) s = (Inl e, s')"
      then consider "retry_attempt S cfg m n s = (Inl e, s')"
        | e1 s1 where "retry_attempt S cfg m n s = (Inr (Inl e1), s1)"
            "retry_loop S cfg m (Some e1) ns s1 = (Inl e, s')"
        by (auto simp: bind_def ret_def split: prod.splits sum.splits)
      then show "P e"
      proof cases
        case 1
        then show ?thesis by (rule raisesD [OF attempt])
      next
        case 2
        from failed [OF 2(1)] have "raises P (retry_loop S cfg m (Some e1) ns)" by (intro Cons.IH) simp
        from raisesD [OF this 2(2)] show ?thesis .
      qed
    qed
  qed
  from this [where last_exc = None] show ?thesis by (simp add: with_retry_def)
qed

text \<open>The calls that the worker makes outside its own code, and its metrics: a relation that each of
  them respects is respected by the handlers and, as far as the gauge of active tasks goes, by
  \<open>process\<close>.\<close>

locale worker_calls =
  fixes S :: "('r, 'p, 'k, 'h) services"
    and R :: "('r, 'p, 'k, 'h) world \<Rightarrow> ('r, 'p, 'k, 'h) world \<Rightarrow> bool"
  assumes pre [leads_intros]: "preorder_rel R"
    and calls [leads_intros]:
      "leads R (on_redis (r_set_nx (redis_of S) k v ttl))" "leads R (on_redis (r_delete (redis_of S) k))"
      "leads R (on_pg (pg_execute (pg_of S) q))"
      "leads R (on_host (h_sleep (host_of S) d))"
      "leads R (ask_host (h_uuid4 (host_of S)))" "leads R (ask_host (h_now_iso (host_of S)))"
      "leads R (ask_host (h_monotonic (host_of S)))" "leads R (ask_host (h_uniform (host_of S) a b))"
    and metrics [leads_intros]:
      "leads R (inc (RETRY_ATTEMPTS ty))" "leads R (inc (DB_ERRORS ty))" "leads R (observe h)"
begin

lemma ctx_pre [leads_intros]: "preorder_rel (on_snd R)"
  by (rule preorder_on_snd [OF pre])

lemma timed_leads [leads_intros]: "leads R m \<Longrightarrow> leads R (timed h m)"
  unfolding timed_def by (intro leads_finally pre metrics)

lemma release_leads [leads_intros]: "leads R (release S i)"
  unfolding release_def by (intro leads_intros)

lemma db_leads [leads_intros]:
  "leads R (insert_event S i d t v p m ts)" "leads R (upsert_device_state S d i t ts p)"
  unfolding insert_event_def upsert_device_state_def by (intro leads_intros)+

lemma backoff_leads [leads_intros]:
  "leads R (bind (compute_delay S cfg n) (\<lambda>delay. on_host (h_sleep (host_of S) delay)))"
  unfolding compute_delay_def Let_def by (intro leads_intros)

lemma with_retry_leads [leads_intros]:
  "leads (on_snd R) m \<Longrightarrow> leads (on_snd R) (with_retry S cfg m)"
  by (rule leads_with_retry) (assumption | intro leads_intros)+

lemma insert_once_leads [leads_intros]: "leads (on_snd R) (insert_once S ev)"
  unfolding insert_once_def by (intro leads_intros) (simp split: prod.split)

end

locale worker_frame = worker_calls S R
  for S :: "('r, 'p, 'k, 'h) services"
    and R :: "('r, 'p, 'k, 'h) world \<Rightarrow> ('r, 'p, 'k, 'h) world \<Rightarrow> bool" +
  assumes sends [leads_intros]: "leads R (on_kafka (k_send_and_wait (kafka_of S) t jv kb))"
    and outcomes [leads_intros]:
    "leads R (inc EVENTS_DUPLICATE)" "leads R (inc (EVENTS_PROCESSED ty))" "leads R (inc (EVENTS_DLQ ty))"
begin

lemma is_new_leads [leads_intros]: "leads R (is_new S cfg i)"
  unfolding is_new_def by (intro leads_intros)

lemma dlq_send_leads [leads_intros]: "leads R (dlq_send S cfg ev et em rc tp pa off)"
  unfolding dlq_send_def record_dlq_event_def Let_def by (intro leads_intros)

lemma send_context_leads [leads_intros]: "leads (on_snd R) (send_context S cfg et em rc)"
  unfolding send_context_def by (intro leads_intros)

lemma give_up_leads [leads_intros]: "leads (on_snd R) (give_up S cfg ev et exc)"
  unfolding give_up_def by (intro leads_intros)

lemma IdempotencyHandler_leads:
  "leads (on_snd R) k \<Longrightarrow> leads (on_snd R) (IdempotencyHandler S cfg k)"
  unfolding IdempotencyHandler_def by (intro leads_intros) (auto intro!: leads_intros split: option.split)

lemma WorkerValidationHandler_leads:
  "leads (on_snd R) k \<Longrightarrow> leads (on_snd R) (WorkerValidationHandler S cfg k)"
  unfolding WorkerValidationHandler_def by (intro leads_intros) (simp split: prod.split)

lemma PersistenceHandler_leads:
  assumes "leads (on_snd R) k" shows "leads (on_snd R) (PersistenceHandler S cfg k)"
proof -
  have "leads (on_snd R) (with_var 0 (try_except (andthen (with_retry S cfg (insert_once S ev)) (up k))
      (\<lambda>exc. if isinstance exc ''PostgresError'' then
                andthen (eff (inc (DB_ERRORS (exn_name exc)))) (give_up S cfg ev (lit ''DB_ERROR'') exc)
              else if isinstance exc ''Exception'' then give_up S cfg ev (exn_name exc) exc
              else raise exc)))" for ev
    by (intro leads_intros assms)
  then show ?thesis
    unfolding PersistenceHandler_def
    by (intro leads_intros) (auto intro!: leads_intros assms split: option.split)
qed

lemma DeviceStateHandler_leads:
  assumes "leads (on_snd R) k" shows "leads (on_snd R) (DeviceStateHandler S k)"
proof -
  have "leads (on_snd R) (andthen
      (eff (try_except (upsert_device_state S (device_id ev) (event_id ev) (event_type ev) (timestamp ev)
          (payload ev)) (catching ''Exception'' (\<lambda>exc. ret ()))))
      (andthen (eff (inc (EVENTS_PROCESSED (event_type ev))))
      (bind (eff (ask_host (h_monotonic (host_of S)))) (\<lambda>_.
      (andthen (modify (\<lambda>(c, w). (c\<lparr>wc_processed := True\<rparr>, w))) k)))))" for ev
    by (intro leads_intros assms) (simp split: prod.split)
  then show ?thesis
    unfolding DeviceStateHandler_def
    by (intro leads_intros) (auto intro!: leads_intros assms split: option.split)
qed

lemmas handler_leads = IdempotencyHandler_leads WorkerValidationHandler_leads PersistenceHandler_leads
  DeviceStateHandler_leads

lemma worker_execute_leads [leads_intros]: "leads (on_snd R) (worker_execute S cfg)"
proof -
  have "leads (on_snd R) (dispatch (worker_handlers S cfg) 0)"
    unfolding worker_handlers_list dispatch_Cons dispatch_Nil
    by (intro handler_leads leads_ret ctx_pre)
  moreover have "leads (on_snd R) (ensure_trace wc_get_id wc_set_id (ask_host (h_uuid4 (host_of S))))"
    unfolding ensure_trace_def by (intro leads_intros) (simp split: prod.split)
  ultimately show ?thesis
    unfolding worker_execute_def execute_def by (auto intro!: leads_intros)
qed

lemma process_leads:
  "(\<And>v. leads R (add_gauge ACTIVE_TASKS v)) \<Longrightarrow> leads R (process S cfg raw part off)"
  unfolding process_def by (intro leads_intros)

end

section \<open>The relations\<close>

definition counters_grow :: "('r, 'p, 'k, 'h) world \<Rightarrow> ('r, 'p, 'k, 'h) world \<Rightarrow> bool" where
  "counters_grow w w' \<longleftrightarrow> (\<forall>c. tally c w \<le> tally c w')"

interpretation gauge_frame: worker_frame S same_gauges for S
  by unfold_locales
     (auto simp: same_gauges_def preorder_rel_def inc_def observe_def
       intro!: world_calls_same leads_modify)

interpretation counter_frame: worker_frame S counters_grow for S
  by unfold_locales
     (auto simp: counters_grow_def preorder_rel_def inc_def observe_def
       intro!: world_calls_same leads_modify intro: order.trans)

text \<open>A worker whose database is a PostgreSQL server with the schema: the laws of the server give the
  laws of the frame for the relation that the schema's constraints hold and no row is lost.\<close>

locale worker_database = pg_server "pg_of S" tables now_of
  for S :: "('r, 'p, 'k, 'h) services"
    and tables :: "'p \<Rightarrow> database"
    and now_of :: "'p \<Rightarrow> int"

sublocale worker_database \<subseteq> schema: worker_frame S "pg_evolves tables"
  by unfold_locales
     (intro preorder_pg_evolves leads_pg_elsewhere preorder_evolves leads_on_pg
       execute_evolves)+

context worker_database
begin

lemma schema_frame: "worker_frame S (pg_evolves tables)"
  by (rule schema.worker_frame_axioms)

end

interpretation good_db: worker_database good_worker rp_tables rp_now
  by (rule worker_database.intro [OF good_worker_pg])

lemma gauge_balanced:
  assumes "leads same_gauges m"
    and "andthen (add_gauge g 1) (try_finally m (add_gauge g (- 1))) w = (r, w')"
  shows "gauges (met w') = gauges (met w)"
proof -
  let ?w1 = "w\<lparr>met := (met w)\<lparr>gauges := (gauges (met w))(g := gauges (met w) g + 1)\<rparr>\<rparr>"
  obtain r2 w2 where run: "m ?w1 = (r2, w2)" by (cases "m ?w1")
  with assms(1) have "gauges (met w2) = gauges (met ?w1)" by (auto simp: same_gauges_def dest: leadsD)
  with assms(2) run show ?thesis
    by (auto simp: andthen_def bind_def try_finally_def add_gauge_def modify_def)
qed

text \<open>The gauge of active tasks is balanced: however processing an event ends, also by an exception
  or a cancellation, the gauge is what it was.\<close>

lemma process_balances_gauge: "gauges (met (snd (process S cfg raw part off w))) = gauges (met w)"
  unfolding process_def by (rule gauge_balanced [OF _ surjective_pairing]) (intro leads_intros)

text \<open>Processing an event, however it ends and however many of the database calls fail, keeps the
  constraints of the schema (keys distinct, every row in a partition, no state without a device) and
  loses no row.\<close>

lemma process_keeps_schema:
  assumes "pg_server (pg_of S) tables now_of"
  shows "(let db = tables (postgres w); db' = tables (postgres (snd (process S cfg raw part off w)))
    in grows db db' \<and> (wf_database db \<longrightarrow> wf_database db'))"
proof -
  have "worker_database S tables now_of" by (rule worker_database.intro [OF assms(1)])
  from worker_frame.process_leads [OF worker_database.schema_frame [OF this]]
  have "leads (pg_evolves tables) (process S cfg raw part off)"
    by (simp add: leads_pg_elsewhere(8) preorder_evolves)
  from leadsD [OF this surjective_pairing] show ?thesis by (simp add: pg_rel_def evolves_def Let_def)
qed

lemma process_keeps_schema_example:
  "wf_database (rp_tables (postgres (snd (process good_worker worker_defaults (JObj sample_dict)
     (Some 0) (Some 7) worker_world))))"
  using process_keeps_schema [OF good_worker_pg, of worker_world]
  by (simp add: Let_def worker_world_def fresh_pg_def migrated_def wf_database_def)

end
