(* ===== verification/Processor.thy ===== *)
theory Processor
  imports Worker_Handlers
begin

text \<open>
  What becomes of an event in the worker (\<open>EventProcessor.process\<close> over the handlers of
  \<open>Worker_Handlers\<close>).

  Each event ends in one of three ways, each with a counter of its own: it is a duplicate, it is
  processed, or it is a dead letter. The lemmas go through the pipeline from its last handler to
  its first and show for each that exactly one of these counters goes up; what is in the database
  and in Kafka for each of the three ends is the subject of the properties.
\<close>

section \<open>The outcome counters\<close>

fun outcome_counter :: "counter \<Rightarrow> bool" where
  "outcome_counter EVENTS_DUPLICATE = True"
| "outcome_counter (EVENTS_PROCESSED t) = True"
| "outcome_counter (EVENTS_DLQ t) = True"
| "outcome_counter _ = False"

definition one_outcome :: "counter \<Rightarrow> ('r, 'p, 'k, 'h) world \<Rightarrow> ('r, 'p, 'k, 'h) world \<Rightarrow> bool" where
  "one_outcome c w w' \<longleftrightarrow> outcome_counter c \<and>
     (\<forall>c'. outcome_counter c' \<longrightarrow> tally c' w' = tally c' w + (if c' = c then 1 else 0))"

text \<open>What does not concern the end of an event: no outcome is counted, nothing is sent to Kafka.\<close>

definition kept :: "('r, 'p, 'k, 'h) world \<Rightarrow> ('r, 'p, 'k, 'h) world \<Rightarrow> bool" where
  "kept w w' \<longleftrightarrow> (\<forall>c. outcome_counter c \<longrightarrow> tally c w' = tally c w) \<and> kafka w' = kafka w \<and>
     pool_set w' = pool_set w"

interpretation kept_calls: worker_calls S kept for S
  by unfold_locales
     (auto simp: kept_def preorder_rel_def inc_def observe_def intro!: world_calls_same leads_modify)

lemma one_outcome_after: "kept w w1 \<Longrightarrow> one_outcome c w1 w' \<Longrightarrow> one_outcome c w w'"
  by (simp add: kept_def one_outcome_def)

lemma kept_release: "release S i w = (r, w') \<Longrightarrow> kept w w' \<and> postgres w' = postgres w"
  using release_frame by (fastforce simp: kept_def)

lemma kept_is_new: "is_new S cfg i w = (Inr True, w') \<Longrightarrow> kept w w' \<and> postgres w' = postgres w"
  using is_new_frame by (fastforce simp: kept_def)

text \<open>The insertion that succeeded and the update of the device that followed it: \<open>w\<close> is the world when
  the processing of the event began, as far as the database is concerned.\<close>

definition persisted :: "('r, 'p, 'k, 'h) services \<Rightarrow> worker_settings \<Rightarrow> iot_event \<Rightarrow>
    ('r, 'p, 'k, 'h) world \<Rightarrow> ('r, 'p, 'k, 'h) world \<Rightarrow> bool" where
  "persisted S cfg ev w w' \<longleftrightarrow>
     (\<exists>c n c1 u w1 w2 r w3. postgres w1 = postgres w \<and> pool_set w1 = pool_set w \<and>
        with_retry S cfg (insert_once S ev) ((0, c), w1) = (Inr u, ((n, c1), w2)) \<and>
        upsert_device_state S (device_id ev) (event_id ev) (event_type ev) (timestamp ev) (payload ev) w2
          = (r, w3) \<and> postgres w' = postgres w3)"

text \<open>The dead letter that was sent.\<close>

definition dead_lettered :: "('r, 'p, 'k, 'h) services \<Rightarrow> worker_settings \<Rightarrow> dict \<Rightarrow> pystr \<Rightarrow>
    ('r, 'p, 'k, 'h) world \<Rightarrow> ('r, 'p, 'k, 'h) world \<Rightarrow> bool" where
  "dead_lettered S cfg d et w w' \<longleftrightarrow>
     (\<exists>em rc pa off w1 w2. kafka w1 = kafka w \<and> pool_set w1 = pool_set w \<and>
        dlq_send S cfg (JObj d) et em rc dlq_topic_default pa off w1 = (Inr (), w2) \<and>
        kafka w' = kafka w2 \<and> postgres w' = postgres w2)"

definition processed_end :: "('r, 'p, 'k, 'h) services \<Rightarrow> worker_settings \<Rightarrow> iot_event \<Rightarrow>
    ('r, 'p, 'k, 'h) world \<Rightarrow> ('r, 'p, 'k, 'h) world \<Rightarrow> bool" where
  "processed_end S cfg ev w w' \<longleftrightarrow>
     one_outcome (EVENTS_PROCESSED (event_type ev)) w w' \<and> persisted S cfg ev w w'"

definition dead_end :: "('r, 'p, 'k, 'h) services \<Rightarrow> worker_settings \<Rightarrow> dict \<Rightarrow> pystr \<Rightarrow>
    ('r, 'p, 'k, 'h) world \<Rightarrow> ('r, 'p, 'k, 'h) world \<Rightarrow> bool" where
  "dead_end S cfg d et w w' \<longleftrightarrow>
     one_outcome (EVENTS_DLQ et) w w' \<and> dead_lettered S cfg d et w w'"

lemma processed_end_after:
  "kept w w1 \<Longrightarrow> postgres w1 = postgres w \<Longrightarrow> processed_end S cfg ev w1 w' \<Longrightarrow>
   processed_end S cfg ev w w'"
  using one_outcome_after by (fastforce simp: processed_end_def persisted_def kept_def)

lemma dead_end_after: "kept w w1 \<Longrightarrow> dead_end S cfg d et w1 w' \<Longrightarrow> dead_end S cfg d et w w'"
  using one_outcome_after by (fastforce simp: dead_end_def dead_lettered_def kept_def)

lemma ends_before:
  assumes "kept w1 w'" "postgres w' = postgres w1"
  shows "one_outcome c w w1 \<Longrightarrow> one_outcome c w w'"
    and "processed_end S cfg ev w w1 \<Longrightarrow> processed_end S cfg ev w w'"
    and "dead_end S cfg d et w w1 \<Longrightarrow> dead_end S cfg d et w w'"
proof -
  show o': "one_outcome c w w1 \<Longrightarrow> one_outcome c w w'" for c
    using assms(1) by (simp add: kept_def one_outcome_def)
  show "processed_end S cfg ev w w1 \<Longrightarrow> processed_end S cfg ev w w'"
    using o' assms(2) by (auto simp: processed_end_def persisted_def)
  show "dead_end S cfg d et w w1 \<Longrightarrow> dead_end S cfg d et w w'"
    using o' assms by (auto simp: dead_end_def dead_lettered_def kept_def)
qed

section \<open>The handlers, from the last\<close>

text \<open>The services fail as documented: no call is cancelled, and Kafka fails with a KafkaError.\<close>

definition well_behaved :: "('r, 'p, 'k, 'h) services \<Rightarrow> bool" where
  "well_behaved S \<longleftrightarrow> uncancelled S \<and> kafka_errors (kafka_of S)"

lemma dlq_outcome:
  assumes "well_behaved S" "dlq_key (dlq_id_of d) = Inr key" "wc_raw_event c = JObj d"
  shows "\<exists>w'. send_context S cfg et em rc (c, w) = (Inr (), (c, w')) \<and> dead_end S cfg d et w w'"
proof -
  let ?send = "dlq_send S cfg (JObj d) et em rc dlq_topic_default (wc_kafka_partition c) (wc_kafka_offset c)"
  obtain r w' where run: "?send w = (r, w')" by (cases "?send w")
  from dlq_send_effect [OF _ _ assms(2) run] assms(1)
  have "r = Inr ()" "met w' = met (bump (EVENTS_DLQ et) w)" by (simp_all add: well_behaved_def)
  then have "one_outcome (EVENTS_DLQ et) w w'" by (simp add: one_outcome_def)
  moreover have "dead_lettered S cfg d et w w'"
    using run \<open>r = Inr ()\<close> unfolding dead_lettered_def by blast
  ultimately show ?thesis
    using run \<open>r = Inr ()\<close> assms(3) by (simp add: send_context_def dead_end_def bind_def gets_def eff_def)
qed

lemma db_mild:
  assumes "uncancelled S"
  shows "mild (insert_event S i d t v p m ts)" "mild (upsert_device_state S d i t ts p)"
proof -
  have "ordinary e" if "rows_affected tag = Inl e" for tag e
    using that by (auto simp: rows_affected_def IndexError_def ValueError_def split: if_splits option.splits)
  then show "mild (insert_event S i d t v p m ts)"
    unfolding insert_event_def get_pool_def
    by (intro raises_intros uncancelled.mild_pg [OF assms]) (auto simp: RuntimeError_def)
  show "mild (upsert_device_state S d i t ts p)"
    unfolding upsert_device_state_def get_pool_def
    by (intro raises_intros uncancelled.mild_pg [OF assms]) (auto simp: RuntimeError_def)
qed

lemma device_state_outcome:
  assumes "uncancelled S" "wc_event c = Some ev"
  shows "\<exists>w'. DeviceStateHandler S (ret ()) (c, w) = (Inr (), (c\<lparr>wc_processed := True\<rparr>, w')) \<and>
    one_outcome (EVENTS_PROCESSED (event_type ev)) w w' \<and>
    (\<exists>r w1. upsert_device_state S (device_id ev) (event_id ev) (event_type ev) (timestamp ev) (payload ev) w
       = (r, w1) \<and> postgres w' = postgres w1)"
proof -
  let ?raw = "upsert_device_state S (device_id ev) (event_id ev) (event_type ev) (timestamp ev) (payload ev)"
  let ?upsert = "try_except ?raw (catching ''Exception'' (\<lambda>exc. ret ()))"
  have "quiet ?upsert" by (intro raises_intros db_mild assms(1))
  then obtain u w1 where up: "?upsert w = (Inr u, w1)" by (rule quiet_result)
  have "leads kept ?upsert" by (intro leads_intros)
  from leadsD [OF this up] have same: "kept w w1" .
  have raw: "\<exists>r. ?raw w = (r, w1)"
    using up by (auto simp: try_except_def catching_def ret_def raise_def split: prod.splits sum.splits if_splits)
  obtain t h where th: "h_monotonic (host_of S) (host w1) = (t, h)" by (cases "h_monotonic (host_of S) (host w1)")
  let ?w' = "(bump (EVENTS_PROCESSED (event_type ev)) w1)\<lparr>host := h\<rparr>"
  have "DeviceStateHandler S (ret ()) (c, w) = (Inr (), (c\<lparr>wc_processed := True\<rparr>, ?w'))"
    using assms(2) up th
    by (simp add: DeviceStateHandler_def bind_def andthen_def gets_def eff_def inc_def modify_def
        ask_host_def ret_def)
  moreover have "one_outcome (EVENTS_PROCESSED (event_type ev)) w1 ?w'" by (simp add: one_outcome_def)
  moreover have "postgres ?w' = postgres w1" by simp
  ultimately show ?thesis using one_outcome_after [OF same] raw by blast
qed

text \<open>The retried insertion leaves the context, apart from the retry count, as it was.\<close>

definition ctx_kept :: "('w \<Rightarrow> 'w \<Rightarrow> bool) \<Rightarrow> (('l \<times> 'c) \<times> 'w) \<Rightarrow> (('l \<times> 'c) \<times> 'w) \<Rightarrow> bool" where
  "ctx_kept R s s' \<longleftrightarrow> snd (fst s') = snd (fst s) \<and> R (snd s) (snd s')"

lemma preorder_ctx_kept: "preorder_rel R \<Longrightarrow> preorder_rel (ctx_kept R)"
  unfolding preorder_rel_def ctx_kept_def by (elim conjE, intro conjI) (simp, metis)

lemma leads_ctx_eff: "leads R m \<Longrightarrow> leads (ctx_kept R) (eff m)"
  by (auto simp: leads_def ctx_kept_def eff_def split: prod.splits)

lemma insert_once_kept:
  assumes "preorder_rel R"
    and "leads R (timed DB_WRITE_LATENCY (andthen (insert_event S (event_id ev) (device_id ev)
      (event_type ev) (schema_version ev) (payload ev) (metadata ev) (timestamp ev)) (ret ())))"
  shows "leads (ctx_kept R) (insert_once S ev)"
proof -
  have "leads (ctx_kept R) (modify (\<lambda>((n, c), w). ((n + 1, c), w)))"
    using assms(1) by (auto simp: leads_def modify_def ctx_kept_def preorder_rel_def)
  then show ?thesis
    unfolding insert_once_def by (intro leads_andthen preorder_ctx_kept leads_ctx_eff assms)
qed

lemma with_retry_kept:
  "leads (ctx_kept kept) (with_retry S cfg (insert_once S ev))"
  by (rule leads_with_retry)
     (intro preorder_ctx_kept leads_ctx_eff insert_once_kept leads_intros)+

lemma with_retry_mild:
  assumes "uncancelled S" shows "mild (with_retry S cfg (insert_once S ev))"
  by (rule raises_with_retry)
     (auto simp: insert_once_def AssertionError_def intro!: raises_intros db_mild uncancelled.mild_host assms)

lemma give_up_outcome:
  assumes "well_behaved S" "dlq_key (dlq_id_of d) = Inr key" "wc_raw_event c = JObj d"
  shows "\<exists>w'. give_up S cfg ev et exc ((n, c), w) = (Inr (), ((n, c), w')) \<and>
    dead_end S cfg d et w w'"
proof -
  have "quiet (release S (JStr (event_id ev)))"
    using uncancelled.release_quiet assms(1) by (auto simp: well_behaved_def)
  then obtain u w1 where rel: "release S (JStr (event_id ev)) w = (Inr u, w1)" by (rule quiet_result)
  from dlq_outcome [OF assms] obtain w' where
    "send_context S cfg et (msg exc) n (c, w1) = (Inr (), (c, w'))" "dead_end S cfg d et w1 w'"
    by blast
  moreover have "kept w w1" using kept_release [OF rel] by simp
  ultimately show ?thesis
    using rel dead_end_after
    by (fastforce simp: give_up_def bind_def andthen_def gets_def eff_def up_def)
qed

text \<open>The end of an event in the handlers behind the validation: processed, or a dead letter.\<close>

definition late_end :: "('r, 'p, 'k, 'h) services \<Rightarrow> worker_settings \<Rightarrow> dict \<Rightarrow> iot_event \<Rightarrow>
    ('r, 'p, 'k, 'h) world \<Rightarrow> ('r, 'p, 'k, 'h) world \<Rightarrow> bool" where
  "late_end S cfg d ev w w' \<longleftrightarrow> processed_end S cfg ev w w' \<or> (\<exists>et. dead_end S cfg d et w w')"

lemma persistence_outcome:
  assumes "well_behaved S" "dlq_key (dlq_id_of d) = Inr key" "wc_raw_event c = JObj d"
    and "wc_event c = Some ev"
  shows "\<exists>c' w'. PersistenceHandler S cfg (DeviceStateHandler S (ret ())) (c, w) = (Inr (), (c', w')) \<and>
    late_end S cfg d ev w w'"
proof -
  have un: "uncancelled S" using assms(1) by (simp add: well_behaved_def)
  obtain rr n c1 w1 where run: "with_retry S cfg (insert_once S ev) ((0, c), w) = (rr, ((n, c1), w1))"
    by (metis prod.collapse)
  from leadsD [OF with_retry_kept run] have same: "c1 = c" "kept w w1"
    by (simp_all add: ctx_kept_def)
  show ?thesis
  proof (cases rr)
    case (Inr u)
    from device_state_outcome [OF un assms(4)] obtain w' where w':
      "DeviceStateHandler S (ret ()) (c, w1) = (Inr (), (c\<lparr>wc_processed := True\<rparr>, w'))"
      "one_outcome (EVENTS_PROCESSED (event_type ev)) w1 w'"
      "\<exists>r w2. upsert_device_state S (device_id ev) (event_id ev) (event_type ev) (timestamp ev)
         (payload ev) w1 = (r, w2) \<and> postgres w' = postgres w2" by blast
    from run w'(3) Inr have "persisted S cfg ev w w'" unfolding persisted_def by blast
    then have "late_end S cfg d ev w w'"
      using one_outcome_after [OF same(2) w'(2)] by (simp add: late_end_def processed_end_def)
    with run same assms(4) Inr w'(1) show ?thesis
      by (simp add: PersistenceHandler_def bind_def gets_def with_var_def try_except_def andthen_def
           up_def)
  next
    case (Inl e)
    have "ordinary e" using raisesD [OF with_retry_mild [OF un] run [unfolded Inl]] .
    let ?w2 = "if isinstance e ''PostgresError'' then bump (DB_ERRORS (exn_name e)) w1 else w1"
    let ?et = "if isinstance e ''PostgresError'' then lit ''DB_ERROR'' else exn_name e"
    from give_up_outcome [OF assms(1-3)] obtain w' where w':
      "give_up S cfg ev ?et e ((n, c), ?w2) = (Inr (), ((n, c), w'))" "dead_end S cfg d ?et ?w2 w'"
      by blast
    have "kept w ?w2" using same(2) by (simp add: kept_def)
    then have "late_end S cfg d ev w w'"
      using dead_end_after w'(2) unfolding late_end_def by blast
    moreover have "PersistenceHandler S cfg (DeviceStateHandler S (ret ())) (c, w) = (Inr (), (c, w'))"
      using w'(1) run same(1) assms(4) Inl \<open>ordinary e\<close>
      by (simp add: PersistenceHandler_def bind_def gets_def with_var_def try_except_def andthen_def
          eff_def inc_def modify_def split: if_splits)
    ultimately show ?thesis by blast
  qed
qed

text \<open>The end of an event in the handlers behind the idempotency check.\<close>

definition valid_end :: "('r, 'p, 'k, 'h) services \<Rightarrow> worker_settings \<Rightarrow> dict \<Rightarrow>
    ('r, 'p, 'k, 'h) world \<Rightarrow> ('r, 'p, 'k, 'h) world \<Rightarrow> bool" where
  "valid_end S cfg d w w' \<longleftrightarrow>
     (case IoTEvent (py_of S) d of
        Inl e \<Rightarrow> dead_end S cfg d (lit ''VALIDATION_ERROR'') w w'
      | Inr ev \<Rightarrow> late_end S cfg d ev w w')"

lemma valid_end_after:
  "kept w w1 \<Longrightarrow> postgres w1 = postgres w \<Longrightarrow> valid_end S cfg d w1 w' \<Longrightarrow> valid_end S cfg d w w'"
  by (auto simp: valid_end_def late_end_def split: sum.splits
      intro: processed_end_after dead_end_after)

lemma valid_end_before:
  "kept w1 w' \<Longrightarrow> postgres w' = postgres w1 \<Longrightarrow> valid_end S cfg d w w1 \<Longrightarrow> valid_end S cfg d w w'"
  by (auto simp: valid_end_def late_end_def split: sum.splits intro: ends_before)

lemma validation_outcome:
  assumes "well_behaved S" "dlq_key (dlq_id_of d) = Inr key" "wc_raw_event c = JObj d"
  shows "\<exists>c' w'. WorkerValidationHandler S cfg (PersistenceHandler S cfg (DeviceStateHandler S (ret ())))
      (c, w) = (Inr (), (c', w')) \<and> valid_end S cfg d w w'"
proof (cases "IoTEvent (py_of S) d")
  case (Inl e)
  then have "ordinary e" by (simp add: IoTEvent_Inl)
  from dlq_outcome [OF assms(1-3)] obtain w' where
    "send_context S cfg (lit ''VALIDATION_ERROR'') (msg e) 0 (c, w) = (Inr (), (c, w'))"
    "dead_end S cfg d (lit ''VALIDATION_ERROR'') w w'" by blast
  with Inl \<open>ordinary e\<close> assms(3) show ?thesis
    by (simp add: WorkerValidationHandler_def IoTEvent_of_def bind_def gets_def of_result_def
         try_except_def catching_def valid_end_def)
next
  case (Inr ev)
  let ?c = "c\<lparr>wc_event := Some ev\<rparr>"
  from persistence_outcome [OF assms(1,2), of ?c ev cfg w] assms(3) obtain c' w' where
    "PersistenceHandler S cfg (DeviceStateHandler S (ret ())) (?c, w) = (Inr (), (c', w'))"
    "late_end S cfg d ev w w'" by auto
  with Inr assms(3) show ?thesis
    by (simp add: WorkerValidationHandler_def IoTEvent_of_def bind_def gets_def of_result_def
         try_except_def andthen_def modify_def valid_end_def)
qed

section \<open>The account\<close>

lemma worker_execute_dispatch:
  "\<exists>t h. worker_execute S cfg (c, w) = dispatch (worker_handlers S cfg) 0 (c\<lparr>wc_trace_id := t\<rparr>, w\<lparr>host := h\<rparr>)"
proof (cases "truthy (wc_get_id c)")
  case True
  then have "worker_execute S cfg (c, w) = dispatch (worker_handlers S cfg) 0 (c, w)"
    unfolding worker_execute_def by (rule wc.execute_keeps) (simp add: worker_handlers_list)
  then show ?thesis by (intro exI [of _ "wc_trace_id c"] exI [of _ "host w"]) simp
next
  case False
  obtain u h where u: "h_uuid4 (host_of S) (host w) = (u, h)" by (cases "h_uuid4 (host_of S) (host w)")
  have "ensure_trace wc_get_id wc_set_id (ask_host (h_uuid4 (host_of S))) (c, w)
      = (Inr (), (wc_set_id u c, w\<lparr>host := h\<rparr>))"
    by (rule wc.ensure_trace_draws [OF False]) (simp add: ask_host_def u)
  then show ?thesis
    by (intro exI [of _ "JStr u"] exI [of _ h])
       (simp add: worker_execute_def execute_def worker_handlers_list andthen_def bind_def wc_set_id_def)
qed

lemma idempotency_outcome:
  assumes "well_behaved S" "dlq_key (dlq_id_of d) = Inr key" "wc_raw_event c = JObj d"
  shows "\<exists>c' w'. dispatch (worker_handlers S cfg) 0 (c, w) = (Inr (), (c', w')) \<and>
    (one_outcome EVENTS_DUPLICATE w w' \<or> valid_end S cfg d w w')"
proof -
  let ?rest = "WorkerValidationHandler S cfg (PersistenceHandler S cfg (DeviceStateHandler S (ret ())))"
  have run: "dispatch (worker_handlers S cfg) 0 (c, w) = IdempotencyHandler S cfg ?rest (c, w)"
    by (simp add: worker_handlers_list)
  show ?thesis
  proof (cases "\<exists>i. map_of d (lit ''event_id'') = Some i \<and> truthy i")
    case False
    then have "IdempotencyHandler S cfg ?rest (c, w) = ?rest (c, w)"
      using assms(3)
      by (auto simp: IdempotencyHandler_def bind_def gets_def of_result_def split: option.split)
    with run validation_outcome [OF assms] show ?thesis by metis
  next
    case True
    then obtain i where i: "map_of d (lit ''event_id'') = Some i" "truthy i" by blast
    have "quiet (is_new S cfg i)" using assms(1) uncancelled.is_new_quiet by (auto simp: well_behaved_def)
    then obtain b w1 where b: "is_new S cfg i w = (Inr b, w1)" by (rule quiet_result)
    have step: "dispatch (worker_handlers S cfg) 0 (c, w) = (if b then ?rest (c, w1) else (Inr (), (c, w1)))"
      using run i b assms(3)
      by (simp add: IdempotencyHandler_def bind_def gets_def of_result_def eff_def ret_def)
    show ?thesis
    proof (cases b)
      case True
      from validation_outcome [OF assms] obtain c' w' where
        "?rest (c, w1) = (Inr (), (c', w'))" "valid_end S cfg d w1 w'" by blast
      moreover have "kept w w1" "postgres w1 = postgres w" using kept_is_new [of S cfg i w w1] b True by simp_all
      ultimately show ?thesis using step True valid_end_after by metis
    next
      case False
      with is_new_frame [OF b] have "one_outcome EVENTS_DUPLICATE w w1" by (simp add: one_outcome_def)
      with step False show ?thesis by simp
    qed
  qed
qed

lemma process_ends:
  assumes "well_behaved S" "dlq_key (dlq_id_of d) = Inr key"
  shows "\<exists>w'. process S cfg (JObj d) part off w = (Inr (), w') \<and>
    (one_outcome EVENTS_DUPLICATE w w' \<or> valid_end S cfg d w w')"
proof -
  let ?w0 = "w\<lparr>met := (met w)\<lparr>gauges := (gauges (met w))(ACTIVE_TASKS := gauges (met w) ACTIVE_TASKS + 1)\<rparr>\<rparr>"
  obtain t0 h where h: "h_monotonic (host_of S) (host w) = (t0, h)" by (cases "h_monotonic (host_of S) (host w)")
  let ?c = "new_worker_context (JObj d) (get_default (map_of d (lit ''_trace_id'')) (JStr [])) part off t0"
  obtain t h' where start: "worker_execute S cfg (?c, ?w0\<lparr>host := h\<rparr>) =
      dispatch (worker_handlers S cfg) 0 (?c\<lparr>wc_trace_id := t\<rparr>, ?w0\<lparr>host := h'\<rparr>)"
    using worker_execute_dispatch [of S cfg ?c "?w0\<lparr>host := h\<rparr>"] by auto
  let ?w1 = "?w0\<lparr>host := h'\<rparr>"
  obtain c' w2 where run: "dispatch (worker_handlers S cfg) 0 (?c\<lparr>wc_trace_id := t\<rparr>, ?w1) = (Inr (), (c', w2))"
    and fin: "one_outcome EVENTS_DUPLICATE ?w1 w2 \<or> valid_end S cfg d ?w1 w2"
    using idempotency_outcome [OF assms, of "?c\<lparr>wc_trace_id := t\<rparr>" cfg ?w1]
    by (auto simp: new_worker_context_def)
  let ?w3 = "tick PROCESSING_LATENCY w2"
  let ?w' = "?w3\<lparr>met := (met ?w3)\<lparr>gauges := (gauges (met ?w3))(ACTIVE_TASKS := gauges (met ?w3) ACTIVE_TASKS + (- 1))\<rparr>\<rparr>"
  have "process S cfg (JObj d) part off w = (Inr (), ?w')"
    using h start run
    by (simp add: process_def andthen_def bind_def try_finally_def add_gauge_def modify_def timed_def
        of_result_def ask_host_def in_context_def observe_def)
  moreover have "kept w ?w1" "postgres ?w1 = postgres w" "kept w2 ?w'" "postgres ?w' = postgres w2"
    by (simp_all add: kept_def)
  then have "one_outcome EVENTS_DUPLICATE w ?w' \<or> valid_end S cfg d w ?w'"
    using fin one_outcome_after valid_end_after valid_end_before ends_before(1) by meson
  ultimately show ?thesis by blast
qed

text \<open>C2: The worker accounts for every event. If no service call is cancelled, Kafka fails with a
  KafkaError and the event id can be made a key, then processing returns normally, whatever Redis,
  PostgreSQL and Kafka do, and exactly one outcome is counted, once: the event is a duplicate; or it
  does not validate and is a dead letter with the type VALIDATION_ERROR; or it validates and is
  either processed, under the type of the validated event, or a dead letter.\<close>

theorem process_accounts:
  assumes "well_behaved S" "dlq_key (dlq_id_of d) = Inr key"
  shows "\<exists>w'. process S cfg (JObj d) part off w = (Inr (), w') \<and>
    (one_outcome EVENTS_DUPLICATE w w' \<or>
     (case IoTEvent (py_of S) d of
        Inl e \<Rightarrow> one_outcome (EVENTS_DLQ (lit ''VALIDATION_ERROR'')) w w'
      | Inr ev \<Rightarrow> one_outcome (EVENTS_PROCESSED (event_type ev)) w w' \<or>
          (\<exists>et. one_outcome (EVENTS_DLQ et) w w')))"
proof -
  from process_ends [OF assms] obtain w' where w': "process S cfg (JObj d) part off w = (Inr (), w')"
    "one_outcome EVENTS_DUPLICATE w w' \<or> valid_end S cfg d w w'" by blast
  then show ?thesis
    by (intro exI [of _ w'])
       (auto simp: valid_end_def late_end_def dead_end_def processed_end_def split: sum.splits)
qed

section \<open>What a processed event leaves in the database\<close>

definition row_is :: "iot_event \<Rightarrow> event_row \<Rightarrow> bool" where
  "row_is ev r \<longleftrightarrow> er_event_id r = event_id ev \<and> er_device_id r = device_id ev \<and>
     er_event_type r = event_type ev \<and> er_schema_version r = schema_version ev \<and>
     er_payload r = JObj (payload ev) \<and> er_metadata r = JObj (metadata ev) \<and>
     er_raw_timestamp r = timestamp ev \<and> er_status r = ''processed''"

text \<open>The rows with the id of the event are rows of the event.\<close>

definition only_rows :: "iot_event \<Rightarrow> database \<Rightarrow> bool" where
  "only_rows ev db \<longleftrightarrow> (\<forall>r \<in> set (rows_with_id (event_id ev) db). row_is ev r)"

definition stays_only :: "('p \<Rightarrow> database) \<Rightarrow> iot_event \<Rightarrow> 'p \<Rightarrow> 'p \<Rightarrow> bool" where
  "stays_only tables ev x x' \<longleftrightarrow> (only_rows ev (tables x) \<longrightarrow> only_rows ev (tables x'))"

lemma preorder_stays_only: "preorder_rel (stays_only tables ev)"
  by (simp add: preorder_rel_def stays_only_def)

abbreviation insert_stmt :: "iot_event \<Rightarrow> sql" where
  "insert_stmt ev \<equiv> InsertEvent (event_id ev) (device_id ev) (event_type ev) (schema_version ev)
     (JObj (payload ev)) (JObj (metadata ev)) (timestamp ev)"

lemma exec_insert_only:
  "exec_sql now (insert_stmt ev) db = Some (tag, db') \<Longrightarrow> only_rows ev db \<Longrightarrow> only_rows ev db'"
  by (auto simp: only_rows_def rows_with_id_def row_is_def split: if_splits)

lemma execute_stays_only:
  assumes "pg_server P tables now_of"
  shows "leads (stays_only tables ev) (pg_execute P (insert_stmt ev))"
proof (rule leadsI)
  fix x r x' assume run: "pg_execute P (insert_stmt ev) x = (r, x')"
  show "stays_only tables ev x x'"
  proof (cases r)
    case (Inl e)
    with run pg_server.execute_fails [OF assms] consider "tables x' = tables x"
      | tag where "exec_sql (now_of x') (insert_stmt ev) (tables x) = Some (tag, tables x')" by blast
    then show ?thesis
    proof cases
      case 1
      then show ?thesis by (simp add: stays_only_def)
    next
      case 2
      then show ?thesis unfolding stays_only_def by (blast intro: exec_insert_only)
    qed
  next
    case (Inr tag)
    with run pg_server.execute_ok [OF assms]
    have "exec_sql (now_of x') (insert_stmt ev) (tables x) = Some (tag, tables x')" by blast
    then show ?thesis unfolding stays_only_def by (blast intro: exec_insert_only)
  qed
qed

lemma insert_once_stays_only:
  assumes "pg_server (pg_of S) tables now_of"
  shows "leads (on_snd (pg_rel (stays_only tables ev))) (insert_once S ev)"
  unfolding insert_once_def insert_event_def
  by (intro leads_intros preorder_stays_only execute_stays_only [OF assms]) (simp split: prod.split)

lemma insert_once_Inr:
  assumes "pg_server (pg_of S) tables now_of" "insert_once S ev s = (Inr u, s')" "pool_set (snd s)"
  shows "rows_with_id (event_id ev) (tables (postgres (snd s'))) \<noteq> []"
proof -
  obtain n c w where s: "s = ((n, c), w)" by (metis prod.collapse)
  from assms(2) s obtain b w1 where ins: "insert_event S (event_id ev) (device_id ev) (event_type ev)
      (schema_version ev) (payload ev) (metadata ev) (timestamp ev) w = (Inr b, w1)"
    and "postgres (snd s') = postgres w1"
    by (auto simp: insert_once_def andthen_def bind_def modify_def eff_def timed_def try_finally_def
        observe_def ret_def split: prod.splits sum.splits)
  with insert_event_effect [OF assms(1) _ ins] assms(3) s show ?thesis
    by (cases b) (auto simp: Let_def rows_with_id_def event_row_at_def filter_empty_conv)
qed

lemma pool_kept: "leads (on_snd (\<lambda>w w'. pool_set w' = pool_set w)) (retry_attempt S cfg (insert_once S ev) n)"
proof (rule leadsI)
  fix s r s' assume run: "retry_attempt S cfg (insert_once S ev) n s = (r, s')"
  have "leads (on_snd kept) (retry_attempt S cfg (insert_once S ev) n)"
    by (rule leads_retry_attempt) (intro leads_intros)+
  from leadsD [OF this run] show "on_snd (\<lambda>w w'. pool_set w' = pool_set w) s s'"
    by (simp add: on_snd_def kept_def)
qed

lemma exec_device_events:
  "exec_sql now (InsertDevice d) db = Some (tag, db') \<Longrightarrow> d_events db' = d_events db"
  "exec_sql now (UpsertDeviceState d i t ts p) db = Some (tag, db') \<Longrightarrow> d_events db' = d_events db"
  by (auto split: if_splits)

definition same_events :: "('p \<Rightarrow> database) \<Rightarrow> 'p \<Rightarrow> 'p \<Rightarrow> bool" where
  "same_events tables x x' \<longleftrightarrow> d_events (tables x') = d_events (tables x)"

lemma preorder_same_events: "preorder_rel (same_events tables)"
  by (simp add: preorder_rel_def same_events_def)

lemma execute_same_events:
  assumes "pg_server P tables now_of"
    and "\<And>now db tag db'. exec_sql now q db = Some (tag, db') \<Longrightarrow> d_events db' = d_events db"
  shows "leads (same_events tables) (pg_execute P q)"
proof (rule leadsI)
  fix x r x' assume run: "pg_execute P q x = (r, x')"
  show "same_events tables x x'"
  proof (cases r)
    case (Inl e)
    with run pg_server.execute_fails [OF assms(1)] assms(2) show ?thesis
      unfolding same_events_def by metis
  next
    case (Inr tag)
    with run pg_server.execute_ok [OF assms(1)] assms(2) show ?thesis
      unfolding same_events_def by metis
  qed
qed

lemma upsert_same_events:
  assumes "pg_server (pg_of S) tables now_of"
  shows "leads (pg_rel (same_events tables)) (upsert_device_state S d i t ts p)"
  unfolding upsert_device_state_def
  by (intro leads_intros preorder_same_events execute_same_events [OF assms] exec_device_events)

lemma persisted_rows:
  assumes "pg_server (pg_of S) tables now_of" "pool_set w" "persisted S cfg ev w w'"
  shows "rows_with_id (event_id ev) (tables (postgres w')) \<noteq> [] \<and>
    (only_rows ev (tables (postgres w)) \<longrightarrow> only_rows ev (tables (postgres w')))"
proof -
  let ?R = "\<lambda>s s'. on_snd (\<lambda>w w'. pool_set w' = pool_set w) s s' \<and>
      on_snd (pg_rel (stays_only tables ev)) s s'"
  from assms(3) obtain c n c1 u w1 w2 r w3 where w1: "postgres w1 = postgres w" "pool_set w1 = pool_set w"
    and run: "with_retry S cfg (insert_once S ev) ((0, c), w1) = (Inr u, ((n, c1), w2))"
    and up: "upsert_device_state S (device_id ev) (event_id ev) (event_type ev) (timestamp ev) (payload ev) w2
      = (r, w3)" and w3: "postgres w' = postgres w3"
    unfolding persisted_def by blast
  have pre: "preorder_rel ?R"
    unfolding preorder_rel_def on_snd_def pg_rel_def stays_only_def by simp
  have stays: "leads (on_snd (pg_rel (stays_only tables ev))) (retry_attempt S cfg (insert_once S ev) k)" for k
    unfolding retry_attempt_def compute_delay_def Let_def
    by (intro leads_intros preorder_stays_only insert_once_stays_only [OF assms(1)])
  have "leads ?R (retry_attempt S cfg (insert_once S ev) k)" for k
    using leadsD [OF stays] leadsD [OF pool_kept] by (intro leadsI conjI) blast+
  from retry_loop_Inr [OF pre this run [unfolded with_retry_def]] obtain s1 where
    s1: "?R ((0, c), w1) s1" "insert_once S ev s1 = (Inr u, ((n, c1), w2))" by blast
  then have "pool_set (snd s1)" using w1(2) assms(2) by (simp add: on_snd_def)
  from insert_once_Inr [OF assms(1) s1(2) this]
  have rows: "rows_with_id (event_id ev) (tables (postgres w2)) \<noteq> []" by simp
  have "only_rows ev (tables (postgres w)) \<longrightarrow> only_rows ev (tables (postgres w2))"
    using s1(1) leadsD [OF insert_once_stays_only [OF assms(1)] s1(2)] w1(1)
    by (simp add: on_snd_def pg_rel_def stays_only_def)
  moreover have "d_events (tables (postgres w3)) = d_events (tables (postgres w2))"
    using leadsD [OF upsert_same_events [OF assms(1)] up] by (simp add: pg_rel_def same_events_def)
  ultimately show ?thesis using rows w3 by (simp add: rows_with_id_def only_rows_def)
qed

text \<open>C12: An event that is counted as processed is stored. Let the services cancel no call, Kafka fail with
  KafkaErrors only, the id of the event make a key, the pool be set and a statement of the database do
  what it says or nothing. Then an event that \<open>process\<close> counts as processed validates, the table of events holds a row
  with its id, and if the rows with its id were rows of this event before (so in particular if there
  were none) they still are, field by field, although the insertion may have been tried several
  times and a failed attempt may have taken effect.\<close>

theorem processed_is_stored:
  assumes "well_behaved S" "dlq_key (dlq_id_of d) = Inr key"
    and "pg_server (pg_of S) tables now_of" "pool_set w"
    and "process S cfg (JObj d) part off w = (r, w')"
    and "tally (EVENTS_PROCESSED t) w' \<noteq> tally (EVENTS_PROCESSED t) w"
  shows "\<exists>ev. IoTEvent (py_of S) d = Inr ev \<and> t = event_type ev \<and>
    rows_with_id (event_id ev) (tables (postgres w')) \<noteq> [] \<and>
    (only_rows ev (tables (postgres w)) \<longrightarrow> only_rows ev (tables (postgres w')))"
proof -
  from process_ends [OF assms(1,2), of cfg part off w] assms(5)
  have fin: "one_outcome EVENTS_DUPLICATE w w' \<or> valid_end S cfg d w w'" by auto
  have "c = EVENTS_PROCESSED t" if "one_outcome c w w'" for c
    using that assms(6) by (auto simp: one_outcome_def split: if_splits)
  with fin obtain ev where "IoTEvent (py_of S) d = Inr ev" "t = event_type ev" "persisted S cfg ev w w'"
    by (fastforce simp: valid_end_def late_end_def processed_end_def dead_end_def split: sum.splits)
  with persisted_rows [OF assms(3,4)] show ?thesis by blast
qed

section \<open>No event is lost\<close>

lemma dead_lettered_durable:
  assumes "kafka_log (kafka_of S) durable pending" "kafka_up (kafka_of S)"
    and "dlq_key (dlq_id_of d) = Inr key" "dead_lettered S cfg d et w w'"
  shows "\<exists>u n em rc pa off. (W_KAFKA_TOPIC_DLQ cfg,
    JObj (dlq_envelope cfg u n (JObj d) et em rc dlq_topic_default pa off), Some key) \<in># durable (kafka w')"
proof -
  from assms(4) obtain em rc pa off w1 w2 where
    send: "dlq_send S cfg (JObj d) et em rc dlq_topic_default pa off w1 = (Inr (), w2)"
    and "kafka w' = kafka w2" unfolding dead_lettered_def by blast
  obtain u h1 where u: "h_uuid4 (host_of S) (host w1) = (u, h1)" by (cases "h_uuid4 (host_of S) (host w1)")
  obtain n h2 where n: "h_now_iso (host_of S) h1 = (n, h2)" by (cases "h_now_iso (host_of S) h1")
  let ?v = "JObj (dlq_envelope cfg u n (JObj d) et em rc dlq_topic_default pa off)"
  obtain x where x: "k_send_and_wait (kafka_of S) (W_KAFKA_TOPIC_DLQ cfg) ?v (Some key) (kafka w1) = (Inr (), x)"
    using assms(2) unfolding kafka_up_def by blast
  have "kafka w2 = x"
    using send x assms(3) unfolding dlq_send_eval [OF u n] by (auto simp: Let_def dest: dlq_record_frame)
  moreover have "(W_KAFKA_TOPIC_DLQ cfg, ?v, Some key) \<in># durable x"
    using kafka_log.send_and_wait_ok [OF assms(1) x] by (auto dest: mset_subset_eqD)
  ultimately have "(W_KAFKA_TOPIC_DLQ cfg, ?v, Some key) \<in># durable (kafka w')"
    using \<open>kafka w' = kafka w2\<close> by simp
  then show ?thesis by blast
qed

text \<open>No event is lost between the database and the dead letters. If the DLQ topic accepts records,
  then after processing an event whose id can be made a key, whatever Redis and PostgreSQL do, it
  was skipped as a duplicate, or it validates and a row with its id is in the table of events, or
  the DLQ topic holds an envelope with the event as it came.\<close>

lemma no_event_lost:
  assumes "well_behaved S" "dlq_key (dlq_id_of d) = Inr key"
    and "pg_server (pg_of S) tables now_of" "pool_set w"
    and "kafka_log (kafka_of S) durable pending" "kafka_up (kafka_of S)"
    and "process S cfg (JObj d) part off w = (r, w')"
  shows "one_outcome EVENTS_DUPLICATE w w' \<or>
    (\<exists>ev. IoTEvent (py_of S) d = Inr ev \<and> rows_with_id (event_id ev) (tables (postgres w')) \<noteq> []) \<or>
    (\<exists>u n et em rc pa off. (W_KAFKA_TOPIC_DLQ cfg,
       JObj (dlq_envelope cfg u n (JObj d) et em rc dlq_topic_default pa off), Some key) \<in># durable (kafka w'))"
proof -
  from process_ends [OF assms(1,2), of cfg part off w] assms(7)
  consider "one_outcome EVENTS_DUPLICATE w w'"
    | ev where "IoTEvent (py_of S) d = Inr ev" "persisted S cfg ev w w'"
    | et where "dead_lettered S cfg d et w w'"
    by (auto simp: valid_end_def late_end_def processed_end_def dead_end_def split: sum.splits)
  then show ?thesis
  proof cases
    case 1
    then show ?thesis by blast
  next
    case 2
    with persisted_rows [OF assms(3,4)] show ?thesis by blast
  next
    case 3
    from dead_lettered_durable [OF assms(5,6,2) this] show ?thesis by blast
  qed
qed

section \<open>A run on the reference services\<close>

lemma good_well_behaved: "well_behaved good_worker"
  by (simp add: well_behaved_def gw.uncancelled_axioms good_kafka)

lemma sample_key: "\<exists>key. dlq_key (dlq_id_of sample_dict) = Inr key"
  using auditable_key [OF sample_auditable] .

lemma sample_is_new:
  assumes "redis w = empty_redis"
  shows "\<exists>w1. is_new good_worker cfg i w = (Inr True, w1) \<and> kept w w1 \<and> postgres w1 = postgres w"
proof -
  have "\<exists>w1. is_new good_worker cfg i w = (Inr True, w1)"
    using assms by (simp add: is_new_def io_defs ref_defs Let_def)
  with kept_is_new [of good_worker cfg i w] show ?thesis by blast
qed

lemma sample_with_retry:
  assumes "pool_set w" "postgres w = fresh_pg"
  shows "\<exists>n w1. with_retry good_worker worker_defaults (insert_once good_worker sample_event) ((0, c), w)
    = (Inr (), ((n, c), w1)) \<and> kept w w1"
proof -
  obtain w1 where "insert_sample w = (Inr True, w1)"
    using insert_sample_eval [of w] assms fresh_partition(1) by (auto simp: fresh_pg_def migrated_def)
  then have "\<exists>w2. insert_once good_worker sample_event ((0, c), w) = (Inr (), ((1, c), w2))"
    by (simp add: insert_once_def insert_sample_def andthen_def bind_def modify_def eff_def timed_def
        try_finally_def observe_def ret_def)
  then obtain w2 where "with_retry good_worker worker_defaults (insert_once good_worker sample_event)
      ((0, c), w) = (Inr (), ((1, c), w2))"
    by (auto simp: with_retry_def upto_rec1 worker_defaults_def retry_attempt_def try_except_def bind_def
        ret_def)
  with leadsD [OF with_retry_kept this] show ?thesis by (auto simp: ctx_kept_def)
qed

lemma sample_persistence:
  assumes "pool_set w" "postgres w = fresh_pg" "wc_event c = Some sample_event"
  shows "\<exists>w1. PersistenceHandler good_worker worker_defaults (DeviceStateHandler good_worker (ret ())) (c, w)
    = (Inr (), (c\<lparr>wc_processed := True\<rparr>, w1)) \<and> one_outcome (EVENTS_PROCESSED (lit ''temperature'')) w w1"
proof -
  obtain n w1 where run: "with_retry good_worker worker_defaults (insert_once good_worker sample_event)
      ((0, c), w) = (Inr (), ((n, c), w1))" "kept w w1"
    using sample_with_retry [OF assms(1,2)] by blast
  obtain w2 where "DeviceStateHandler good_worker (ret ()) (c, w1) = (Inr (), (c\<lparr>wc_processed := True\<rparr>, w2))"
    "one_outcome (EVENTS_PROCESSED (event_type sample_event)) w1 w2"
    using device_state_outcome [OF gw.uncancelled_axioms assms(3)] by blast
  with run assms(3) one_outcome_after [OF run(2)] show ?thesis
    by (simp add: PersistenceHandler_def bind_def gets_def with_var_def try_except_def andthen_def up_def
        sample_event_def)
qed

lemma sample_dispatch:
  assumes "redis w = empty_redis" "pool_set w" "postgres w = fresh_pg" "wc_raw_event c = JObj sample_dict"
  shows "\<exists>c' w'. dispatch (worker_handlers good_worker worker_defaults) 0 (c, w) = (Inr (), (c', w')) \<and>
    one_outcome (EVENTS_PROCESSED (lit ''temperature'')) w w'"
proof -
  let ?i = "JStr (lit ''01HXYZ9K2PNMQ3RT4VW5AB6CD7'')" and ?c = "c\<lparr>wc_event := Some sample_event\<rparr>"
  obtain w1 where w1: "is_new good_worker worker_defaults ?i w = (Inr True, w1)" "kept w w1"
    "postgres w1 = fresh_pg" using sample_is_new [OF assms(1)] assms(3) by metis
  then have "pool_set w1" using assms(2) by (simp add: kept_def)
  then obtain w2 where w2: "PersistenceHandler good_worker worker_defaults (DeviceStateHandler good_worker (ret ()))
      (?c, w1) = (Inr (), (?c\<lparr>wc_processed := True\<rparr>, w2))"
    "one_outcome (EVENTS_PROCESSED (lit ''temperature'')) w1 w2"
    using sample_persistence [of w1 ?c] w1(3) by auto
  have py: "py_of good_worker = ref_py" by (simp add: good_worker_def worker_services_def)
  have id: "map_of sample_dict (lit ''event_id'') = Some ?i" by (simp add: sample_dict_def)
  have "dispatch (worker_handlers good_worker worker_defaults) 0 (c, w) =
      (Inr (), (?c\<lparr>wc_processed := True\<rparr>, w2))"
    using w1(1) w2(1) assms(4) id sample_IoTEvent
    by (simp add: worker_handlers_list IdempotencyHandler_def WorkerValidationHandler_def bind_def gets_def
        of_result_def eff_def IoTEvent_of_def py try_except_def andthen_def modify_def)
  with one_outcome_after [OF w1(2) w2(2)] show ?thesis by blast
qed

definition sample_process :: "(exn + unit) \<times> (ref_redis, ref_pg, ref_kafka, ref_host) world" where
  "sample_process = process good_worker worker_defaults (JObj sample_dict) (Some 0) (Some 7) worker_world"

lemma sample_process_run:
  "fst sample_process = Inr () \<and>
   one_outcome (EVENTS_PROCESSED (lit ''temperature'')) worker_world (snd sample_process)"
proof -
  let ?w0 = "worker_world\<lparr>met := (met worker_world)\<lparr>gauges :=
      (gauges (met worker_world))(ACTIVE_TASKS := gauges (met worker_world) ACTIVE_TASKS + 1)\<rparr>\<rparr>"
  have mono: "h_monotonic (host_of good_worker) (host worker_world) = (0, host worker_world)"
    by (simp add: good_worker_def worker_services_def ref_host_def worker_world_def idle_host_def)
  let ?c = "new_worker_context (JObj sample_dict) (JStr []) (Some 0) (Some 7) 0"
  obtain t h where start: "worker_execute good_worker worker_defaults (?c, ?w0\<lparr>host := host worker_world\<rparr>) =
      dispatch (worker_handlers good_worker worker_defaults) 0 (?c\<lparr>wc_trace_id := t\<rparr>, ?w0\<lparr>host := h\<rparr>)"
    using worker_execute_dispatch [of good_worker worker_defaults ?c "?w0\<lparr>host := host worker_world\<rparr>"]
    by auto
  let ?w1 = "?w0\<lparr>host := h\<rparr>"
  have "redis ?w1 = empty_redis" "pool_set ?w1" "postgres ?w1 = fresh_pg"
    "wc_raw_event (?c\<lparr>wc_trace_id := t\<rparr>) = JObj sample_dict"
    by (simp_all add: worker_world_def new_worker_context_def)
  from sample_dispatch [OF this] obtain c' w2 where
    run: "dispatch (worker_handlers good_worker worker_defaults) 0 (?c\<lparr>wc_trace_id := t\<rparr>, ?w1) = (Inr (), (c', w2))"
    and out: "one_outcome (EVENTS_PROCESSED (lit ''temperature'')) ?w1 w2" by blast
  have "map_of sample_dict (lit ''_trace_id'') = None" by (simp add: sample_dict_def)
  then have "sample_process = (Inr (), (tick PROCESSING_LATENCY w2)\<lparr>met := (met (tick PROCESSING_LATENCY w2))
      \<lparr>gauges := (gauges (met w2))(ACTIVE_TASKS := gauges (met w2) ACTIVE_TASKS + (- 1))\<rparr>\<rparr>)"
    using mono start run
    by (simp add: sample_process_def process_def andthen_def bind_def try_finally_def add_gauge_def
        modify_def timed_def of_result_def ask_host_def in_context_def observe_def get_default_def)
  note eq = this
  show ?thesis unfolding eq fst_conv snd_conv using out by (simp add: one_outcome_def)
qed

lemma sample_process_eq:
  "process good_worker worker_defaults (JObj sample_dict) (Some 0) (Some 7) worker_world
     = (fst sample_process, snd sample_process)"
  by (simp add: sample_process_def)

theorem process_accounts_witness:
  "\<exists>w'. process good_worker worker_defaults (JObj sample_dict) (Some 0) (Some 7) worker_world = (Inr (), w')"
proof -
  obtain key where "dlq_key (dlq_id_of sample_dict) = Inr key" using sample_key by blast
  from process_accounts [OF good_well_behaved this] show ?thesis by blast
qed

theorem processed_is_stored_witness:
  "rows_with_id (event_id sample_event) (rp_tables (postgres (snd sample_process))) \<noteq> [] \<and>
   only_rows sample_event (rp_tables (postgres (snd sample_process)))"
proof -
  obtain key where key: "dlq_key (dlq_id_of sample_dict) = Inr key" using sample_key by blast
  have "tally (EVENTS_PROCESSED (lit ''temperature'')) (snd sample_process)
      \<noteq> tally (EVENTS_PROCESSED (lit ''temperature'')) worker_world"
    using sample_process_run by (simp add: one_outcome_def)
  from processed_is_stored [OF good_well_behaved key good_worker_pg worker_world_pool(1) sample_process_eq this]
  show ?thesis
    using sample_IoTEvent
    by (auto simp: good_worker_def worker_services_def worker_world_def fresh_pg_def migrated_def
        only_rows_def rows_with_id_def)
qed

lemma no_event_lost_example:
  "0 < length (rows_with_id (event_id sample_event) (rp_tables (postgres (snd sample_process)))) +
     length (rk_log (kafka (snd sample_process)))"
proof -
  obtain key where key: "dlq_key (dlq_id_of sample_dict) = Inr key" using sample_key by blast
  have "\<not> one_outcome EVENTS_DUPLICATE worker_world (snd sample_process)"
    using sample_process_run by (auto simp: one_outcome_def)
  with no_event_lost [OF good_well_behaved key good_worker_pg worker_world_pool(1) good_kafka(1,2)
      sample_process_eq] sample_IoTEvent
  show ?thesis
    by (auto simp: good_worker_def worker_services_def rk_durable_def)
qed

section \<open>Events with an id that cannot be a key\<close>

text \<open>The id of an event that validates is a text that UTF-8 encodes, so that the condition of the
  properties above holds for it.\<close>

lemma crockford_encodable: "crockford (fold_case c) \<Longrightarrow> \<not> surrogate c"
  by (auto simp: fold_case_def crockford_def surrogate_def split: if_splits)

lemma valid_id_key:
  assumes "IoTEvent py d = Inr ev" shows "\<exists>key. dlq_key (dlq_id_of d) = Inr key"
proof -
  from IoTEvent_fields(1) [OF assms] obtain s where s: "map_of d (lit ''event_id'') = Some (JStr s)"
    "validate_ulid s = Inr (event_id ev)"
    by (auto simp: event_id_field_def str_field_def split: option.splits json.splits sum.splits if_splits)
  then have "encodable s"
    by (auto simp: validate_ulid_def encodable_def list_all_iff crockford_encodable split: if_splits)
  with s(1) show ?thesis
    by (simp add: dlq_id_of_def get_default_def dlq_key_def utf8_encode_def)
qed

lemma bad_id_event:
  assumes "dlq_key (dlq_id_of d) = Inl e"
  shows "\<exists>i. map_of d (lit ''event_id'') = Some i \<and> truthy i" "\<exists>e'. IoTEvent py d = Inl e'"
proof -
  have unknown: "dlq_key (JStr (lit ''unknown'')) \<noteq> Inl e"
    by (simp add: dlq_key_def utf8_encode_def)
  then obtain i where i: "map_of d (lit ''event_id'') = Some i" "dlq_key i = Inl e"
    using assms by (cases "map_of d (lit ''event_id'')") (auto simp: dlq_id_of_def get_default_def)
  moreover have "truthy i" using i(2) unknown by (auto simp: dlq_key_def split: if_splits)
  ultimately show "\<exists>i. map_of d (lit ''event_id'') = Some i \<and> truthy i" by blast
  show "\<exists>e'. IoTEvent py d = Inl e'"
    using valid_id_key [of py d] assms by (cases "IoTEvent py d") auto
qed

text \<open>What \<open>process\<close> adds to the handlers: it starts them in a context with the event, having touched
  only the host and the gauge, and ends as they end, having touched only the gauge and a histogram.\<close>

lemma process_by_handlers:
  shows "\<exists>c w1. wc_raw_event c = JObj d \<and> redis w1 = redis w \<and> kafka w1 = kafka w \<and>
    postgres w1 = postgres w \<and> pool_set w1 = pool_set w \<and> (\<forall>n. tally n w1 = tally n w) \<and>
    (\<forall>r c' w2. dispatch (worker_handlers S cfg) 0 (c, w1) = (r, (c', w2)) \<longrightarrow>
      (\<exists>w'. process S cfg (JObj d) part off w = (r, w') \<and> redis w' = redis w2 \<and> kafka w' = kafka w2 \<and>
        postgres w' = postgres w2 \<and> pool_set w' = pool_set w2 \<and> (\<forall>n. tally n w' = tally n w2)))"
proof -
  let ?w0 = "w\<lparr>met := (met w)\<lparr>gauges := (gauges (met w))(ACTIVE_TASKS := gauges (met w) ACTIVE_TASKS + 1)\<rparr>\<rparr>"
  obtain t0 h where h: "h_monotonic (host_of S) (host w) = (t0, h)" by (cases "h_monotonic (host_of S) (host w)")
  let ?c = "new_worker_context (JObj d) (get_default (map_of d (lit ''_trace_id'')) (JStr [])) part off t0"
  obtain t h' where start: "worker_execute S cfg (?c, ?w0\<lparr>host := h\<rparr>) =
      dispatch (worker_handlers S cfg) 0 (?c\<lparr>wc_trace_id := t\<rparr>, ?w0\<lparr>host := h'\<rparr>)"
    using worker_execute_dispatch [of S cfg ?c "?w0\<lparr>host := h\<rparr>"] by auto
  let ?w1 = "?w0\<lparr>host := h'\<rparr>" and ?ct = "?c\<lparr>wc_trace_id := t\<rparr>"
  have "\<exists>w'. process S cfg (JObj d) part off w = (r, w') \<and> redis w' = redis w2 \<and> kafka w' = kafka w2 \<and>
      postgres w' = postgres w2 \<and> pool_set w' = pool_set w2 \<and> (\<forall>n. tally n w' = tally n w2)"
    if "dispatch (worker_handlers S cfg) 0 (?ct, ?w1) = (r, (c', w2))" for r c' w2
  proof -
    let ?w3 = "tick PROCESSING_LATENCY w2"
    let ?w' = "?w3\<lparr>met := (met ?w3)\<lparr>gauges := (gauges (met ?w3))(ACTIVE_TASKS := gauges (met ?w3) ACTIVE_TASKS + (- 1))\<rparr>\<rparr>"
    have "process S cfg (JObj d) part off w = (r, ?w')"
      using h start that
      by (cases r) (simp_all add: process_def andthen_def bind_def try_finally_def add_gauge_def modify_def
          timed_def of_result_def ask_host_def in_context_def observe_def)
    moreover have "redis ?w' = redis w2" "kafka ?w' = kafka w2" "postgres ?w' = postgres w2"
      "pool_set ?w' = pool_set w2" "\<And>n. tally n ?w' = tally n w2" by simp_all
    ultimately show ?thesis by blast
  qed
  moreover have "wc_raw_event ?ct = JObj d" by (simp add: new_worker_context_def)
  moreover have "redis ?w1 = redis w" "kafka ?w1 = kafka w" "postgres ?w1 = postgres w"
    "pool_set ?w1 = pool_set w" "\<And>n. tally n ?w1 = tally n w" by simp_all
  ultimately show ?thesis by blast
qed

text \<open>A duplicate: nothing but Redis is touched.\<close>

lemma duplicate_run:
  assumes "map_of d (lit ''event_id'') = Some i" "truthy i"
    and "\<And>w1. redis w1 = redis w \<Longrightarrow> \<exists>w2. is_new S cfg i w1 = (Inr False, w2) \<and> redis w2 = x"
  shows "\<exists>w'. process S cfg (JObj d) part off w = (Inr (), w') \<and>
    kafka w' = kafka w \<and> postgres w' = postgres w \<and> redis w' = x \<and> one_outcome EVENTS_DUPLICATE w w'"
proof -
  from process_by_handlers [of d w S cfg part off] obtain c w1 where c: "wc_raw_event c = JObj d"
    and w1: "redis w1 = redis w" "kafka w1 = kafka w" "postgres w1 = postgres w" "\<And>n. tally n w1 = tally n w"
    and ends: "\<And>r c' w2. dispatch (worker_handlers S cfg) 0 (c, w1) = (r, (c', w2)) \<Longrightarrow>
      \<exists>w'. process S cfg (JObj d) part off w = (r, w') \<and> redis w' = redis w2 \<and> kafka w' = kafka w2 \<and>
        postgres w' = postgres w2 \<and> (\<forall>n. tally n w' = tally n w2)" by blast
  obtain w2 where w2: "is_new S cfg i w1 = (Inr False, w2)" "redis w2 = x" using assms(3) w1(1) by blast
  have "dispatch (worker_handlers S cfg) 0 (c, w1) = (Inr (), (c, w2))"
    using w2(1) assms(1,2) c
    by (simp add: worker_handlers_list IdempotencyHandler_def bind_def gets_def of_result_def eff_def ret_def)
  from ends [OF this] is_new_frame [OF w2(1)] w1 w2(2) show ?thesis by (auto simp: one_outcome_def)
qed

text \<open>A new event whose id cannot be a key: the handlers raise before they have written anything.\<close>

lemma bad_id_run:
  assumes "uncancelled S" "dlq_key (dlq_id_of d) = Inl e"
    and "map_of d (lit ''event_id'') = Some i" "truthy i"
    and "\<And>w1. redis w1 = redis w \<Longrightarrow> \<exists>w2. is_new S cfg i w1 = (Inr True, w2) \<and> redis w2 = x"
  shows "\<exists>w'. process S cfg (JObj d) part off w = (Inl e, w') \<and>
    kafka w' = kafka w \<and> postgres w' = postgres w \<and> redis w' = x"
proof -
  from process_by_handlers [of d w S cfg part off] obtain c w1 where c: "wc_raw_event c = JObj d"
    and w1: "redis w1 = redis w" "kafka w1 = kafka w" "postgres w1 = postgres w"
    and ends: "\<And>r c' w2. dispatch (worker_handlers S cfg) 0 (c, w1) = (r, (c', w2)) \<Longrightarrow>
      \<exists>w'. process S cfg (JObj d) part off w = (r, w') \<and> redis w' = redis w2 \<and> kafka w' = kafka w2 \<and>
        postgres w' = postgres w2" by blast
  obtain w2 where w2: "is_new S cfg i w1 = (Inr True, w2)" "redis w2 = x" using assms(5) w1(1) by blast
  obtain e' where e': "IoTEvent (py_of S) d = Inl e'" using bad_id_event(2) [OF assms(2)] by blast
  then have "ordinary e'" by (simp add: IoTEvent_Inl)
  obtain r w3 where send: "dlq_send S cfg (JObj d) (lit ''VALIDATION_ERROR'') (msg e') 0 dlq_topic_default
      (wc_kafka_partition c) (wc_kafka_offset c) w2 = (r, w3)" by (metis surj_pair)
  from dlq_send_bad [OF assms(2) send]
  have w3: "r = Inl e" "kafka w3 = kafka w2" "postgres w3 = postgres w2" "redis w3 = redis w2" by simp_all
  have "dispatch (worker_handlers S cfg) 0 (c, w1) = (r, (c, w3))"
    using w2(1) assms(3,4) c e' \<open>ordinary e'\<close> send
    by (simp add: worker_handlers_list IdempotencyHandler_def WorkerValidationHandler_def bind_def
        gets_def of_result_def eff_def IoTEvent_of_def try_except_def catching_def send_context_def)
  from ends [OF this] is_new_frame [OF w2(1)] w1 w2(2) w3 show ?thesis by auto
qed

text \<open>C13: The docstring of \<open>process\<close>, that it never raises, does not hold for every event: an event whose
  id is an int makes it raise, and neither the database nor Kafka
  changes, so that the event is in no table and in no topic. Moreover the id has been claimed: when
  the event is delivered again, it is skipped as a duplicate and the offset is committed. The event
  is the sample event with the number 5 for an id.\<close>

theorem poison_event_vanishes:
  "\<exists>e w1 w2. process good_worker worker_defaults (JObj int_id_dict) (Some 0) (Some 7) worker_world = (Inl e, w1) \<and>
     isinstance e ''AttributeError'' \<and>
     process good_worker worker_defaults (JObj int_id_dict) (Some 0) (Some 7) w1 = (Inr (), w2) \<and>
     one_outcome EVENTS_DUPLICATE w1 w2 \<and>
     rk_log (kafka w2) = [] \<and> rp_tables (postgres w2) = migrated"
proof -
  let ?e = "no_attribute (JInt 5) ''encode''" and ?r = "redis_of good_worker"
  let ?key = "idempotency_key (py_of good_worker) (JInt 5)"
  have id: "map_of int_id_dict (lit ''event_id'') = Some (JInt 5)" "truthy (JInt 5)"
    by (simp_all add: int_id_dict_def)
  obtain x where x: "r_set_nx ?r ?key (lit ''1'') (W_IDEMPOTENCY_TTL_SECONDS worker_defaults) empty_redis
      = (Inr True, x)" "r_set_nx ?r ?key (lit ''1'') (W_IDEMPOTENCY_TTL_SECONDS worker_defaults) x
      = (Inr False, x\<lparr>rr_now := 2\<rparr>)"
    by (simp add: good_worker_def worker_services_def ref_redis_def rr_call_def rr_set_nx_def rr_at_def
        empty_redis_def worker_defaults_def)
  have "\<exists>w2. is_new good_worker worker_defaults (JInt 5) w1 = (Inr True, w2) \<and> redis w2 = x"
    if "redis w1 = redis worker_world" for w1
    using is_new_answers [of good_worker "JInt 5" worker_defaults w1] x(1) that
    by (simp add: worker_world_def)
  from bad_id_run [where w = worker_world, OF gw.uncancelled_axioms int_id_key id this] obtain w1 where
    w1: "process good_worker worker_defaults (JObj int_id_dict) (Some 0) (Some 7) worker_world = (Inl ?e, w1)"
    "kafka w1 = kafka worker_world" "postgres w1 = postgres worker_world" "redis w1 = x" by blast
  have "\<exists>w2. is_new good_worker worker_defaults (JInt 5) w = (Inr False, w2) \<and> redis w2 = x\<lparr>rr_now := 2\<rparr>"
    if "redis w = redis w1" for w
    using is_new_answers [of good_worker "JInt 5" worker_defaults w False "x\<lparr>rr_now := 2\<rparr>"] x(2) that w1(4)
    by simp
  from duplicate_run [where w = w1, OF id this] obtain w2 where
    "process good_worker worker_defaults (JObj int_id_dict) (Some 0) (Some 7) w1 = (Inr (), w2)"
    "kafka w2 = kafka w1" "postgres w2 = postgres w1" "one_outcome EVENTS_DUPLICATE w1 w2" by auto
  with w1 show ?thesis
    by (intro exI [of _ ?e] exI [of _ w1] exI [of _ w2])
       (simp add: no_attribute_def AttributeError_def worker_world_def empty_kafka_def fresh_pg_def)
qed

end
