(* ===== verification/Coroutine.thy ===== *)
theory Coroutine
  imports Iot_Prelude
begin

text \<open>
  Coroutines, as asyncio runs them.

  A coroutine of type \<open>('s, 'a) co\<close> runs from a state up to its next \<open>await\<close>: it is then \<open>Done\<close> with a
  result, or \<open>Paused\<close> with the function that goes on. Between two pauses no other task runs, at a
  pause any number of them may. What a paused coroutine is told when it goes on is a \<open>signal\<close>: the
  call that it awaits is answered (\<open>Proceed\<close>), or its task has been cancelled, so that the call
  raises \<open>CancelledError\<close>, before it took effect (\<open>Abort_unsent\<close>) or after it did (\<open>Abort_sent\<close>).
  A call takes effect at the moment its task goes on.

  The combinators are those of the actions of \<open>Iot_Prelude\<close>. \<open>run\<close> lets a coroutine run without
  other tasks, every call being answered; the lemmas \<open>run_simps\<close> say that it takes each combinator
  to that of the actions. \<open>ends_within\<close>, \<open>co_leads\<close>, \<open>co_raises\<close> and \<open>co_dies\<close> are what can be said of
  a coroutine whatever the other tasks do while it is paused; for each of them there are rules that
  go through a coroutine by its syntax.
\<close>

datatype signal = Proceed | Abort_unsent | Abort_sent

datatype ('s, 'a) pause =
    Done "exn + 'a"
  | Paused "signal \<Rightarrow> 's \<Rightarrow> ('s, 'a) pause \<times> 's"

type_synonym ('s, 'a) co = "'s \<Rightarrow> ('s, 'a) pause \<times> 's"

text \<open>The recursion goes through the pair of the function's result; this is the induction to use.\<close>

lemma pause_induct [case_names Done Paused, induct type: pause]:
  assumes "\<And>r. P (Done r)" "\<And>k. (\<And>sig s. P (fst (k sig s))) \<Longrightarrow> P (Paused k)"
  shows "P q"
proof (induction q rule: pause.induct)
  case (Done r)
  show ?case by (rule assms(1))
next
  case (Paused k)
  have "P (fst (k sig s))" for sig s
    using Paused [of "k sig" "k sig s" "fst (k sig s)"] by (simp add: fsts.simps prod.exhaust_sel)
  then show ?case by (rule assms(2))
qed

section \<open>Combinators\<close>

text \<open>Code without \<open>await\<close>, and one awaited call.\<close>

definition sync :: "('s, 'a) io \<Rightarrow> ('s, 'a) co" where
  "sync m = (\<lambda>s. case m s of (r, s') \<Rightarrow> (Done r, s'))"

definition await :: "('s, 'a) io \<Rightarrow> ('s, 'a) co" where
  "await m = (\<lambda>s. (Paused (\<lambda>sig s1. case sig of
       Proceed \<Rightarrow> (case m s1 of (r, s2) \<Rightarrow> (Done r, s2))
     | Abort_unsent \<Rightarrow> (Done (Inl CancelledError), s1)
     | Abort_sent \<Rightarrow> (Done (Inl CancelledError), snd (m s1))), s))"

text \<open>\<open>co_then p f\<close> goes on with \<open>f\<close>, whether \<open>p\<close> returned or raised.\<close>

primrec pause_then :: "('s, 'a) pause \<Rightarrow> (exn + 'a \<Rightarrow> ('s, 'b) co) \<Rightarrow> ('s, 'b) co" where
  "pause_then (Done r) f = f r"
| "pause_then (Paused k) f =
     (\<lambda>s. (Paused (\<lambda>sig s1. case map_prod (\<lambda>q. pause_then q f) id (k sig s1) of (h, s2) \<Rightarrow> h s2), s))"

definition co_then :: "('s, 'a) co \<Rightarrow> (exn + 'a \<Rightarrow> ('s, 'b) co) \<Rightarrow> ('s, 'b) co" where
  "co_then p f = (\<lambda>s. case p s of (q, s') \<Rightarrow> pause_then q f s')"

definition co_bind :: "('s, 'a) co \<Rightarrow> ('a \<Rightarrow> ('s, 'b) co) \<Rightarrow> ('s, 'b) co" where
  "co_bind p f = co_then p (\<lambda>r. case r of Inl e \<Rightarrow> sync (raise e) | Inr x \<Rightarrow> f x)"

definition co_andthen :: "('s, 'a) co \<Rightarrow> ('s, 'b) co \<Rightarrow> ('s, 'b) co" where
  "co_andthen p q = co_bind p (\<lambda>_. q)"

definition co_try :: "('s, 'a) co \<Rightarrow> (exn \<Rightarrow> ('s, 'a) co) \<Rightarrow> ('s, 'a) co" where
  "co_try p h = co_then p (\<lambda>r. case r of Inl e \<Rightarrow> h e | Inr x \<Rightarrow> sync (ret x))"

definition co_catching :: "string \<Rightarrow> (exn \<Rightarrow> ('s, 'a) co) \<Rightarrow> exn \<Rightarrow> ('s, 'a) co" where
  "co_catching c h e = (if isinstance e c then h e else sync (raise e))"

definition co_finally :: "('s, 'a) co \<Rightarrow> ('s, unit) co \<Rightarrow> ('s, 'a) co" where
  "co_finally p f = co_then p (\<lambda>r. co_bind f (\<lambda>_. sync (of_result r)))"

text \<open>A coroutine on a part of the state: \<open>get\<close> reads the part and \<open>put\<close> writes it back. \<open>co_hide\<close>
  makes the first component of the state a local variable, which the other tasks do not see.\<close>

primrec pause_zoom :: "('t \<Rightarrow> 's) \<Rightarrow> ('s \<Rightarrow> 't \<Rightarrow> 't) \<Rightarrow> ('s, 'a) pause \<Rightarrow> ('t, 'a) pause" where
  "pause_zoom get put (Done r) = Done r"
| "pause_zoom get put (Paused k) =
     Paused (\<lambda>sig t. map_prod (pause_zoom get put) (\<lambda>s. put s t) (k sig (get t)))"

definition co_zoom :: "('t \<Rightarrow> 's) \<Rightarrow> ('s \<Rightarrow> 't \<Rightarrow> 't) \<Rightarrow> ('s, 'a) co \<Rightarrow> ('t, 'a) co" where
  "co_zoom get put p = (\<lambda>t. map_prod (pause_zoom get put) (\<lambda>s. put s t) (p (get t)))"

primrec pause_hide :: "('l \<times> 't, 'a) pause \<Rightarrow> 'l \<Rightarrow> ('t, 'a) pause" where
  "pause_hide (Done r) = (\<lambda>l. Done r)"
| "pause_hide (Paused k) =
     (\<lambda>l. Paused (\<lambda>sig t. case map_prod pause_hide id (k sig (l, t)) of (h, (l', t')) \<Rightarrow> (h l', t')))"

definition co_hide :: "'l \<Rightarrow> ('l \<times> 't, 'a) co \<Rightarrow> ('t, 'a) co" where
  "co_hide l p = (\<lambda>t. case p (l, t) of (q, (l', t')) \<Rightarrow> (pause_hide q l', t'))"

text \<open>The three forms in which the handlers use them (\<open>eff\<close>, \<open>up\<close>, \<open>with_var\<close>).\<close>

definition co_eff :: "('w, 'a) co \<Rightarrow> ('c \<times> 'w, 'a) co" where
  "co_eff = co_zoom snd (\<lambda>w (c, _). (c, w))"

definition co_up :: "('c \<times> 'w, 'a) co \<Rightarrow> (('l \<times> 'c) \<times> 'w, 'a) co" where
  "co_up = co_zoom (\<lambda>((l, c), w). (c, w)) (\<lambda>(c', w') ((l, c), w). ((l, c'), w'))"

definition co_with_var :: "'l \<Rightarrow> (('l \<times> 'c) \<times> 'w, 'a) co \<Rightarrow> ('c \<times> 'w, 'a) co" where
  "co_with_var v p = co_hide v (co_zoom (\<lambda>(l, (c, w)). ((l, c), w)) (\<lambda>((l, c), w) _. (l, (c, w))) p)"

section \<open>Equations\<close>

lemma pause_then_Paused [simp]:
  "pause_then (Paused k) f = (\<lambda>s. (Paused (\<lambda>sig s1. case k sig s1 of (q, s2) \<Rightarrow> pause_then q f s2), s))"
  by (simp add: map_prod_def case_prod_beta fun_eq_iff)

lemma pause_hide_Paused [simp]:
  "pause_hide (Paused k) l =
     Paused (\<lambda>sig t. case k sig (l, t) of (q, (l', t')) \<Rightarrow> (pause_hide q l', t'))"
  by (simp add: map_prod_def case_prod_beta fun_eq_iff)

lemma pause_zoom_Paused [simp]:
  "pause_zoom get put (Paused k) =
     Paused (\<lambda>sig t. case k sig (get t) of (q, s) \<Rightarrow> (pause_zoom get put q, put s t))"
  by (simp add: map_prod_def case_prod_beta fun_eq_iff)

declare pause_then.simps(2) [simp del] pause_hide.simps(2) [simp del] pause_zoom.simps(2) [simp del]

section \<open>Running without other tasks\<close>

primrec pause_run :: "('s, 'a) pause \<Rightarrow> ('s, 'a) io" where
  "pause_run (Done r) = (\<lambda>s. (r, s))"
| "pause_run (Paused k) = (\<lambda>s. case map_prod pause_run id (k Proceed s) of (h, s') \<Rightarrow> h s')"

lemma pause_run_Paused [simp]:
  "pause_run (Paused k) s = (case k Proceed s of (q, s') \<Rightarrow> pause_run q s')"
  by (simp add: map_prod_def case_prod_beta)

declare pause_run.simps(2) [simp del]

definition run :: "('s, 'a) co \<Rightarrow> ('s, 'a) io" where
  "run p = (\<lambda>s. case p s of (q, s') \<Rightarrow> pause_run q s')"

named_theorems run_simps \<open>what running a coroutine alone does, by syntax\<close>

lemma pause_run_then:
  "(case pause_then q f s of (q', s') \<Rightarrow> pause_run q' s') =
     (case pause_run q s of (r, s') \<Rightarrow> run (f r) s')"
proof (induction q arbitrary: s)
  case (Done r)
  then show ?case by (simp add: run_def)
next
  case (Paused k)
  from this [of Proceed s "snd (k Proceed s)"] show ?case by (simp add: case_prod_beta)
qed

lemma run_then: "run (co_then p f) s = (case run p s of (r, s') \<Rightarrow> run (f r) s')"
proof (cases "p s")
  case (Pair q s1)
  then show ?thesis
    using pause_run_then [of q f s1] by (simp add: run_def co_then_def)
qed

lemma run_sync [run_simps]: "run (sync m) = m"
  by (auto simp: run_def sync_def fun_eq_iff split: prod.splits)

lemma run_await [run_simps]: "run (await m) = m"
  by (auto simp: run_def await_def fun_eq_iff split: prod.splits)

lemma run_bind [run_simps]: "run (co_bind p f) = bind (run p) (\<lambda>x. run (f x))"
  by (auto simp: co_bind_def run_then bind_def run_sync raise_def fun_eq_iff split: prod.splits sum.splits)

lemma run_andthen [run_simps]: "run (co_andthen p q) = andthen (run p) (run q)"
  by (simp add: co_andthen_def andthen_def run_bind)

lemma run_try [run_simps]: "run (co_try p h) = try_except (run p) (\<lambda>e. run (h e))"
  by (auto simp: co_try_def run_then try_except_def run_sync ret_def fun_eq_iff split: prod.splits sum.splits)

lemma run_catching [run_simps]: "run (co_catching c h e) = catching c (\<lambda>e. run (h e)) e"
  by (simp add: co_catching_def catching_def run_sync)

lemma run_finally [run_simps]: "run (co_finally p f) = try_finally (run p) (run f)"
  by (auto simp: co_finally_def run_then run_bind run_sync try_finally_def bind_def of_result_def
      fun_eq_iff split: prod.splits sum.splits)

text \<open>\<open>zoomed get put m\<close>: the action on a part of the state.\<close>

definition zoomed :: "('t \<Rightarrow> 's) \<Rightarrow> ('s \<Rightarrow> 't \<Rightarrow> 't) \<Rightarrow> ('s, 'a) io \<Rightarrow> ('t, 'a) io" where
  "zoomed get put m = (\<lambda>t. case m (get t) of (r, s) \<Rightarrow> (r, put s t))"

definition lens :: "('t \<Rightarrow> 's) \<Rightarrow> ('s \<Rightarrow> 't \<Rightarrow> 't) \<Rightarrow> bool" where
  "lens get put \<longleftrightarrow> (\<forall>s t. get (put s t) = s) \<and> (\<forall>s s' t. put s' (put s t) = put s' t)"

lemma pause_run_zoom:
  assumes "lens get put"
  shows "pause_run (pause_zoom get put q) (put s t) = (case pause_run q s of (r, s') \<Rightarrow> (r, put s' t))"
  using assms by (induction q arbitrary: s) (auto simp: lens_def case_prod_beta)

lemma run_zoom: "lens get put \<Longrightarrow> run (co_zoom get put p) = zoomed get put (run p)"
  by (auto simp: run_def co_zoom_def zoomed_def pause_run_zoom fun_eq_iff split: prod.splits)

lemma pause_run_hide:
  "pause_run (pause_hide q l) t = (case pause_run q (l, t) of (r, (l', t')) \<Rightarrow> (r, t'))"
proof (induction q arbitrary: l t)
  case (Paused k)
  from this [of Proceed "(l, t)" "fst (snd (k Proceed (l, t)))" "snd (snd (k Proceed (l, t)))"]
  show ?case by (simp add: case_prod_beta)
qed simp

lemma run_hide: "run (co_hide l p) t = (case run p (l, t) of (r, (l', t')) \<Rightarrow> (r, t'))"
  by (auto simp: run_def co_hide_def pause_run_hide split: prod.splits)

lemma run_eff [run_simps]: "run (co_eff p) = eff (run p)"
  unfolding co_eff_def
  by (subst run_zoom) (auto simp: lens_def zoomed_def eff_def fun_eq_iff split: prod.splits)

lemma run_up [run_simps]: "run (co_up p) = up (run p)"
  unfolding co_up_def
  by (subst run_zoom) (auto simp: lens_def zoomed_def up_def fun_eq_iff split: prod.splits)

lemma run_with_var [run_simps]: "run (co_with_var v p) = with_var v (run p)"
proof -
  have "lens (\<lambda>(l, (c, w)). ((l, c), w)) (\<lambda>((l, c), w) _. (l, (c, w)))" by (auto simp: lens_def)
  from run_zoom [OF this, of p] show ?thesis
    by (auto simp: co_with_var_def run_hide zoomed_def with_var_def fun_eq_iff split: prod.splits)
qed

lemma run_If [run_simps]: "run (if b then p else q) = (if b then run p else run q)"
  by simp

section \<open>How often a coroutine pauses\<close>

text \<open>Whatever it is told at its pauses, and in whatever states: after at most \<open>n\<close> pauses it ends.\<close>

inductive pause_within :: "nat \<Rightarrow> ('s, 'a) pause \<Rightarrow> bool" where
  within_Done: "pause_within n (Done r)"
| within_Paused: "(\<And>sig s. pause_within n (fst (k sig s))) \<Longrightarrow> pause_within (Suc n) (Paused k)"

inductive_cases within_PausedE: "pause_within n (Paused k)"

definition ends_within :: "nat \<Rightarrow> ('s, 'a) co \<Rightarrow> bool" where
  "ends_within n p \<longleftrightarrow> (\<forall>s. pause_within n (fst (p s)))"

named_theorems within_intros \<open>how often a coroutine pauses, by syntax\<close>

lemma pause_within_mono: "pause_within n q \<Longrightarrow> n \<le> m \<Longrightarrow> pause_within m q"
proof (induction n q arbitrary: m rule: pause_within.induct)
  case (within_Paused n k)
  then show ?case by (cases m) (auto intro: pause_within.intros)
qed (rule pause_within.intros)

lemma ends_within_mono: "ends_within n p \<Longrightarrow> n \<le> m \<Longrightarrow> ends_within m p"
  unfolding ends_within_def using pause_within_mono by blast

lemma pause_within_then:
  assumes "pause_within n q" "\<And>r. ends_within m (f r)"
  shows "pause_within (n + m) (fst (pause_then q f s))"
  using assms(1)
proof (induction n q arbitrary: s rule: pause_within.induct)
  case (within_Done n r)
  then show ?case using assms(2) ends_within_mono [of m "f r" "n + m"] by (simp add: ends_within_def)
next
  case (within_Paused n k)
  then show ?case by (auto simp: case_prod_beta intro: pause_within.within_Paused)
qed

lemma ends_within_then:
  "ends_within n p \<Longrightarrow> (\<And>r. ends_within m (f r)) \<Longrightarrow> ends_within (n + m) (co_then p f)"
  by (auto simp: ends_within_def co_then_def case_prod_beta
      intro: pause_within_then [unfolded ends_within_def])

lemma within_sync [within_intros]: "ends_within 0 (sync m)"
  by (auto simp: ends_within_def sync_def case_prod_beta intro: within_Done)

lemma within_await [within_intros]: "ends_within 1 (await m)"
  unfolding ends_within_def await_def One_nat_def
  by (auto simp: case_prod_beta split: signal.split intro!: within_Paused within_Done)

lemma within_bind [within_intros]:
  "ends_within n p \<Longrightarrow> (\<And>x. ends_within m (f x)) \<Longrightarrow> ends_within (n + m) (co_bind p f)"
  unfolding co_bind_def
  by (rule ends_within_then)
     (auto split: sum.split intro: ends_within_mono [OF within_sync])

lemma within_andthen [within_intros]:
  "ends_within n p \<Longrightarrow> ends_within m q \<Longrightarrow> ends_within (n + m) (co_andthen p q)"
  by (simp add: co_andthen_def within_bind)

lemma within_try [within_intros]:
  "ends_within n p \<Longrightarrow> (\<And>e. ends_within m (h e)) \<Longrightarrow> ends_within (n + m) (co_try p h)"
  unfolding co_try_def
  by (rule ends_within_then)
     (auto split: sum.split intro: ends_within_mono [OF within_sync])

lemma within_catching [within_intros]: "ends_within n (h e) \<Longrightarrow> ends_within n (co_catching c h e)"
  by (auto simp: co_catching_def intro: ends_within_mono [OF within_sync])

lemma within_finally [within_intros]:
  assumes "ends_within n p" "ends_within m f" shows "ends_within (n + m) (co_finally p f)"
  unfolding co_finally_def
  by (rule ends_within_then [OF assms(1)])
     (use within_bind [OF assms(2) within_sync] in simp)

lemma pause_within_zoom: "pause_within n q \<Longrightarrow> pause_within n (pause_zoom get put q)"
  by (induction n q rule: pause_within.induct) (auto simp: case_prod_beta intro: pause_within.intros)

lemma pause_within_hide: "pause_within n q \<Longrightarrow> pause_within n (pause_hide q l)"
  by (induction n q arbitrary: l rule: pause_within.induct)
     (auto simp: case_prod_beta intro: pause_within.intros)

lemma within_zoom [within_intros]:
  "ends_within n p \<Longrightarrow> ends_within n (co_zoom get put p)"
  "ends_within n p \<Longrightarrow> ends_within n (co_eff p)" "ends_within n p' \<Longrightarrow> ends_within n (co_up p')"
  by (auto simp: ends_within_def co_zoom_def co_eff_def co_up_def map_prod_def case_prod_beta
      intro: pause_within_zoom)

lemma within_hide [within_intros]: "ends_within n p \<Longrightarrow> ends_within n (co_hide l p)"
  by (auto simp: ends_within_def co_hide_def case_prod_beta intro: pause_within_hide)

lemma within_with_var [within_intros]: "ends_within n p \<Longrightarrow> ends_within n (co_with_var v p)"
  unfolding co_with_var_def by (intro within_hide within_zoom)

lemma within_If [within_intros]:
  "ends_within n p \<Longrightarrow> ends_within m q \<Longrightarrow> ends_within (max n m) (if b then p else q)"
  by (auto intro: ends_within_mono)

section \<open>What a coroutine does between its pauses\<close>

text \<open>Each stretch from one pause to the next, whatever it was told, leads from a state to one that is
  related to it by \<open>R\<close>.\<close>

inductive pause_leads :: "('s \<Rightarrow> 's \<Rightarrow> bool) \<Rightarrow> ('s, 'a) pause \<Rightarrow> bool" for R where
  leads_Done: "pause_leads R (Done r)"
| leads_Paused: "(\<And>sig s. R s (snd (k sig s))) \<Longrightarrow> (\<And>sig s. pause_leads R (fst (k sig s))) \<Longrightarrow>
    pause_leads R (Paused k)"

inductive_cases leads_PausedE: "pause_leads R (Paused k)"

definition co_leads :: "('s \<Rightarrow> 's \<Rightarrow> bool) \<Rightarrow> ('s, 'a) co \<Rightarrow> bool" where
  "co_leads R p \<longleftrightarrow> (\<forall>s. R s (snd (p s)) \<and> pause_leads R (fst (p s)))"

lemma preorder_relD: "preorder_rel R \<Longrightarrow> R x x" "preorder_rel R \<Longrightarrow> R x y \<Longrightarrow> R y z \<Longrightarrow> R x z"
  unfolding preorder_rel_def by blast+

lemma pause_leads_then:
  assumes "preorder_rel R" "pause_leads R q" "\<And>r. co_leads R (f r)"
  shows "R s (snd (pause_then q f s)) \<and> pause_leads R (fst (pause_then q f s))"
  using assms(2)
proof (induction q arbitrary: s rule: pause_leads.induct)
  case (leads_Done r)
  then show ?case using assms(3) by (simp add: co_leads_def)
next
  case (leads_Paused k)
  have "R t (snd (pause_then (fst (k sig t)) f (snd (k sig t))))" for sig t
    using leads_Paused preorder_relD(2) [OF assms(1)] by blast
  with leads_Paused preorder_relD(1) [OF assms(1)] show ?case
    by (auto simp: case_prod_beta intro!: pause_leads.leads_Paused)
qed

lemma co_leads_then:
  assumes "preorder_rel R" "co_leads R p" "\<And>r. co_leads R (f r)"
  shows "co_leads R (co_then p f)"
proof -
  have "R s (snd (co_then p f s)) \<and> pause_leads R (fst (co_then p f s))" for s
  proof -
    have "R s (snd (p s))" "pause_leads R (fst (p s))" using assms(2) by (simp_all add: co_leads_def)
    with pause_leads_then [of R "fst (p s)" f "snd (p s)", OF assms(1) _ assms(3)]
    show ?thesis
      using preorder_relD(2) [OF assms(1)] by (auto simp: co_then_def case_prod_beta)
  qed
  then show ?thesis by (simp add: co_leads_def)
qed

lemma co_leads_sync [leads_intros]: "leads R m \<Longrightarrow> co_leads R (sync m)"
  by (auto simp: co_leads_def sync_def case_prod_beta leads_def intro: leads_Done) (metis surjective_pairing)

lemma co_leads_await [leads_intros]:
  assumes "preorder_rel R" "leads R m" shows "co_leads R (await m)"
proof -
  have "R s (snd (m s))" for s using leadsD [OF assms(2) surjective_pairing] .
  then show ?thesis
    using preorder_relD(1) [OF assms(1)]
    by (auto simp: co_leads_def await_def case_prod_beta split: signal.split
        intro!: leads_Paused leads_Done)
qed

lemma co_leads_bind [leads_intros]:
  assumes "preorder_rel R" "co_leads R p" "\<And>x. co_leads R (f x)" shows "co_leads R (co_bind p f)"
  unfolding co_bind_def
  by (rule co_leads_then [OF assms(1,2)])
     (auto split: sum.split intro: assms co_leads_sync leads_raise)

lemma co_leads_andthen [leads_intros]:
  "preorder_rel R \<Longrightarrow> co_leads R p \<Longrightarrow> co_leads R q \<Longrightarrow> co_leads R (co_andthen p q)"
  by (simp add: co_andthen_def co_leads_bind)

lemma co_leads_try [leads_intros]:
  assumes "preorder_rel R" "co_leads R p" "\<And>e. co_leads R (h e)" shows "co_leads R (co_try p h)"
  unfolding co_try_def
  by (rule co_leads_then [OF assms(1,2)])
     (auto split: sum.split intro: assms co_leads_sync leads_ret)

lemma co_leads_catching [leads_intros]:
  "preorder_rel R \<Longrightarrow> co_leads R (h e) \<Longrightarrow> co_leads R (co_catching c h e)"
  by (auto simp: co_catching_def intro: co_leads_sync leads_raise)

lemma co_leads_finally [leads_intros]:
  assumes "preorder_rel R" "co_leads R p" "co_leads R f" shows "co_leads R (co_finally p f)"
  unfolding co_finally_def
  by (intro co_leads_then co_leads_bind co_leads_sync leads_of_result assms)

lemma co_leads_eff [leads_intros]: assumes "co_leads R p" shows "co_leads (on_snd R) (co_eff p)"
proof -
  have "pause_leads (on_snd R) (pause_zoom snd (\<lambda>w (c, _). (c, w)) q)" if "pause_leads R q" for q
    using that
    by (induction q rule: pause_leads.induct)
       (auto simp: case_prod_beta on_snd_def intro!: pause_leads.intros)
  then show ?thesis
    using assms by (auto simp: co_leads_def co_eff_def co_zoom_def map_prod_def case_prod_beta on_snd_def)
qed

lemma co_leads_up [leads_intros]:
  assumes "co_leads (on_snd R) p" shows "co_leads (on_snd R) (co_up p)"
proof -
  let ?z = "pause_zoom (\<lambda>((l, c), w). (c, w)) (\<lambda>(c', w') ((l, c), w). ((l, c'), w'))"
  have "pause_leads (on_snd R) (?z q)" if "pause_leads (on_snd R) q" for q
    using that
    by (induction q rule: pause_leads.induct)
       (auto simp: case_prod_beta on_snd_def intro!: pause_leads.intros)
  then show ?thesis
    using assms by (auto simp: co_leads_def co_up_def co_zoom_def map_prod_def case_prod_beta on_snd_def)
qed

text \<open>A local variable, for the two places in which it can stand.\<close>

lemma pause_leads_hide:
  assumes "\<And>l t l' t'. Q (l, t) (l', t') \<Longrightarrow> R t t'" "pause_leads Q q"
  shows "pause_leads R (pause_hide q l)"
  using assms(2)
proof (induction q arbitrary: l rule: pause_leads.induct)
  case (leads_Paused k)
  have "R t (snd (snd (k sig (l, t))))" for sig t
    using leads_Paused(1) [of "(l, t)" sig] assms(1) by (metis surjective_pairing)
  with leads_Paused show ?case by (auto simp: case_prod_beta intro!: pause_leads.leads_Paused)
qed (simp add: pause_leads.leads_Done)

lemma co_leads_hide:
  assumes "\<And>l t l' t'. Q (l, t) (l', t') \<Longrightarrow> R t t'" "co_leads Q p"
  shows "co_leads R (co_hide l p)"
proof -
  have "R t (snd (snd (p (l, t)))) \<and> pause_leads R (pause_hide (fst (p (l, t))) l')" for t l'
  proof -
    have "Q (l, t) (snd (p (l, t)))" "pause_leads Q (fst (p (l, t)))"
      using assms(2) by (simp_all add: co_leads_def)
    then show ?thesis
      using assms(1) [of l t "fst (snd (p (l, t)))" "snd (snd (p (l, t)))"]
        pause_leads_hide [where Q = Q, OF assms(1)] by simp
  qed
  then show ?thesis by (auto simp: co_leads_def co_hide_def case_prod_beta)
qed

lemma co_leads_with_var [leads_intros]:
  assumes "co_leads (on_snd R) p" shows "co_leads (on_snd R) (co_with_var v p)"
proof -
  let ?g = "\<lambda>(l, (c, w)). ((l, c), w)" and ?p = "\<lambda>((l, c), w) _. (l, (c, w))"
  let ?Q = "\<lambda>s s'. on_snd R (snd s) (snd s')"
  have "pause_leads ?Q (pause_zoom ?g ?p q)" if "pause_leads (on_snd R) q" for q
    using that
    by (induction q rule: pause_leads.induct)
       (auto simp: case_prod_beta on_snd_def intro!: pause_leads.intros)
  then have "co_leads ?Q (co_zoom ?g ?p p)"
    using assms by (auto simp: co_leads_def co_zoom_def map_prod_def case_prod_beta on_snd_def)
  then show ?thesis unfolding co_with_var_def by (rule co_leads_hide [rotated]) simp
qed

lemma co_leads_If [leads_intros]:
  "(b \<Longrightarrow> co_leads R p) \<Longrightarrow> (\<not> b \<Longrightarrow> co_leads R q) \<Longrightarrow> co_leads R (if b then p else q)"
  by simp

section \<open>What a cancellation does\<close>

text \<open>A coroutine \<open>dies\<close> if at each of its pauses a cancellation ends it at once, with CancelledError,
  and does no more than \<open>R\<close> allows if the awaited call had not taken effect. \<open>passes\<close> is the same of a
  handler that is given the CancelledError.\<close>

inductive pause_dies :: "('s \<Rightarrow> 's \<Rightarrow> bool) \<Rightarrow> ('s, 'a) pause \<Rightarrow> bool" for R where
  dies_Done: "pause_dies R (Done r)"
| dies_Paused: "(\<And>sig s. sig \<noteq> Proceed \<Longrightarrow> fst (k sig s) = Done (Inl CancelledError)) \<Longrightarrow>
    (\<And>s. R s (snd (k Abort_unsent s))) \<Longrightarrow> (\<And>s. pause_dies R (fst (k Proceed s))) \<Longrightarrow>
    pause_dies R (Paused k)"

inductive_cases dies_PausedE: "pause_dies R (Paused k)"

definition co_dies :: "('s \<Rightarrow> 's \<Rightarrow> bool) \<Rightarrow> ('s, 'a) co \<Rightarrow> bool" where
  "co_dies R p \<longleftrightarrow> (\<forall>s. pause_dies R (fst (p s)))"

definition passes :: "('s \<Rightarrow> 's \<Rightarrow> bool) \<Rightarrow> ('s, 'a) co \<Rightarrow> bool" where
  "passes R p \<longleftrightarrow> (\<forall>s. fst (p s) = Done (Inl CancelledError) \<and> R s (snd (p s)))"

named_theorems dies_intros \<open>what a cancellation does, by syntax\<close>

lemma pause_dies_then:
  assumes "preorder_rel R" "pause_dies R q" "\<And>r. co_dies R (f r)" "passes R (f (Inl CancelledError))"
  shows "pause_dies R (fst (pause_then q f s))"
  using assms(2)
proof (induction q arbitrary: s rule: pause_dies.induct)
  case (dies_Done r)
  then show ?case using assms(3) by (simp add: co_dies_def)
next
  case (dies_Paused k)
  have "R t (snd (pause_then (fst (k Abort_unsent t)) f (snd (k Abort_unsent t))))" for t
    using dies_Paused(1) [of Abort_unsent t] dies_Paused(2) [of t] assms(4) preorder_relD(2) [OF assms(1)]
    unfolding passes_def by fastforce
  with dies_Paused assms(4) show ?case
    by (auto simp: case_prod_beta passes_def intro!: pause_dies.dies_Paused)
qed

lemma co_dies_then:
  assumes "preorder_rel R" "co_dies R p" "\<And>r. co_dies R (f r)" "passes R (f (Inl CancelledError))"
  shows "co_dies R (co_then p f)"
  using assms(2) pause_dies_then [where f = f, OF assms(1) _ assms(3,4)]
  by (auto simp: co_dies_def co_then_def case_prod_beta)

lemma co_dies_sync [dies_intros]: "co_dies R (sync m)"
  by (auto simp: co_dies_def sync_def case_prod_beta intro: dies_Done)

lemma co_dies_await [dies_intros]: "preorder_rel R \<Longrightarrow> co_dies R (await m)"
  by (auto simp: co_dies_def await_def case_prod_beta preorder_relD split: signal.split
      intro!: pause_dies.intros)

lemma passes_raise [dies_intros]: "preorder_rel R \<Longrightarrow> passes R (sync (raise CancelledError))"
  by (simp add: passes_def sync_def raise_def preorder_relD)

lemma co_dies_bind [dies_intros]:
  assumes "preorder_rel R" "co_dies R p" "\<And>x. co_dies R (f x)" shows "co_dies R (co_bind p f)"
  unfolding co_bind_def
  by (rule co_dies_then [OF assms(1,2)])
     (auto split: sum.split intro: assms co_dies_sync passes_raise)

lemma co_dies_andthen [dies_intros]:
  "preorder_rel R \<Longrightarrow> co_dies R p \<Longrightarrow> co_dies R q \<Longrightarrow> co_dies R (co_andthen p q)"
  by (simp add: co_andthen_def co_dies_bind)

lemma co_dies_try [dies_intros]:
  assumes "preorder_rel R" "co_dies R p" "\<And>e. co_dies R (h e)" "passes R (h CancelledError)"
  shows "co_dies R (co_try p h)"
  unfolding co_try_def
  by (rule co_dies_then [OF assms(1,2)]) (auto split: sum.split intro: assms co_dies_sync)

lemma co_dies_catching [dies_intros]: "co_dies R (h e) \<Longrightarrow> co_dies R (co_catching c h e)"
  by (auto simp: co_catching_def intro: co_dies_sync)

lemma passes_catching [dies_intros]:
  "preorder_rel R \<Longrightarrow> \<not> isinstance CancelledError c \<Longrightarrow> passes R (co_catching c h CancelledError)"
  by (simp add: co_catching_def passes_raise)

lemma cancelled_not_ordinary [simp]: "isinstance CancelledError c \<longleftrightarrow> c = ''CancelledError'' \<or> c = ''BaseException''"
  by (auto simp: CancelledError_def)

text \<open>A \<open>finally\<close> without \<open>await\<close> that does not raise.\<close>

lemma co_dies_finally [dies_intros]:
  assumes "preorder_rel R" "co_dies R p" "leads R m" "quiet m"
  shows "co_dies R (co_finally p (sync m))"
proof -
  have "passes R (co_bind (sync m) (\<lambda>_. sync (of_result (Inl CancelledError))))"
  proof -
    have "\<exists>x. fst (m s) = Inr x" for s
      using raisesD [OF assms(4), of s _ "snd (m s)"] by (cases "fst (m s)") (auto simp: prod_eq_iff)
    moreover have "R s (snd (m s))" for s using leadsD [OF assms(3) surjective_pairing] .
    ultimately show ?thesis
      by (auto simp: passes_def co_bind_def co_then_def sync_def case_prod_beta of_result_def
          split: sum.split)
  qed
  then show ?thesis
    unfolding co_finally_def
    by (intro co_dies_then co_dies_bind co_dies_sync assms)
qed

lemma co_dies_eff [dies_intros]: assumes "co_dies R p" shows "co_dies (on_snd R) (co_eff p)"
proof -
  have "pause_dies (on_snd R) (pause_zoom snd (\<lambda>w (c, _). (c, w)) q)" if "pause_dies R q" for q
    using that
    by (induction q rule: pause_dies.induct)
       (auto simp: case_prod_beta on_snd_def intro!: pause_dies.intros)
  then show ?thesis
    using assms by (auto simp: co_dies_def co_eff_def co_zoom_def map_prod_def case_prod_beta)
qed

lemma co_dies_up [dies_intros]:
  assumes "co_dies (on_snd R) p" shows "co_dies (on_snd R) (co_up p)"
proof -
  let ?z = "pause_zoom (\<lambda>((l, c), w). (c, w)) (\<lambda>(c', w') ((l, c), w). ((l, c'), w'))"
  have "pause_dies (on_snd R) (?z q)" if "pause_dies (on_snd R) q" for q
    using that
    by (induction q rule: pause_dies.induct)
       (auto simp: case_prod_beta on_snd_def intro!: pause_dies.intros)
  then show ?thesis
    using assms by (auto simp: co_dies_def co_up_def co_zoom_def map_prod_def case_prod_beta)
qed

lemma co_dies_hide:
  assumes "\<And>l t l' t'. Q (l, t) (l', t') \<Longrightarrow> R t t'" "co_dies Q p"
  shows "co_dies R (co_hide l p)"
proof -
  have "pause_dies R (pause_hide q l)" if "pause_dies Q q" for q l
    using that
  proof (induction q arbitrary: l rule: pause_dies.induct)
    case (dies_Paused k)
    have "R t (snd (snd (k Abort_unsent (l, t))))" for t
      using dies_Paused(2) [of "(l, t)"] assms(1) by (metis surjective_pairing)
    with dies_Paused show ?case by (auto simp: case_prod_beta intro!: pause_dies.dies_Paused)
  qed (simp add: pause_dies.dies_Done)
  then show ?thesis using assms(2) by (auto simp: co_dies_def co_hide_def case_prod_beta)
qed

lemma co_dies_with_var [dies_intros]:
  assumes "co_dies (on_snd R) p" shows "co_dies (on_snd R) (co_with_var v p)"
proof -
  let ?g = "\<lambda>(l, (c, w)). ((l, c), w)" and ?p = "\<lambda>((l, c), w) _. (l, (c, w))"
  let ?Q = "\<lambda>s s'. on_snd R (snd s) (snd s')"
  have "pause_dies ?Q (pause_zoom ?g ?p q)" if "pause_dies (on_snd R) q" for q
    using that
    by (induction q rule: pause_dies.induct)
       (auto simp: case_prod_beta on_snd_def intro!: pause_dies.intros)
  then have "co_dies ?Q (co_zoom ?g ?p p)"
    using assms by (auto simp: co_dies_def co_zoom_def map_prod_def case_prod_beta)
  then show ?thesis unfolding co_with_var_def by (rule co_dies_hide [rotated]) simp
qed

lemma co_dies_If [dies_intros]:
  "(b \<Longrightarrow> co_dies R p) \<Longrightarrow> (\<not> b \<Longrightarrow> co_dies R q) \<Longrightarrow> co_dies R (if b then p else q)"
  by simp

end
