(* ===== verification/Coroutine_Spec.thy ===== *)
theory Coroutine_Spec
  imports Coroutine
begin

text \<open>
  A logic for coroutines among others. \<open>co_spec I G Q g p\<close> reads: begun in a state that the ghost
  value \<open>g\<close> fits (\<open>I\<close>), each stretch of \<open>p\<close> up to its next pause takes the ghost value and the state to
  others that fit, as \<open>G\<close> allows, and when \<open>p\<close> ends, its result satisfies \<open>Q\<close>. At a pause the state may
  become any other that the ghost value fits, so that a specification says what a task does however
  the other tasks interfere; its calls are answered, not cancelled.

  The ghost value of a handler is a value \<open>b\<close> with the context of the handler, which is local to its
  task (\<open>ctx_fits\<close>, \<open>ctx_step\<close>).
\<close>

type_synonym ('g, 's) step_rel = "'g \<Rightarrow> 's \<Rightarrow> 's \<Rightarrow> 'g \<Rightarrow> bool"

definition ghost_rel :: "('g \<Rightarrow> 's \<Rightarrow> bool) \<Rightarrow> ('g, 's) step_rel \<Rightarrow> bool" where
  "ghost_rel I G \<longleftrightarrow> (\<forall>g s. I g s \<longrightarrow> G g s s g) \<and>
     (\<forall>g1 s1 s2 g2 s3 g3. G g1 s1 s2 g2 \<longrightarrow> G g2 s2 s3 g3 \<longrightarrow> G g1 s1 s3 g3)"

inductive pause_spec :: "('g \<Rightarrow> 's \<Rightarrow> bool) \<Rightarrow> ('g, 's) step_rel \<Rightarrow> ('g \<Rightarrow> exn + 'a \<Rightarrow> bool) \<Rightarrow>
    'g \<Rightarrow> ('s, 'a) pause \<Rightarrow> bool" for I G Q where
  spec_Done: "Q g r \<Longrightarrow> pause_spec I G Q g (Done r)"
| spec_Paused: "(\<And>s. I g s \<Longrightarrow> \<exists>g'. I g' (snd (k Proceed s)) \<and> G g s (snd (k Proceed s)) g' \<and>
      pause_spec I G Q g' (fst (k Proceed s))) \<Longrightarrow>
    pause_spec I G Q g (Paused k)"

inductive_cases spec_DoneE: "pause_spec I G Q g (Done r)"
inductive_cases spec_PausedE: "pause_spec I G Q g (Paused k)"

definition co_spec :: "('g \<Rightarrow> 's \<Rightarrow> bool) \<Rightarrow> ('g, 's) step_rel \<Rightarrow> ('g \<Rightarrow> exn + 'a \<Rightarrow> bool) \<Rightarrow>
    'g \<Rightarrow> ('s, 'a) co \<Rightarrow> bool" where
  "co_spec I G Q g p \<longleftrightarrow>
     (\<forall>s. I g s \<longrightarrow> (\<exists>g'. I g' (snd (p s)) \<and> G g s (snd (p s)) g' \<and> pause_spec I G Q g' (fst (p s))))"

lemma co_specI:
  "(\<And>s. I g s \<Longrightarrow> \<exists>g'. I g' (snd (p s)) \<and> G g s (snd (p s)) g' \<and> pause_spec I G Q g' (fst (p s))) \<Longrightarrow>
   co_spec I G Q g p"
  by (simp add: co_spec_def)

lemma co_specD:
  assumes "co_spec I G Q g p" "I g s"
  obtains g' where "I g' (snd (p s))" "G g s (snd (p s)) g'" "pause_spec I G Q g' (fst (p s))"
  using assms unfolding co_spec_def by blast

lemma pause_spec_mono:
  assumes "\<And>g r. Q g r \<Longrightarrow> Q' g r" "pause_spec I G Q g q"
  shows "pause_spec I G Q' g q"
  using assms(2)
proof (induction g q rule: pause_spec.induct)
  case (spec_Done g r)
  show ?case by (rule pause_spec.spec_Done) (rule assms(1) [OF spec_Done])
next
  case (spec_Paused g k)
  show ?case
  proof (rule pause_spec.spec_Paused)
    fix s assume "I g s"
    from spec_Paused.IH [OF this] show "\<exists>g'. I g' (snd (k Proceed s)) \<and>
        G g s (snd (k Proceed s)) g' \<and> pause_spec I G Q' g' (fst (k Proceed s))" by (elim ex_forward) simp
  qed
qed

lemma co_spec_mono:
  assumes "co_spec I G Q g p" "\<And>g r. Q g r \<Longrightarrow> Q' g r"
  shows "co_spec I G Q' g p"
proof (rule co_specI)
  fix s assume "I g s"
  with assms(1) obtain g' where "I g' (snd (p s))" "G g s (snd (p s)) g'"
    "pause_spec I G Q g' (fst (p s))" by (rule co_specD)
  with pause_spec_mono [of Q Q', OF assms(2)] show "\<exists>g'. I g' (snd (p s)) \<and> G g s (snd (p s)) g' \<and>
      pause_spec I G Q' g' (fst (p s))" by fast
qed

section \<open>Rules\<close>

lemma pause_spec_then:
  assumes "ghost_rel I G" "pause_spec I G Q g q" "\<And>g r. Q g r \<Longrightarrow> co_spec I G Q' g (f r)" "I g s"
  shows "\<exists>g'. I g' (snd (pause_then q f s)) \<and> G g s (snd (pause_then q f s)) g' \<and>
    pause_spec I G Q' g' (fst (pause_then q f s))"
  using assms(2,4)
proof (induction g q arbitrary: s rule: pause_spec.induct)
  case (spec_Done g r)
  then show ?case using assms(3) by (simp add: co_spec_def)
next
  case (spec_Paused g k)
  have "\<exists>g'. I g' (snd (pause_then (fst (k Proceed t)) f (snd (k Proceed t)))) \<and>
      G g t (snd (pause_then (fst (k Proceed t)) f (snd (k Proceed t)))) g' \<and>
      pause_spec I G Q' g' (fst (pause_then (fst (k Proceed t)) f (snd (k Proceed t))))" if t: "I g t" for t
    using spec_Paused.IH [OF t] assms(1) unfolding ghost_rel_def by meson
  then have "pause_spec I G Q' g (fst (pause_then (Paused k) f s))"
    by (auto simp: case_prod_beta intro!: pause_spec.spec_Paused)
  with spec_Paused.prems assms(1) show ?case unfolding ghost_rel_def by auto
qed

lemma co_spec_then:
  assumes "ghost_rel I G" "co_spec I G Q g p" "\<And>g r. Q g r \<Longrightarrow> co_spec I G Q' g (f r)"
  shows "co_spec I G Q' g (co_then p f)"
proof (rule co_specI)
  fix s assume "I g s"
  with assms(2) obtain g1 where g1: "I g1 (snd (p s))" "G g s (snd (p s)) g1"
    "pause_spec I G Q g1 (fst (p s))" by (rule co_specD)
  from pause_spec_then [where f = f, OF assms(1) g1(3) assms(3) g1(1)] g1(2) assms(1)
  show "\<exists>g'. I g' (snd (co_then p f s)) \<and> G g s (snd (co_then p f s)) g' \<and>
      pause_spec I G Q' g' (fst (co_then p f s))"
    unfolding co_then_def case_prod_beta ghost_rel_def by meson
qed

lemma co_spec_sync:
  assumes "\<And>s r s'. I g s \<Longrightarrow> m s = (r, s') \<Longrightarrow> \<exists>g'. I g' s' \<and> G g s s' g' \<and> Q g' r"
  shows "co_spec I G Q g (sync m)"
proof (rule co_specI)
  fix s assume "I g s"
  from assms [OF this surjective_pairing] obtain g' where
    "I g' (snd (m s))" "G g s (snd (m s)) g'" "Q g' (fst (m s))" by blast
  then show "\<exists>g'. I g' (snd (sync m s)) \<and> G g s (snd (sync m s)) g' \<and>
      pause_spec I G Q g' (fst (sync m s))"
    by (intro exI [of _ g']) (simp add: sync_def case_prod_beta pause_spec.spec_Done)
qed

lemma co_spec_await:
  assumes "ghost_rel I G" "\<And>s r s'. I g s \<Longrightarrow> m s = (r, s') \<Longrightarrow> \<exists>g'. I g' s' \<and> G g s s' g' \<and> Q g' r"
  shows "co_spec I G Q g (await m)"
proof (rule co_specI)
  fix s assume s: "I g s"
  have "\<exists>g'. I g' (snd (m t)) \<and> G g t (snd (m t)) g' \<and> pause_spec I G Q g' (Done (fst (m t)))"
    if "I g t" for t
    using assms(2) [OF that surjective_pairing] by (elim ex_forward) (simp add: pause_spec.spec_Done)
  then have "pause_spec I G Q g (fst (await m s))"
    by (simp add: await_def case_prod_beta pause_spec.spec_Paused)
  with s assms(1) show "\<exists>g'. I g' (snd (await m s)) \<and> G g s (snd (await m s)) g' \<and>
      pause_spec I G Q g' (fst (await m s))"
    unfolding ghost_rel_def by (auto simp: await_def)
qed

lemma co_spec_return:
  assumes "ghost_rel I G" "Q g r" shows "co_spec I G Q g (sync (of_result r))"
  using assms by (intro co_spec_sync exI [of _ g]) (auto simp: of_result_def ghost_rel_def)

lemma sync_of_result: "sync (raise e) = sync (of_result (Inl e))" "sync (ret x) = sync (of_result (Inr x))"
  by (simp_all add: io_defs)

lemma co_spec_ret: "ghost_rel I G \<Longrightarrow> Q g (Inr x) \<Longrightarrow> co_spec I G Q g (sync (ret x))"
  by (simp add: sync_of_result co_spec_return)

lemma co_spec_raise: "ghost_rel I G \<Longrightarrow> Q g (Inl e) \<Longrightarrow> co_spec I G Q g (sync (raise e))"
  by (simp add: sync_of_result co_spec_return)

lemma co_spec_bind:
  assumes "ghost_rel I G" "co_spec I G Q g p" "\<And>g x. Q g (Inr x) \<Longrightarrow> co_spec I G Q' g (f x)"
    and "\<And>g e. Q g (Inl e) \<Longrightarrow> Q' g (Inl e)"
  shows "co_spec I G Q' g (co_bind p f)"
  unfolding co_bind_def sync_of_result
  by (rule co_spec_then [OF assms(1,2)])
     (auto split: sum.split intro: assms(3,4) co_spec_return [OF assms(1)])

lemma co_spec_andthen:
  assumes "ghost_rel I G" "co_spec I G Q g p" "\<And>g x. Q g (Inr x) \<Longrightarrow> co_spec I G Q' g q"
    and "\<And>g e. Q g (Inl e) \<Longrightarrow> Q' g (Inl e)"
  shows "co_spec I G Q' g (co_andthen p q)"
  unfolding co_andthen_def by (rule co_spec_bind [OF assms])

lemma co_spec_try:
  assumes "ghost_rel I G" "co_spec I G Q g p" "\<And>g e. Q g (Inl e) \<Longrightarrow> co_spec I G Q' g (h e)"
    and "\<And>g x. Q g (Inr x) \<Longrightarrow> Q' g (Inr x)"
  shows "co_spec I G Q' g (co_try p h)"
  unfolding co_try_def sync_of_result
  by (rule co_spec_then [OF assms(1,2)])
     (auto split: sum.split intro: assms(3,4) co_spec_return [OF assms(1)])

lemma co_spec_finally:
  assumes "ghost_rel I G" "co_spec I G Q g p"
    and "\<And>g r. Q g r \<Longrightarrow> co_spec I G (\<lambda>g' u. case u of Inl e \<Rightarrow> Q' g' (Inl e) | Inr _ \<Rightarrow> Q' g' r) g f"
  shows "co_spec I G Q' g (co_finally p f)"
  unfolding co_finally_def
proof (rule co_spec_then [OF assms(1,2)])
  fix g r assume "Q g r"
  from assms(3) [OF this] show "co_spec I G Q' g (co_bind f (\<lambda>_. sync (of_result r)))"
    by (rule co_spec_bind [OF assms(1)]) (auto intro: co_spec_return [OF assms(1)])
qed

section \<open>Parts of the state\<close>

text \<open>The ghost value \<open>g\<close> of the coroutine inside is \<open>\<phi> g\<close> outside. For a local variable, \<open>L\<close> says which of
  its values \<open>g\<close> fits.\<close>

lemma pause_spec_zoom:
  fixes get :: "'t \<Rightarrow> 's" and put :: "'s \<Rightarrow> 't \<Rightarrow> 't"
  assumes "\<And>g t. J (\<phi> g) t \<Longrightarrow> I g (get t)"
    and "\<And>g t s g'. J (\<phi> g) t \<Longrightarrow> I g' s \<Longrightarrow> G g (get t) s g' \<Longrightarrow>
      J (\<phi> g') (put s t) \<and> H (\<phi> g) t (put s t) (\<phi> g')"
    and "\<And>g r. Q g r \<Longrightarrow> Q' (\<phi> g) r" "pause_spec I G Q g q"
  shows "pause_spec J H Q' (\<phi> g) (pause_zoom get put q)"
  using assms(4)
proof (induction g q rule: pause_spec.induct)
  case (spec_Done g r)
  then show ?case using assms(3) by (simp add: pause_spec.spec_Done)
next
  case (spec_Paused g k)
  show ?case unfolding pause_zoom_Paused
  proof (rule pause_spec.spec_Paused)
    fix t assume t: "J (\<phi> g) t"
    obtain q s where k: "k Proceed (get t) = (q, s)" by (cases "k Proceed (get t)")
    from spec_Paused.IH [OF assms(1) [OF t]] obtain g' where g': "I g' s" "G g (get t) s g'"
      "pause_spec J H Q' (\<phi> g') (pause_zoom get put q)" by (auto simp: k)
    from assms(2) [OF t g'(1,2)] g'(3)
    show "\<exists>h. J h (snd (case k Proceed (get t) of (q, s) \<Rightarrow> (pause_zoom get put q, put s t))) \<and>
        H (\<phi> g) t (snd (case k Proceed (get t) of (q, s) \<Rightarrow> (pause_zoom get put q, put s t))) h \<and>
        pause_spec J H Q' h (fst (case k Proceed (get t) of (q, s) \<Rightarrow> (pause_zoom get put q, put s t)))"
      by (intro exI [of _ "\<phi> g'"]) (simp add: k)
  qed
qed

lemma co_spec_zoom:
  fixes get :: "'t \<Rightarrow> 's" and put :: "'s \<Rightarrow> 't \<Rightarrow> 't"
  assumes "\<And>g t. J (\<phi> g) t \<Longrightarrow> I g (get t)"
    and "\<And>g t s g'. J (\<phi> g) t \<Longrightarrow> I g' s \<Longrightarrow> G g (get t) s g' \<Longrightarrow>
      J (\<phi> g') (put s t) \<and> H (\<phi> g) t (put s t) (\<phi> g')"
    and "\<And>g r. Q g r \<Longrightarrow> Q' (\<phi> g) r" "co_spec I G Q g p"
  shows "co_spec J H Q' (\<phi> g) (co_zoom get put p)"
proof (rule co_specI)
  fix t assume t: "J (\<phi> g) t"
  obtain q s where p: "p (get t) = (q, s)" by (cases "p (get t)")
  from co_specD [OF assms(4) assms(1) [OF t]] obtain g' where g': "I g' s" "G g (get t) s g'"
    "pause_spec I G Q g' q" by (auto simp: p)
  from assms(2) [OF t g'(1,2)] pause_spec_zoom [where get = get and put = put and Q' = Q' and Q = Q and I = I and G = G and J = J and H = H and \<phi> = \<phi>, OF assms(1-3) g'(3)]
  show "\<exists>h. J h (snd (co_zoom get put p t)) \<and> H (\<phi> g) t (snd (co_zoom get put p t)) h \<and>
      pause_spec J H Q' h (fst (co_zoom get put p t))"
    by (intro exI [of _ "\<phi> g'"]) (simp add: p co_zoom_def)
qed

lemma pause_spec_hide:
  assumes "\<And>g l t. L g l \<Longrightarrow> J (\<phi> g) t \<Longrightarrow> I g (l, t)"
    and "\<And>g l t g' l' t'. I g' (l', t') \<Longrightarrow> G g (l, t) (l', t') g' \<Longrightarrow>
      L g' l' \<and> J (\<phi> g') t' \<and> H (\<phi> g) t t' (\<phi> g')"
    and "\<And>g r. Q g r \<Longrightarrow> Q' (\<phi> g) r" "pause_spec I G Q g q" "L g l"
  shows "pause_spec J H Q' (\<phi> g) (pause_hide q l)"
  using assms(4,5)
proof (induction g q arbitrary: l rule: pause_spec.induct)
  case (spec_Done g r)
  then show ?case using assms(3) by (simp add: pause_spec.spec_Done)
next
  case (spec_Paused g k)
  show ?case unfolding pause_hide_Paused
  proof (rule pause_spec.spec_Paused)
    fix t assume t: "J (\<phi> g) t"
    obtain q l' t' where k: "k Proceed (l, t) = (q, (l', t'))" by (metis surj_pair)
    from spec_Paused.IH [OF assms(1) [OF spec_Paused.prems t]] obtain g' where g': "I g' (l', t')"
      "G g (l, t) (l', t') g'" "\<And>l. L g' l \<Longrightarrow> pause_spec J H Q' (\<phi> g') (pause_hide q l)" by (auto simp: k)
    from assms(2) [OF g'(1,2)] g'(3)
    show "\<exists>h. J h (snd (case k Proceed (l, t) of (q, l', t') \<Rightarrow> (pause_hide q l', t'))) \<and>
        H (\<phi> g) t (snd (case k Proceed (l, t) of (q, l', t') \<Rightarrow> (pause_hide q l', t'))) h \<and>
        pause_spec J H Q' h (fst (case k Proceed (l, t) of (q, l', t') \<Rightarrow> (pause_hide q l', t')))"
      by (intro exI [of _ "\<phi> g'"]) (simp add: k)
  qed
qed

lemma co_spec_hide:
  assumes "\<And>g l t. L g l \<Longrightarrow> J (\<phi> g) t \<Longrightarrow> I g (l, t)"
    and "\<And>g l t g' l' t'. I g' (l', t') \<Longrightarrow> G g (l, t) (l', t') g' \<Longrightarrow>
      L g' l' \<and> J (\<phi> g') t' \<and> H (\<phi> g) t t' (\<phi> g')"
    and "\<And>g r. Q g r \<Longrightarrow> Q' (\<phi> g) r" "co_spec I G Q g p" "L g l"
  shows "co_spec J H Q' (\<phi> g) (co_hide l p)"
proof (rule co_specI)
  fix t assume t: "J (\<phi> g) t"
  obtain q l' t' where p: "p (l, t) = (q, (l', t'))" by (metis surj_pair)
  from co_specD [OF assms(4) assms(1) [OF assms(5) t]] obtain g' where g': "I g' (l', t')"
    "G g (l, t) (l', t') g'" "pause_spec I G Q g' q" by (auto simp: p)
  note out = assms(2) [OF g'(1,2)]
  from out pause_spec_hide [where Q' = Q' and Q = Q and I = I and G = G and J = J and H = H and L = L and \<phi> = \<phi>, OF assms(1-3) g'(3) out [THEN conjunct1]]
  show "\<exists>h. J h (snd (co_hide l p t)) \<and> H (\<phi> g) t (snd (co_hide l p t)) h \<and>
      pause_spec J H Q' h (fst (co_hide l p t))"
    by (intro exI [of _ "\<phi> g'"]) (simp add: p co_hide_def)
qed

section \<open>Handlers\<close>

definition ctx_fits :: "('b \<Rightarrow> 'w \<Rightarrow> bool) \<Rightarrow> 'b \<times> 'c \<Rightarrow> 'c \<times> 'w \<Rightarrow> bool" where
  "ctx_fits I g s \<longleftrightarrow> snd g = fst s \<and> I (fst g) (snd s)"

text \<open>Under a local variable in front of the context, whose value is not looked at.\<close>

definition var_fits :: "('b \<Rightarrow> 'w \<Rightarrow> bool) \<Rightarrow> 'b \<times> 'c \<Rightarrow> ('l \<times> 'c) \<times> 'w \<Rightarrow> bool" where
  "var_fits I g s \<longleftrightarrow> snd g = snd (fst s) \<and> I (fst g) (snd s)"

definition ctx_step :: "('b, 'w) step_rel \<Rightarrow> ('b \<times> 'c, 'x \<times> 'w) step_rel" where
  "ctx_step G g s s' g' \<longleftrightarrow> G (fst g) (snd s) (snd s') (fst g')"

lemmas fits_defs = ctx_fits_def var_fits_def ctx_step_def

lemma ghost_rel_ctx:
  "ghost_rel I G \<Longrightarrow> ghost_rel (ctx_fits I) (ctx_step G)"
  "ghost_rel I G \<Longrightarrow> ghost_rel (var_fits I) (ctx_step G)"
  unfolding ghost_rel_def fits_defs by (simp, blast)+

lemma co_spec_eff:
  assumes "co_spec I G Q b p"
  shows "co_spec (ctx_fits I) (ctx_step G) (\<lambda>g r. snd g = c \<and> Q (fst g) r) (b, c) (co_eff p)"
    and "co_spec (var_fits I) (ctx_step G) (\<lambda>g r. snd g = c \<and> Q (fst g) r) (b, c) (co_eff p)"
  unfolding co_eff_def
  by (rule co_spec_zoom [where \<phi> = "\<lambda>b. (b, c)", OF _ _ _ assms]; auto simp: fits_defs)+

lemma co_spec_up:
  "co_spec (ctx_fits I) (ctx_step G) Q g p \<Longrightarrow> co_spec (var_fits I) (ctx_step G) Q g (co_up p)"
  unfolding co_up_def
  by (rule co_spec_zoom [where \<phi> = "\<lambda>g. g" and Q = Q and I = "ctx_fits I" and G = "ctx_step G"];
      auto simp: fits_defs)

lemma co_spec_with_var:
  assumes "co_spec (var_fits I) (ctx_step G) Q g p"
  shows "co_spec (ctx_fits I) (ctx_step G) Q g (co_with_var v p)"
proof -
  let ?I = "\<lambda>g s. ctx_fits I g (snd s)" and ?G = "\<lambda>g s s' g'. ctx_step G g (snd s) (snd s') g'"
  have "co_spec ?I ?G Q g (co_zoom (\<lambda>(l, (c, w)). ((l, c), w)) (\<lambda>((l, c), w) _. (l, (c, w))) p)"
    by (rule co_spec_zoom [where \<phi> = "\<lambda>g. g" and Q = Q and I = "var_fits I" and G = "ctx_step G"];
        (rule assms)?; auto simp: fits_defs)
  then show ?thesis
    unfolding co_with_var_def
    by (rule co_spec_hide [where \<phi> = "\<lambda>g. g" and L = "\<lambda>_ _. True" and Q = Q and I = ?I and G = ?G, rotated 3]) simp_all
qed

text \<open>A context that is a local variable.\<close>

lemma co_spec_in_context:
  assumes "co_spec (ctx_fits I) (ctx_step G) (\<lambda>g r. Q (fst g) r) (b, c) p"
  shows "co_spec I G Q b (co_hide c p)"
proof -
  have "co_spec I G Q (fst (b, c)) (co_hide c p)"
    by (rule co_spec_hide [where L = "\<lambda>g l. snd g = l" and I = "ctx_fits I" and G = "ctx_step G", OF _ _ _ assms])
       (auto simp: fits_defs)
  then show ?thesis by simp
qed

section \<open>What a coroutine raises\<close>

text \<open>As \<open>raises\<close>, whatever the states in which the coroutine goes on.\<close>

definition co_raises :: "(exn \<Rightarrow> bool) \<Rightarrow> ('s, 'a) co \<Rightarrow> bool" where
  "co_raises P p \<longleftrightarrow> co_spec (\<lambda>_ _. True) (\<lambda>_ _ _ _. True) (\<lambda>_ r. \<forall>e. r = Inl e \<longrightarrow> P e) () p"

abbreviation co_mild :: "('s, 'a) co \<Rightarrow> bool" where
  "co_mild p \<equiv> co_raises ordinary p"

lemma ghost_rel_True: "ghost_rel (\<lambda>_ _. True) (\<lambda>_ _ _ _. True)"
  by (simp add: ghost_rel_def)

lemma co_raises_sync [raises_intros]: "raises P m \<Longrightarrow> co_raises P (sync m)"
  unfolding co_raises_def by (rule co_spec_sync) (auto dest: raisesD)

lemma co_raises_await [raises_intros]: "raises P m \<Longrightarrow> co_raises P (await m)"
  unfolding co_raises_def by (rule co_spec_await [OF ghost_rel_True]) (auto dest: raisesD)

lemma co_raises_bind [raises_intros]:
  "co_raises P p \<Longrightarrow> (\<And>x. co_raises P (f x)) \<Longrightarrow> co_raises P (co_bind p f)"
  unfolding co_raises_def by (erule co_spec_bind [OF ghost_rel_True]) auto

lemma co_raises_andthen [raises_intros]:
  "co_raises P p \<Longrightarrow> co_raises P q \<Longrightarrow> co_raises P (co_andthen p q)"
  by (simp add: co_andthen_def co_raises_bind)

lemma co_raises_try:
  "co_raises Q p \<Longrightarrow> (\<And>e. Q e \<Longrightarrow> co_raises P (h e)) \<Longrightarrow> co_raises P (co_try p h)"
  unfolding co_raises_def by (erule co_spec_try [OF ghost_rel_True]) auto

lemma co_raises_try_Exception [raises_intros]:
  assumes "co_mild p" "\<And>e. ordinary e \<Longrightarrow> co_raises P (h e)"
  shows "co_raises P (co_try p (co_catching ''Exception'' h))"
  by (rule co_raises_try [OF assms(1)]) (auto simp: co_catching_def intro: assms(2))

lemma co_raises_finally [raises_intros]:
  assumes "co_raises P p" "co_raises P f" shows "co_raises P (co_finally p f)"
proof -
  have fin: "co_spec (\<lambda>_ _. True) (\<lambda>_ _ _ _. True)
      (\<lambda>_ u. case u of Inl e \<Rightarrow> \<forall>e'. (Inl e :: exn + 'b) = Inl e' \<longrightarrow> P e'
        | Inr _ \<Rightarrow> \<forall>e. (r :: exn + 'b) = Inl e \<longrightarrow> P e) () f"
    if "\<forall>e. r = Inl e \<longrightarrow> P e" for r :: "exn + 'b"
    by (rule co_spec_mono [OF assms(2) [unfolded co_raises_def]]) (use that in \<open>auto split: sum.split\<close>)
  show ?thesis
    unfolding co_raises_def
    by (rule co_spec_finally [OF ghost_rel_True assms(1) [unfolded co_raises_def]]) (simp add: fin)
qed

lemma pause_raises_eff:
  fixes q :: "('w, 'a) pause" and g :: unit
  assumes "pause_spec (\<lambda>_ _. True) (\<lambda>_ _ _ _. True) Q g q"
  shows "pause_spec (\<lambda>_ _. True) (\<lambda>_ _ _ _. True) Q g
    (pause_zoom snd (\<lambda>w (c, _). (c, w)) q :: ('c \<times> 'w, 'a) pause)"
  using assms
proof (induction g q rule: pause_spec.induct)
  case (spec_Paused g k)
  show ?case unfolding pause_zoom_Paused
  proof (rule pause_spec.spec_Paused)
    fix s :: "'c \<times> 'w"
    obtain q w where k: "k Proceed (snd s) = (q, w)" by (cases "k Proceed (snd s)")
    from spec_Paused.IH [of "snd s"]
    show "\<exists>g'. True \<and> True \<and> pause_spec (\<lambda>_ _. True) (\<lambda>_ _ _ _. True) Q (g' :: unit)
        (fst (case k Proceed (snd s) of (q, s') \<Rightarrow>
          (pause_zoom snd (\<lambda>w (c, _). (c, w)) q :: ('c \<times> 'w, 'a) pause, case s of (c, _) \<Rightarrow> (c, s'))))"
      by (simp add: k)
  qed
qed (simp add: pause_spec.spec_Done)

lemma co_raises_eff [raises_intros]: "co_raises P p \<Longrightarrow> co_raises P (co_eff p)"
  using pause_raises_eff
  by (fastforce simp: co_raises_def co_spec_def co_eff_def co_zoom_def map_prod_def case_prod_beta)

lemma co_raises_If [raises_intros]:
  "(b \<Longrightarrow> co_raises P p) \<Longrightarrow> (\<not> b \<Longrightarrow> co_raises P q) \<Longrightarrow> co_raises P (if b then p else q)"
  by simp

text \<open>A coroutine that leads from each state to one that the ghost value fits as well.\<close>

lemma pause_spec_keep:
  assumes "\<And>s s'. I g s \<Longrightarrow> R s s' \<Longrightarrow> I g s' \<and> G g s s' g" "pause_leads R q"
    and "pause_spec (\<lambda>_ _. True) (\<lambda>_ _ _ _. True) Q () q"
  shows "pause_spec I G (\<lambda>g' r. g' = g \<and> Q () r) g q"
  using assms(2,3)
proof (induction q rule: pause_leads.induct)
  case (leads_Done r)
  then show ?case by (auto elim: spec_DoneE intro: pause_spec.spec_Done)
next
  case (leads_Paused k)
  show ?case
  proof (rule pause_spec.spec_Paused)
    fix s assume "I g s"
    moreover have "pause_spec (\<lambda>_ _. True) (\<lambda>_ _ _ _. True) Q () (fst (k Proceed s))"
      using leads_Paused.prems by (auto elim: spec_PausedE)
    ultimately show "\<exists>g'. I g' (snd (k Proceed s)) \<and> G g s (snd (k Proceed s)) g' \<and>
        pause_spec I G (\<lambda>g' r. g' = g \<and> Q () r) g' (fst (k Proceed s))"
      using leads_Paused.IH assms(1) leads_Paused.hyps by (intro exI [of _ g]) auto
  qed
qed

lemma co_spec_keep:
  assumes "\<And>s s'. I g s \<Longrightarrow> R s s' \<Longrightarrow> I g s' \<and> G g s s' g" "co_leads R p" "co_raises P p"
  shows "co_spec I G (\<lambda>g' r. g' = g \<and> (\<forall>e. r = Inl e \<longrightarrow> P e)) g p"
proof (rule co_specI)
  fix s assume "I g s"
  moreover have "R s (snd (p s))" "pause_leads R (fst (p s))" using assms(2) by (simp_all add: co_leads_def)
  moreover have "pause_spec (\<lambda>_ _. True) (\<lambda>_ _ _ _. True) (\<lambda>_ r. \<forall>e. r = Inl e \<longrightarrow> P e) () (fst (p s))"
    using assms(3) by (auto simp: co_raises_def co_spec_def)
  ultimately show "\<exists>g'. I g' (snd (p s)) \<and> G g s (snd (p s)) g' \<and>
      pause_spec I G (\<lambda>g' r. g' = g \<and> (\<forall>e. r = Inl e \<longrightarrow> P e)) g' (fst (p s))"
    using assms(1) pause_spec_keep [where R = R and I = I and G = G, OF assms(1)] by (intro exI [of _ g]) blast
qed

end
