(* ===== verification/Worker_Tasks.thy ===== *)
theory Worker_Tasks
  imports Processor Coroutine_Spec
begin

text \<open>
  The worker's code as the coroutines it consists of: the definitions of \<open>Idempotency\<close>, \<open>Database\<close>,
  \<open>Retry\<close>, \<open>Pipeline\<close> and \<open>Worker_Handlers\<close> once more, with an \<open>await\<close> where the code has one, so
  that other tasks may run in between. \<open>run_process_co\<close>: run without other tasks, \<open>process_co\<close> is
  \<open>process\<close>, so that what is proved of the one holds of the other. The rest is what holds of the
  coroutine among other tasks: how often it pauses, what it keeps, and that a cancellation kills it
  where it is.
\<close>

section \<open>The guard and the database\<close>

definition timed_co :: "histogram \<Rightarrow> (('r, 'p, 'k, 'h) world, 'a) co \<Rightarrow> (('r, 'p, 'k, 'h) world, 'a) co" where
  "timed_co h p = co_finally p (sync (observe h))"

definition is_new_co :: "('r, 'p, 'k, 'h) services \<Rightarrow> worker_settings \<Rightarrow> json \<Rightarrow>
    (('r, 'p, 'k, 'h) world, bool) co" where
  "is_new_co S cfg event_id' =
     timed_co IDEMPOTENCY_CHECK_LATENCY
       (co_try
         (co_bind (await (on_redis (r_set_nx (redis_of S) (idempotency_key (py_of S) event_id') (lit ''1'')
                  (W_IDEMPOTENCY_TTL_SECONDS cfg))))
           (\<lambda>result. sync (if \<not> result then andthen (inc EVENTS_DUPLICATE) (ret False) else ret True)))
         (co_catching ''Exception'' (\<lambda>exc. sync (ret True))))"

definition release_co :: "('r, 'p, 'k, 'h) services \<Rightarrow> json \<Rightarrow> (('r, 'p, 'k, 'h) world, unit) co" where
  "release_co S event_id' =
     co_try
       (co_andthen (await (on_redis (r_delete (redis_of S) (idempotency_key (py_of S) event_id'))))
         (sync (ret ())))
       (co_catching ''Exception'' (\<lambda>exc. sync (ret ())))"

definition insert_event_co :: "('r, 'p, 'k, 'h) services \<Rightarrow> pystr \<Rightarrow> pystr \<Rightarrow> pystr \<Rightarrow> pystr \<Rightarrow>
    dict \<Rightarrow> dict \<Rightarrow> datetime \<Rightarrow> (('r, 'p, 'k, 'h) world, bool) co" where
  "insert_event_co S event_id' device_id' event_type' schema_version' payload' metadata' raw_timestamp' =
     co_andthen (sync get_pool)
       (co_bind (await (on_pg (pg_execute (pg_of S)
                (InsertEvent event_id' device_id' event_type' schema_version' (JObj payload')
                   (JObj metadata') raw_timestamp'))))
         (\<lambda>result'. sync (bind (of_result (rows_affected result')) (\<lambda>n. ret (n > 0)))))"

definition upsert_device_state_co :: "('r, 'p, 'k, 'h) services \<Rightarrow> pystr \<Rightarrow> pystr \<Rightarrow> pystr \<Rightarrow> datetime \<Rightarrow>
    dict \<Rightarrow> (('r, 'p, 'k, 'h) world, unit) co" where
  "upsert_device_state_co S device_id' event_id' event_type' last_seen_at' last_payload' =
     co_andthen (sync get_pool)
       (co_andthen (await (on_pg (pg_execute (pg_of S) (InsertDevice device_id'))))
         (co_andthen (await (on_pg (pg_execute (pg_of S)
             (UpsertDeviceState device_id' event_id' event_type' last_seen_at' (JObj last_payload')))))
           (sync (ret ()))))"

definition record_dlq_event_co :: "('r, 'p, 'k, 'h) services \<Rightarrow> json \<Rightarrow> json \<Rightarrow> pystr \<Rightarrow> json \<Rightarrow> pystr \<Rightarrow>
    int \<Rightarrow> (('r, 'p, 'k, 'h) world, unit) co" where
  "record_dlq_event_co S event_id' device_id' original_topic' raw_payload' error_message' retry_count' =
     co_andthen (sync get_pool)
       (co_andthen (await (on_pg (pg_execute (pg_of S)
           (InsertDlqEvent event_id' device_id' original_topic' raw_payload' error_message' retry_count'))))
         (sync (ret ())))"

section \<open>Retry and dead letters\<close>

definition retry_attempt_co :: "('r, 'p, 'k, 'h) services \<Rightarrow> worker_settings \<Rightarrow>
    ('c \<times> ('r, 'p, 'k, 'h) world, 'a) co \<Rightarrow> int \<Rightarrow>
    ('c \<times> ('r, 'p, 'k, 'h) world, exn + 'a) co" where
  "retry_attempt_co S cfg coro_fn attempt =
     co_try (co_bind coro_fn (\<lambda>x. sync (ret (Inr x))))
       (\<lambda>exc.
          if non_retryable exc then sync (raise exc)
          else if ordinary exc then
            co_andthen (sync (eff (inc (RETRY_ATTEMPTS (int_str attempt)))))
              (if attempt < W_RETRY_MAX_ATTEMPTS cfg
               then co_andthen (co_eff (co_bind (sync (compute_delay S cfg attempt))
                                    (\<lambda>delay. await (on_host (h_sleep (host_of S) delay)))))
                      (sync (ret (Inl exc)))
               else sync (ret (Inl exc)))
          else sync (raise exc))"

fun retry_loop_co :: "('r, 'p, 'k, 'h) services \<Rightarrow> worker_settings \<Rightarrow>
    ('c \<times> ('r, 'p, 'k, 'h) world, 'a) co \<Rightarrow> exn option \<Rightarrow> int list \<Rightarrow>
    ('c \<times> ('r, 'p, 'k, 'h) world, 'a) co" where
  "retry_loop_co S cfg coro_fn last_exc [] =
     (case last_exc of None \<Rightarrow> sync (raise AssertionError) | Some e \<Rightarrow> sync (raise e))"
| "retry_loop_co S cfg coro_fn last_exc (attempt # attempts) =
     co_bind (retry_attempt_co S cfg coro_fn attempt) (\<lambda>r.
       case r of Inr x \<Rightarrow> sync (ret x) | Inl exc \<Rightarrow> retry_loop_co S cfg coro_fn (Some exc) attempts)"

definition with_retry_co :: "('r, 'p, 'k, 'h) services \<Rightarrow> worker_settings \<Rightarrow>
    ('c \<times> ('r, 'p, 'k, 'h) world, 'a) co \<Rightarrow> ('c \<times> ('r, 'p, 'k, 'h) world, 'a) co" where
  "with_retry_co S cfg coro_fn = retry_loop_co S cfg coro_fn None [1..W_RETRY_MAX_ATTEMPTS cfg]"

definition dlq_send_co :: "('r, 'p, 'k, 'h) services \<Rightarrow> worker_settings \<Rightarrow> json \<Rightarrow> pystr \<Rightarrow> pystr \<Rightarrow> int \<Rightarrow>
    pystr \<Rightarrow> int option \<Rightarrow> int option \<Rightarrow> (('r, 'p, 'k, 'h) world, unit) co" where
  "dlq_send_co S cfg original etype emessage retries topic part off =
     co_bind (sync (of_result (dict_get original (lit ''event_id'')))) (\<lambda>i.
     co_bind (sync (of_result (dict_get original (lit ''device_id'')))) (\<lambda>d.
     let i = get_default i (JStr (lit ''unknown'')); d = get_default d JNull in
     co_andthen (sync (inc (EVENTS_DLQ etype)))
     (co_bind (sync (ask_host (h_uuid4 (host_of S)))) (\<lambda>uuid.
     co_bind (sync (ask_host (h_now_iso (host_of S)))) (\<lambda>now.
     co_andthen
       (co_try
         (co_bind (sync (of_result (dlq_key i))) (\<lambda>key.
            await (on_kafka (k_send_and_wait (kafka_of S) (W_KAFKA_TOPIC_DLQ cfg)
              (JObj (dlq_envelope cfg uuid now original etype emessage retries topic part off))
              (Some key)))))
         (co_catching ''KafkaError'' (\<lambda>exc. sync (ret ()))))
       (co_try
         (record_dlq_event_co S i d topic original
            (lit ''['' @ etype @ lit ''] '' @ emessage) retries)
         (co_catching ''Exception'' (\<lambda>exc. sync (ret ())))))))))"

section \<open>The pipeline\<close>

type_synonym ('c, 'w) co_handler = "('c \<times> 'w, unit) co \<Rightarrow> ('c \<times> 'w, unit) co"

function dispatch_co :: "('c, 'w) co_handler list \<Rightarrow> nat \<Rightarrow> ('c \<times> 'w, unit) co" where
  "dispatch_co hs idx =
     (if idx \<ge> length hs then sync (ret ())
      else (hs ! idx) (dispatch_co hs (idx + 1)))"
  by pat_completeness auto
termination by (relation "measure (\<lambda>(hs, idx). length hs - idx)") auto

declare dispatch_co.simps [simp del]

definition execute_co :: "('c \<Rightarrow> json) \<Rightarrow> (pystr \<Rightarrow> 'c \<Rightarrow> 'c) \<Rightarrow> ('w, pystr) io \<Rightarrow>
    ('c, 'w) co_handler list \<Rightarrow> ('c \<times> 'w, unit) co" where
  "execute_co get_id set_id uuid4 hs =
     (if hs = [] then sync (ret ())
      else co_andthen (sync (ensure_trace get_id set_id uuid4)) (dispatch_co hs 0))"

lemma dispatch_co_drop: "dispatch_co hs idx = foldr (\<lambda>h k. h k) (drop idx hs) (sync (ret ()))"
proof (induction hs idx rule: dispatch_co.induct)
  case (1 hs idx)
  show ?case
  proof (cases "idx < length hs")
    case True
    with 1 show ?thesis by (simp add: dispatch_co.simps [of hs idx] Cons_nth_drop_Suc [symmetric])
  next
    case False
    then show ?thesis by (simp add: dispatch_co.simps [of hs idx])
  qed
qed

lemma dispatch_co_Cons [simp]: "dispatch_co (h # hs) 0 = h (dispatch_co hs 0)"
  by (simp add: dispatch_co_drop)

lemma dispatch_co_Nil [simp]: "dispatch_co [] 0 = sync (ret ())"
  by (simp add: dispatch_co_drop)

section \<open>The handlers\<close>

type_synonym ('r, 'p, 'k, 'h) worker_co_handler = "(worker_context, ('r, 'p, 'k, 'h) world) co_handler"

definition IdempotencyHandler_co :: "('r, 'p, 'k, 'h) services \<Rightarrow> worker_settings \<Rightarrow>
    ('r, 'p, 'k, 'h) worker_co_handler" where
  "IdempotencyHandler_co S cfg next_call =
     co_bind (sync (gets (\<lambda>(c, w). wc_raw_event c))) (\<lambda>raw_event.
     co_bind (sync (of_result (dict_get raw_event (lit ''event_id'')))) (\<lambda>i.
       case i of
         None \<Rightarrow> next_call
       | Some i \<Rightarrow>
           if \<not> truthy i then next_call
           else co_bind (co_eff (is_new_co S cfg i))
             (\<lambda>new. if \<not> new then sync (ret ()) else next_call)))"

definition send_context_co :: "('r, 'p, 'k, 'h) services \<Rightarrow> worker_settings \<Rightarrow> pystr \<Rightarrow> pystr \<Rightarrow> int \<Rightarrow>
    (worker_context \<times> ('r, 'p, 'k, 'h) world, unit) co" where
  "send_context_co S cfg etype emessage retries =
     co_bind (sync (gets fst)) (\<lambda>c.
       co_eff (dlq_send_co S cfg (wc_raw_event c) etype emessage retries dlq_topic_default
              (wc_kafka_partition c) (wc_kafka_offset c)))"

definition WorkerValidationHandler_co :: "('r, 'p, 'k, 'h) services \<Rightarrow> worker_settings \<Rightarrow>
    ('r, 'p, 'k, 'h) worker_co_handler" where
  "WorkerValidationHandler_co S cfg next_call =
     co_bind (sync (gets (\<lambda>(c, w). wc_raw_event c))) (\<lambda>raw_event.
     co_bind (sync (of_result (dict_get raw_event (lit ''event_id'')))) (\<lambda>_.
       co_try
         (co_bind (sync (of_result (IoTEvent_of (py_of S) raw_event))) (\<lambda>ev.
            co_andthen (sync (modify (\<lambda>(c, w). (c\<lparr>wc_event := Some ev\<rparr>, w)))) next_call))
         (co_catching ''Exception''
           (\<lambda>exc. send_context_co S cfg (lit ''VALIDATION_ERROR'') (msg exc) 0))))"

definition insert_once_co :: "('r, 'p, 'k, 'h) services \<Rightarrow> iot_event \<Rightarrow>
    ((int \<times> worker_context) \<times> ('r, 'p, 'k, 'h) world, unit) co" where
  "insert_once_co S ev =
     co_andthen (sync (modify (\<lambda>((n, c), w). ((n + 1, c), w))))
       (co_eff (timed_co DB_WRITE_LATENCY
         (co_andthen (insert_event_co S (event_id ev) (device_id ev) (event_type ev) (schema_version ev)
                     (payload ev) (metadata ev) (timestamp ev))
           (sync (ret ())))))"

definition give_up_co :: "('r, 'p, 'k, 'h) services \<Rightarrow> worker_settings \<Rightarrow> iot_event \<Rightarrow> pystr \<Rightarrow> exn \<Rightarrow>
    ((int \<times> worker_context) \<times> ('r, 'p, 'k, 'h) world, unit) co" where
  "give_up_co S cfg ev etype exc =
     co_andthen (co_eff (release_co S (JStr (event_id ev))))
       (co_bind (sync (gets (\<lambda>((n, c), w). n))) (\<lambda>n. co_up (send_context_co S cfg etype (msg exc) n)))"

definition PersistenceHandler_co :: "('r, 'p, 'k, 'h) services \<Rightarrow> worker_settings \<Rightarrow>
    ('r, 'p, 'k, 'h) worker_co_handler" where
  "PersistenceHandler_co S cfg next_call =
     co_bind (sync (gets (\<lambda>(c, w). wc_event c))) (\<lambda>e.
       case e of
         None \<Rightarrow> sync (ret ())
       | Some ev \<Rightarrow>
           co_with_var 0
             (co_try
               (co_andthen (with_retry_co S cfg (insert_once_co S ev)) (co_up next_call))
               (\<lambda>exc.
                  if isinstance exc ''PostgresError'' then
                    co_andthen (sync (eff (inc (DB_ERRORS (exn_name exc)))))
                      (give_up_co S cfg ev (lit ''DB_ERROR'') exc)
                  else if isinstance exc ''Exception'' then give_up_co S cfg ev (exn_name exc) exc
                  else sync (raise exc))))"

definition DeviceStateHandler_co :: "('r, 'p, 'k, 'h) services \<Rightarrow> ('r, 'p, 'k, 'h) worker_co_handler" where
  "DeviceStateHandler_co S next_call =
     co_bind (sync (gets (\<lambda>(c, w). wc_event c))) (\<lambda>e.
       case e of
         None \<Rightarrow> sync (ret ())
       | Some ev \<Rightarrow>
           co_andthen
             (co_eff (co_try
               (upsert_device_state_co S (device_id ev) (event_id ev) (event_type ev) (timestamp ev)
                  (payload ev))
               (co_catching ''Exception'' (\<lambda>exc. sync (ret ())))))
           (co_andthen (sync (eff (inc (EVENTS_PROCESSED (event_type ev)))))
           (co_bind (sync (eff (ask_host (h_monotonic (host_of S))))) (\<lambda>_.
           (co_andthen (sync (modify (\<lambda>(c, w). (c\<lparr>wc_processed := True\<rparr>, w))))
             next_call)))))"

definition worker_co_handlers :: "('r, 'p, 'k, 'h) services \<Rightarrow> worker_settings \<Rightarrow>
    ('r, 'p, 'k, 'h) worker_co_handler list" where
  "worker_co_handlers S cfg = [IdempotencyHandler_co S cfg, WorkerValidationHandler_co S cfg,
     PersistenceHandler_co S cfg, DeviceStateHandler_co S]"

definition process_co :: "('r, 'p, 'k, 'h) services \<Rightarrow> worker_settings \<Rightarrow> json \<Rightarrow> int option \<Rightarrow> int option \<Rightarrow>
    (('r, 'p, 'k, 'h) world, unit) co" where
  "process_co S cfg raw_event part off =
     co_andthen (sync (add_gauge ACTIVE_TASKS 1))
       (co_finally
         (timed_co PROCESSING_LATENCY
           (co_bind (sync (of_result (dict_get raw_event (lit ''_trace_id'')))) (\<lambda>t.
            co_bind (sync (ask_host (h_monotonic (host_of S)))) (\<lambda>t0.
              co_hide (new_worker_context raw_event (get_default t (JStr [])) part off t0)
                (execute_co wc_get_id wc_set_id (ask_host (h_uuid4 (host_of S))) (worker_co_handlers S cfg))))))
         (sync (add_gauge ACTIVE_TASKS (- 1))))"

section \<open>Run alone, the coroutines are the actions\<close>

lemma run_hide_in_context [run_simps]: "run (co_hide c p) = in_context c (run p)"
  by (simp add: fun_eq_iff run_hide in_context_def case_prod_beta)

lemma run_timed [run_simps]: "run (timed_co h p) = timed h (run p)"
  by (simp add: timed_co_def timed_def run_simps)

lemma run_is_new: "run (is_new_co S cfg i) = is_new S cfg i"
  by (simp add: is_new_co_def is_new_def run_simps cong: if_cong)

lemma run_release: "run (release_co S i) = release S i"
  by (simp add: release_co_def release_def run_simps)

lemma run_database:
  "run (insert_event_co S i d t v p m ts) = insert_event S i d t v p m ts"
  "run (upsert_device_state_co S d i t ts p) = upsert_device_state S d i t ts p"
  "run (record_dlq_event_co S i' d' tp raw em rc) = record_dlq_event S i' d' tp raw em rc"
  by (simp_all add: insert_event_co_def insert_event_def upsert_device_state_co_def
      upsert_device_state_def record_dlq_event_co_def record_dlq_event_def run_simps)

lemma run_retry_attempt: "run (retry_attempt_co S cfg p n) = retry_attempt S cfg (run p) n"
  by (simp add: retry_attempt_co_def retry_attempt_def run_simps cong: if_cong)

lemma run_retry_loop: "run (retry_loop_co S cfg p e ns) = retry_loop S cfg (run p) e ns"
proof (induction ns arbitrary: e)
  case Nil
  then show ?case by (simp add: run_simps split: option.split)
next
  case (Cons n ns)
  then have "run (case r of Inr x \<Rightarrow> sync (ret x) | Inl exc \<Rightarrow> retry_loop_co S cfg p (Some exc) ns) =
      (case r of Inr x \<Rightarrow> ret x | Inl exc \<Rightarrow> retry_loop S cfg (run p) (Some exc) ns)" for r
    by (simp add: run_simps split: sum.split)
  then show ?case by (simp add: run_simps run_retry_attempt)
qed

lemma run_with_retry: "run (with_retry_co S cfg p) = with_retry S cfg (run p)"
  by (simp add: with_retry_co_def with_retry_def run_retry_loop)

lemma run_dlq_send: "run (dlq_send_co S cfg ev et em rc tp pa off) = dlq_send S cfg ev et em rc tp pa off"
  by (simp add: dlq_send_co_def dlq_send_def Let_def run_simps run_database)

lemma run_send_context: "run (send_context_co S cfg et em rc) = send_context S cfg et em rc"
  by (simp add: send_context_co_def send_context_def run_simps run_dlq_send)

lemma run_IdempotencyHandler: "run (IdempotencyHandler_co S cfg p) = IdempotencyHandler S cfg (run p)"
proof -
  have "run (case i of None \<Rightarrow> p | Some i \<Rightarrow> if \<not> truthy i then p else
      co_bind (co_eff (is_new_co S cfg i)) (\<lambda>new. if \<not> new then sync (ret ()) else p)) =
    (case i of None \<Rightarrow> run p | Some i \<Rightarrow> if \<not> truthy i then run p else
      bind (eff (is_new S cfg i)) (\<lambda>new. if \<not> new then ret () else run p))" for i
    by (simp add: run_simps run_is_new split: option.split cong: if_cong)
  then show ?thesis by (simp add: IdempotencyHandler_co_def IdempotencyHandler_def run_simps)
qed

lemma run_WorkerValidationHandler:
  "run (WorkerValidationHandler_co S cfg p) = WorkerValidationHandler S cfg (run p)"
  by (simp add: WorkerValidationHandler_co_def WorkerValidationHandler_def run_simps run_send_context)

lemma run_insert_once: "run (insert_once_co S ev) = insert_once S ev"
  by (simp add: insert_once_co_def insert_once_def run_simps run_database)

lemma run_give_up: "run (give_up_co S cfg ev et exc) = give_up S cfg ev et exc"
  by (simp add: give_up_co_def give_up_def run_simps run_release run_send_context)

lemma run_PersistenceHandler: "run (PersistenceHandler_co S cfg p) = PersistenceHandler S cfg (run p)"
  unfolding PersistenceHandler_co_def PersistenceHandler_def run_bind run_sync
  by (rule arg_cong [of _ _ "bind _"])
     (simp add: fun_eq_iff run_simps run_with_retry run_insert_once run_give_up split: option.split cong: if_cong)

lemma run_DeviceStateHandler: "run (DeviceStateHandler_co S p) = DeviceStateHandler S (run p)"
  unfolding DeviceStateHandler_co_def DeviceStateHandler_def run_bind run_sync
  by (rule arg_cong [of _ _ "bind _"])
     (simp add: fun_eq_iff run_simps run_database split: option.split)

lemmas run_handlers = run_IdempotencyHandler run_WorkerValidationHandler run_PersistenceHandler
  run_DeviceStateHandler

lemma run_process_co: "run (process_co S cfg raw part off) = process S cfg raw part off"
  by (simp add: process_co_def process_def worker_execute_def execute_co_def execute_def run_simps
      worker_co_handlers_def worker_handlers_list run_handlers)

section \<open>How often a task pauses\<close>

lemma within_timed [within_intros]: "ends_within n p \<Longrightarrow> ends_within (n + 0) (timed_co h p)"
  unfolding timed_co_def by (intro within_finally within_sync)

lemma within_is_new: "ends_within 1 (is_new_co S cfg i)"
  unfolding is_new_co_def by (rule ends_within_mono, (rule within_intros)+, simp)

lemma within_release: "ends_within 1 (release_co S i)"
  unfolding release_co_def by (rule ends_within_mono, (rule within_intros)+, simp)

lemma within_insert_once: "ends_within 1 (insert_once_co S ev)"
  unfolding insert_once_co_def insert_event_co_def by (rule ends_within_mono, (rule within_intros)+, simp)

lemma within_upsert: "ends_within 2 (upsert_device_state_co S d i t ts p)"
  unfolding upsert_device_state_co_def by (rule ends_within_mono, (rule within_intros)+, simp)

lemma within_dlq_send: "ends_within 2 (dlq_send_co S cfg ev et em rc tp pa off)"
  unfolding dlq_send_co_def record_dlq_event_co_def Let_def
  by (rule ends_within_mono, (rule within_intros)+, simp)

lemma within_send_context: "ends_within 2 (send_context_co S cfg et em rc)"
  unfolding send_context_co_def by (rule ends_within_mono, (rule within_intros within_dlq_send)+, simp)

lemma within_give_up: "ends_within 3 (give_up_co S cfg ev et exc)"
  unfolding give_up_co_def
  by (rule ends_within_mono, (rule within_intros within_release within_send_context)+, simp)

lemma within_retry_attempt:
  assumes "ends_within n p" shows "ends_within (n + 1) (retry_attempt_co S cfg p i)"
  unfolding retry_attempt_co_def by (rule ends_within_mono, (rule within_intros assms)+, simp)

lemma within_with_retry:
  assumes "ends_within n p"
  shows "ends_within (nat (W_RETRY_MAX_ATTEMPTS cfg) * (n + 1)) (with_retry_co S cfg p)"
proof -
  have "ends_within (length ns * (n + 1)) (retry_loop_co S cfg p e ns)" for ns e
  proof (induction ns arbitrary: e)
    case Nil
    then show ?case by (auto split: option.split intro: within_sync)
  next
    case (Cons i ns)
    have rest: "ends_within (length ns * (n + 1))
        (case r of Inr x \<Rightarrow> sync (ret x) | Inl exc \<Rightarrow> retry_loop_co S cfg p (Some exc) ns)" for r
      using Cons.IH ends_within_mono [OF within_sync] by (cases r) (simp_all only: sum.case, simp)
    show ?case
      unfolding retry_loop_co.simps
      by (rule ends_within_mono, rule within_bind, rule within_retry_attempt [OF assms], rule rest) simp
  qed
  from this [of "[1..W_RETRY_MAX_ATTEMPTS cfg]" None] show ?thesis by (simp add: with_retry_co_def)
qed

lemma within_IdempotencyHandler:
  assumes "ends_within n p" shows "ends_within (n + 1) (IdempotencyHandler_co S cfg p)"
proof -
  have "ends_within (n + 1) (case i of None \<Rightarrow> p | Some i \<Rightarrow> if \<not> truthy i then p else
      co_bind (co_eff (is_new_co S cfg i)) (\<lambda>new. if \<not> new then sync (ret ()) else p))" for i
  proof (cases i)
    case (Some j)
    have "ends_within (n + 1) (co_bind (co_eff (is_new_co S cfg j)) (\<lambda>new. if \<not> new then sync (ret ()) else p))"
      by (rule ends_within_mono, (rule within_intros within_is_new assms)+, simp)
    with Some ends_within_mono [OF assms] show ?thesis by simp
  qed (simp add: ends_within_mono [OF assms])
  from within_bind [OF within_sync within_bind [OF within_sync this]] show ?thesis
    by (simp add: IdempotencyHandler_co_def)
qed

lemma within_WorkerValidationHandler:
  assumes "ends_within n p" shows "ends_within (n + 2) (WorkerValidationHandler_co S cfg p)"
  unfolding WorkerValidationHandler_co_def
  by (rule ends_within_mono, (rule within_intros within_send_context assms)+, simp)

lemma within_PersistenceHandler:
  assumes "ends_within n p"
  shows "ends_within (2 * nat (W_RETRY_MAX_ATTEMPTS cfg) + n + 3) (PersistenceHandler_co S cfg p)"
proof -
  let ?m = "2 * nat (W_RETRY_MAX_ATTEMPTS cfg) + n + 3"
  have "ends_within ?m (co_with_var 0 (co_try
      (co_andthen (with_retry_co S cfg (insert_once_co S ev)) (co_up p))
      (\<lambda>exc. if isinstance exc ''PostgresError'' then
                co_andthen (sync (eff (inc (DB_ERRORS (exn_name exc))))) (give_up_co S cfg ev (lit ''DB_ERROR'') exc)
              else if isinstance exc ''Exception'' then give_up_co S cfg ev (exn_name exc) exc
              else sync (raise exc))))" for ev
    by (rule ends_within_mono, (rule within_intros within_with_retry within_insert_once within_give_up assms)+) simp
  then have "ends_within ?m (case e of None \<Rightarrow> sync (ret ()) | Some ev \<Rightarrow> co_with_var 0 (co_try
      (co_andthen (with_retry_co S cfg (insert_once_co S ev)) (co_up p))
      (\<lambda>exc. if isinstance exc ''PostgresError'' then
                co_andthen (sync (eff (inc (DB_ERRORS (exn_name exc))))) (give_up_co S cfg ev (lit ''DB_ERROR'') exc)
              else if isinstance exc ''Exception'' then give_up_co S cfg ev (exn_name exc) exc
              else sync (raise exc))))" for e
    by (cases e) (auto intro: ends_within_mono [OF within_sync])
  from within_bind [OF within_sync this] show ?thesis by (simp add: PersistenceHandler_co_def)
qed

lemma within_DeviceStateHandler:
  assumes "ends_within n p" shows "ends_within (n + 2) (DeviceStateHandler_co S p)"
proof -
  have "ends_within (n + 2) (case e of None \<Rightarrow> sync (ret ()) | Some ev \<Rightarrow> co_andthen
      (co_eff (co_try (upsert_device_state_co S (device_id ev) (event_id ev) (event_type ev) (timestamp ev)
         (payload ev)) (co_catching ''Exception'' (\<lambda>exc. sync (ret ())))))
      (co_andthen (sync (eff (inc (EVENTS_PROCESSED (event_type ev)))))
      (co_bind (sync (eff (ask_host (h_monotonic (host_of S))))) (\<lambda>_.
      (co_andthen (sync (modify (\<lambda>(c, w). (c\<lparr>wc_processed := True\<rparr>, w)))) p)))))" for e
    by (cases e) (auto intro: ends_within_mono [OF within_sync]
      intro!: ends_within_mono [OF within_andthen [OF within_zoom(2) [OF within_try [OF within_upsert
        within_catching [OF within_sync]]] within_andthen [OF within_sync within_bind [OF within_sync
        within_andthen [OF within_sync assms]]]]])
  from within_bind [OF within_sync this] show ?thesis by (simp add: DeviceStateHandler_co_def)
qed

text \<open>A call of \<open>process\<close> pauses once for the check, twice for each attempt to insert (the statement and
  the sleep), twice for the device, and up to five times for the dead letter and its second try.\<close>

definition max_pauses :: "worker_settings \<Rightarrow> nat" where
  "max_pauses cfg = 2 * nat (W_RETRY_MAX_ATTEMPTS cfg) + 8"

lemma within_process: "ends_within (max_pauses cfg) (process_co S cfg raw part off)"
proof -
  have "ends_within (0 + 2 + 0 + (2 * nat (W_RETRY_MAX_ATTEMPTS cfg)) + 3 + 2 + 1)
      (dispatch_co (worker_co_handlers S cfg) 0)"
    unfolding worker_co_handlers_def dispatch_co_Cons dispatch_co_Nil
    by (rule ends_within_mono, rule within_IdempotencyHandler, rule within_WorkerValidationHandler,
        rule within_PersistenceHandler, rule within_DeviceStateHandler, rule within_sync) simp
  then have ex: "ends_within (max_pauses cfg) (execute_co wc_get_id wc_set_id (ask_host (h_uuid4 (host_of S)))
      (worker_co_handlers S cfg))"
    unfolding execute_co_def worker_co_handlers_def
    by (simp add: max_pauses_def) (rule ends_within_mono, (rule within_intros | assumption)+, simp)
  show ?thesis
    unfolding process_co_def by (rule ends_within_mono, (rule within_intros ex)+, simp)
qed

section \<open>What a task keeps\<close>

lemma co_leads_retry:
  assumes "preorder_rel Q" "co_leads Q p" "\<And>ty. leads Q (eff (inc (RETRY_ATTEMPTS ty)))"
    and "\<And>n. co_leads Q (co_eff (co_bind (sync (compute_delay S cfg n)) (\<lambda>delay. await (on_host (h_sleep (host_of S) delay)))))"
  shows "co_leads Q (with_retry_co S cfg p)"
proof -
  have attempt: "co_leads Q (retry_attempt_co S cfg p n)" for n
    unfolding retry_attempt_co_def by (intro leads_intros assms)
  have "co_leads Q (retry_loop_co S cfg p e ns)" for e ns
  proof (induction ns arbitrary: e)
    case Nil
    then show ?case by (auto split: option.split intro: leads_intros assms)
  next
    case (Cons n ns)
    have "co_leads Q (case r of Inr x \<Rightarrow> sync (ret x) | Inl exc \<Rightarrow> retry_loop_co S cfg p (Some exc) ns)" for r
      using Cons by (cases r) (auto intro: leads_intros assms(1))
    then show ?case by (simp add: co_leads_bind assms(1) attempt)
  qed
  then show ?thesis by (simp add: with_retry_co_def)
qed

context worker_calls
begin

lemma timed_co_leads [leads_intros]: "co_leads R p \<Longrightarrow> co_leads R (timed_co h p)"
  unfolding timed_co_def by (intro leads_intros)

lemma release_co_leads [leads_intros]: "co_leads R (release_co S i)"
  unfolding release_co_def by (intro leads_intros)

lemma database_co_leads [leads_intros]:
  "co_leads R (insert_event_co S i d t v p m ts)" "co_leads R (upsert_device_state_co S d i t ts p)"
  "co_leads R (record_dlq_event_co S i' d' tp raw em rc)"
  unfolding insert_event_co_def upsert_device_state_co_def record_dlq_event_co_def
  by (intro leads_intros)+

lemma insert_once_co_leads [leads_intros]: "co_leads (on_snd R) (insert_once_co S ev)"
  unfolding insert_once_co_def by (intro leads_intros) (simp split: prod.split)

lemma compute_delay_leads [leads_intros]: "leads R (compute_delay S cfg n)"
  unfolding compute_delay_def Let_def by (intro leads_intros)

lemma with_retry_co_leads [leads_intros]:
  "co_leads (on_snd R) p \<Longrightarrow> co_leads (on_snd R) (with_retry_co S cfg p)"
  by (rule co_leads_retry) (assumption | intro leads_intros)+

end

context worker_frame
begin

lemma is_new_co_leads [leads_intros]: "co_leads R (is_new_co S cfg i)"
  unfolding is_new_co_def by (intro leads_intros)

lemma dlq_send_co_leads [leads_intros]: "co_leads R (dlq_send_co S cfg ev et em rc tp pa off)"
  unfolding dlq_send_co_def Let_def by (intro leads_intros)

lemma send_context_co_leads [leads_intros]: "co_leads (on_snd R) (send_context_co S cfg et em rc)"
  unfolding send_context_co_def by (intro leads_intros)

lemma give_up_co_leads [leads_intros]: "co_leads (on_snd R) (give_up_co S cfg ev et exc)"
  unfolding give_up_co_def by (intro leads_intros)

lemma handler_co_leads:
  assumes "co_leads (on_snd R) p"
  shows "co_leads (on_snd R) (IdempotencyHandler_co S cfg p)"
    "co_leads (on_snd R) (WorkerValidationHandler_co S cfg p)"
    "co_leads (on_snd R) (PersistenceHandler_co S cfg p)" "co_leads (on_snd R) (DeviceStateHandler_co S p)"
proof -
  show "co_leads (on_snd R) (IdempotencyHandler_co S cfg p)"
    unfolding IdempotencyHandler_co_def
    by (intro leads_intros) (auto intro!: leads_intros assms split: option.split)
  show "co_leads (on_snd R) (WorkerValidationHandler_co S cfg p)"
    unfolding WorkerValidationHandler_co_def by (intro leads_intros assms) (simp split: prod.split)
  have "co_leads (on_snd R) (co_with_var 0 (co_try
      (co_andthen (with_retry_co S cfg (insert_once_co S ev)) (co_up p))
      (\<lambda>exc. if isinstance exc ''PostgresError'' then
                co_andthen (sync (eff (inc (DB_ERRORS (exn_name exc))))) (give_up_co S cfg ev (lit ''DB_ERROR'') exc)
              else if isinstance exc ''Exception'' then give_up_co S cfg ev (exn_name exc) exc
              else sync (raise exc))))" for ev
    by (intro leads_intros assms)
  then show "co_leads (on_snd R) (PersistenceHandler_co S cfg p)"
    unfolding PersistenceHandler_co_def
    by (intro leads_intros) (auto intro!: leads_intros assms split: option.split)
  have "co_leads (on_snd R) (co_andthen
      (co_eff (co_try (upsert_device_state_co S (device_id ev) (event_id ev) (event_type ev) (timestamp ev)
         (payload ev)) (co_catching ''Exception'' (\<lambda>exc. sync (ret ())))))
      (co_andthen (sync (eff (inc (EVENTS_PROCESSED (event_type ev)))))
      (co_bind (sync (eff (ask_host (h_monotonic (host_of S))))) (\<lambda>_.
      (co_andthen (sync (modify (\<lambda>(c, w). (c\<lparr>wc_processed := True\<rparr>, w)))) p)))))" for ev
    by (intro leads_intros assms) (simp split: prod.split)
  then show "co_leads (on_snd R) (DeviceStateHandler_co S p)"
    unfolding DeviceStateHandler_co_def
    by (intro leads_intros) (auto intro!: leads_intros assms split: option.split)
qed

lemma process_co_leads:
  assumes "\<And>v. leads R (add_gauge ACTIVE_TASKS v)"
  shows "co_leads R (process_co S cfg raw part off)"
proof -
  have "co_leads (on_snd R) (dispatch_co (worker_co_handlers S cfg) 0)"
    unfolding worker_co_handlers_def dispatch_co_Cons dispatch_co_Nil
    by (intro handler_co_leads leads_intros)
  moreover have "leads (on_snd R) (ensure_trace wc_get_id wc_set_id (ask_host (h_uuid4 (host_of S))))"
    unfolding ensure_trace_def by (intro leads_intros) (simp split: prod.split)
  ultimately have ex: "co_leads (on_snd R) (execute_co wc_get_id wc_set_id (ask_host (h_uuid4 (host_of S)))
      (worker_co_handlers S cfg))"
    unfolding execute_co_def by (auto intro!: leads_intros)
  have "co_leads R (co_hide c (execute_co wc_get_id wc_set_id (ask_host (h_uuid4 (host_of S)))
      (worker_co_handlers S cfg)))" for c
    by (rule co_leads_hide [OF _ ex]) (simp add: on_snd_def)
  then show ?thesis unfolding process_co_def by (intro leads_intros assms)
qed

end

section \<open>A cancelled task\<close>

text \<open>What lasts beyond the process is as it was.\<close>

definition untouched :: "('r, 'p, 'k, 'h) world \<Rightarrow> ('r, 'p, 'k, 'h) world \<Rightarrow> bool" where
  "untouched w w' \<longleftrightarrow> redis w' = redis w \<and> postgres w' = postgres w \<and> kafka w' = kafka w"

lemma preorder_untouched [dies_intros]: "preorder_rel untouched" "preorder_rel (on_snd untouched)"
  by (auto simp: preorder_rel_def untouched_def on_snd_def)

lemma untouched_metrics [dies_intros]:
  "leads untouched (observe h)" "leads untouched (add_gauge g v)"
  by (auto simp: untouched_def observe_def add_gauge_def intro!: leads_modify)

lemma quiet_metrics [dies_intros]: "quiet (observe h)" "quiet (add_gauge g v)"
  by (simp_all add: observe_def raises_modify raises_add_gauge)

lemma dies_timed [dies_intros]: "co_dies untouched p \<Longrightarrow> co_dies untouched (timed_co h p)"
  unfolding timed_co_def by (intro dies_intros)

lemma dies_calls [dies_intros]:
  "co_dies untouched (is_new_co S cfg i)" "co_dies untouched (release_co S i)"
  "co_dies untouched (insert_event_co S i' d t v p m ts)"
  "co_dies untouched (upsert_device_state_co S d i' t ts p)"
  "co_dies untouched (dlq_send_co S cfg ev et em rc tp pa off)"
  unfolding is_new_co_def release_co_def insert_event_co_def upsert_device_state_co_def
    dlq_send_co_def record_dlq_event_co_def Let_def
  by ((intro dies_intros; simp)+)

lemma dies_handlers [dies_intros]:
  "co_dies (on_snd untouched) (send_context_co S cfg et em rc)"
  "co_dies (on_snd untouched) (insert_once_co S ev)"
  "co_dies (on_snd untouched) (give_up_co S cfg ev et exc)"
  unfolding send_context_co_def insert_once_co_def give_up_co_def
  by (intro dies_intros)+

lemma dies_with_retry [dies_intros]:
  assumes "co_dies (on_snd untouched) p" shows "co_dies (on_snd untouched) (with_retry_co S cfg p)"
proof -
  have "passes (on_snd untouched) (if non_retryable CancelledError then sync (raise CancelledError)
      else if ordinary CancelledError then q else sync (raise CancelledError))" for q
    by (simp add: passes_raise dies_intros)
  then have attempt: "co_dies (on_snd untouched) (retry_attempt_co S cfg p n)" for n
    unfolding retry_attempt_co_def by (intro dies_intros assms)
  have "co_dies (on_snd untouched) (retry_loop_co S cfg p e ns)" for e ns
  proof (induction ns arbitrary: e)
    case Nil
    then show ?case by (auto split: option.split intro: dies_intros)
  next
    case (Cons n ns)
    have "co_dies (on_snd untouched)
        (case r of Inr x \<Rightarrow> sync (ret x) | Inl exc \<Rightarrow> retry_loop_co S cfg p (Some exc) ns)" for r
      using Cons by (cases r) (auto intro: dies_intros)
    then show ?case by (simp add: co_dies_bind dies_intros attempt)
  qed
  then show ?thesis by (simp add: with_retry_co_def)
qed

lemma dies_pipeline:
  assumes "co_dies (on_snd untouched) p"
  shows "co_dies (on_snd untouched) (IdempotencyHandler_co S cfg p)"
    "co_dies (on_snd untouched) (WorkerValidationHandler_co S cfg p)"
    "co_dies (on_snd untouched) (PersistenceHandler_co S cfg p)"
    "co_dies (on_snd untouched) (DeviceStateHandler_co S p)"
proof -
  show "co_dies (on_snd untouched) (IdempotencyHandler_co S cfg p)"
    unfolding IdempotencyHandler_co_def
    by (intro dies_intros) (auto intro!: dies_intros assms split: option.split)
  show "co_dies (on_snd untouched) (WorkerValidationHandler_co S cfg p)"
    unfolding WorkerValidationHandler_co_def by (intro dies_intros assms) simp
  have "co_dies (on_snd untouched) (co_with_var 0 (co_try
      (co_andthen (with_retry_co S cfg (insert_once_co S ev)) (co_up p))
      (\<lambda>exc. if isinstance exc ''PostgresError'' then
                co_andthen (sync (eff (inc (DB_ERRORS (exn_name exc))))) (give_up_co S cfg ev (lit ''DB_ERROR'') exc)
              else if isinstance exc ''Exception'' then give_up_co S cfg ev (exn_name exc) exc
              else sync (raise exc))))" for ev
    by (intro dies_intros assms) (simp add: passes_raise dies_intros)
  then show "co_dies (on_snd untouched) (PersistenceHandler_co S cfg p)"
    unfolding PersistenceHandler_co_def
    by (intro dies_intros) (auto intro!: dies_intros assms split: option.split)
  have "co_dies (on_snd untouched) (co_andthen
      (co_eff (co_try (upsert_device_state_co S (device_id ev) (event_id ev) (event_type ev) (timestamp ev)
         (payload ev)) (co_catching ''Exception'' (\<lambda>exc. sync (ret ())))))
      (co_andthen (sync (eff (inc (EVENTS_PROCESSED (event_type ev)))))
      (co_bind (sync (eff (ask_host (h_monotonic (host_of S))))) (\<lambda>_.
      (co_andthen (sync (modify (\<lambda>(c, w). (c\<lparr>wc_processed := True\<rparr>, w)))) p)))))" for ev
    by (intro dies_intros assms) simp
  then show "co_dies (on_snd untouched) (DeviceStateHandler_co S p)"
    unfolding DeviceStateHandler_co_def
    by (intro dies_intros) (auto intro!: dies_intros assms split: option.split)
qed

lemma dies_process: "co_dies untouched (process_co S cfg raw part off)"
proof -
  have "co_dies (on_snd untouched) (dispatch_co (worker_co_handlers S cfg) 0)"
    unfolding worker_co_handlers_def dispatch_co_Cons dispatch_co_Nil
    by (intro dies_pipeline dies_intros)
  then have ex: "co_dies (on_snd untouched) (execute_co wc_get_id wc_set_id (ask_host (h_uuid4 (host_of S)))
      (worker_co_handlers S cfg))"
    unfolding execute_co_def by (auto intro!: dies_intros)
  have "co_dies untouched (co_hide c (execute_co wc_get_id wc_set_id (ask_host (h_uuid4 (host_of S)))
      (worker_co_handlers S cfg)))" for c
    by (rule co_dies_hide [OF _ ex]) (simp add: on_snd_def)
  then show ?thesis unfolding process_co_def by (intro dies_intros)
qed

end
