(* ===== verification/Task_Outcome.thy ===== *)
theory Task_Outcome
  imports Worker_Tasks
begin

text \<open>
  What becomes of an event in a task among other tasks. The ghost value of the logic
  (\<open>Coroutine_Spec\<close>) is the outcome that the task has counted so far: none, or one of the counters
  of \<open>Processor\<close>. \<open>counted\<close> is what a stretch of the task may do to it: count no outcome, or count
  one where none was counted before.
\<close>

definition counted :: "(counter option, ('r, 'p, 'k, 'h) world) step_rel" where
  "counted g w w' g' \<longleftrightarrow>
     (g' = g \<and> (\<forall>c. outcome_counter c \<longrightarrow> tally c w' = tally c w)) \<or>
     (\<exists>c. g = None \<and> g' = Some c \<and> one_outcome c w w')"

abbreviation anywhere :: "'g \<Rightarrow> 's \<Rightarrow> bool" where
  "anywhere \<equiv> \<lambda>_ _. True"

lemma ghost_counted: "ghost_rel anywhere counted"
  unfolding ghost_rel_def counted_def one_outcome_def by (intro conjI allI impI) (simp, auto)

lemmas ghost_ctx = ghost_rel_ctx [OF ghost_counted]

text \<open>A coroutine that counts no outcome.\<close>

lemma spec_kept:
  assumes "co_leads kept p" "co_raises P p"
  shows "co_spec anywhere counted (\<lambda>g' r. g' = g \<and> (\<forall>e. r = Inl e \<longrightarrow> P e)) g p"
  by (rule co_spec_keep [OF _ assms]) (auto simp: kept_def counted_def)

lemma spec_counts:
  assumes "outcome_counter c"
  shows "co_spec anywhere counted (\<lambda>g r. g = Some c \<and> r = Inr ()) None (sync (inc c))"
  using assms by (intro co_spec_sync) (auto simp: inc_def modify_def counted_def one_outcome_def)

lemma spec_sync_kept:
  assumes "\<And>w r w'. m w = (r, w') \<Longrightarrow> kept w w' \<and> P r"
  shows "co_spec anywhere counted (\<lambda>g' r. g' = g \<and> P r) g (sync m)"
  using assms by (intro co_spec_sync) (fastforce simp: kept_def counted_def)

lemma kept_host [simp]: "kept w (w\<lparr>host := h\<rparr>)" "kept w w" "kept w (tick h' w)"
  "kept w (w\<lparr>met := (met w)\<lparr>gauges := v\<rparr>\<rparr>)"
  by (simp_all add: kept_def)

section \<open>The parts\<close>

lemma spec_is_new:
  fixes S :: "('r, 'p, 'k, 'h) services"
  assumes "uncancelled S"
  shows "co_spec anywhere counted (\<lambda>g r. \<exists>b. r = Inr b \<and> g = (if b then None else Some EVENTS_DUPLICATE))
    None (is_new_co S cfg i)"
  unfolding is_new_co_def timed_co_def
proof (rule co_spec_finally [OF ghost_counted])
  let ?Q = "\<lambda>g (r :: exn + bool). \<exists>b. r = Inr b \<and> g = (if b then None else Some EVENTS_DUPLICATE)"
  let ?call = "on_redis (r_set_nx (redis_of S) (idempotency_key (py_of S) i) (lit ''1'') (W_IDEMPOTENCY_TTL_SECONDS cfg))
    :: (('r, 'p, 'k, 'h) world, bool) io"
  have call: "co_spec anywhere counted (\<lambda>g r. g = None \<and> (\<forall>e. r = Inl e \<longrightarrow> ordinary e)) None (await ?call)"
    by (intro spec_kept leads_intros raises_intros kept_calls.calls kept_calls.pre
        uncancelled.mild_redis assms)
  have body: "co_spec anywhere counted ?Q None
      (sync (if \<not> b then andthen (inc EVENTS_DUPLICATE) (ret False) else ret True))" for b
    by (rule co_spec_sync) (auto simp: io_defs counted_def one_outcome_def split: if_splits)
  show "co_spec anywhere counted ?Q None
      (co_try (co_bind (await ?call) (\<lambda>result. sync (if \<not> result then andthen (inc EVENTS_DUPLICATE) (ret False) else ret True)))
        (co_catching ''Exception'' (\<lambda>exc. sync (ret True))))"
  proof (rule co_spec_try [OF ghost_counted])
    show "co_spec anywhere counted (\<lambda>g r. case r of Inl e \<Rightarrow> g = None \<and> ordinary e | Inr b \<Rightarrow> ?Q g r) None
        (co_bind (await ?call) (\<lambda>result. sync (if \<not> result then andthen (inc EVENTS_DUPLICATE) (ret False) else ret True)))"
      by (rule co_spec_bind [OF ghost_counted call], elim conjE, simp only:, rule co_spec_mono [OF body])
         auto
  next
    fix g e assume "case Inl e of Inl e \<Rightarrow> g = None \<and> ordinary e | Inr b \<Rightarrow> ?Q g (Inl e)"
    then show "co_spec anywhere counted ?Q g (co_catching ''Exception'' (\<lambda>exc. sync (ret True)) e)"
      by (auto simp: co_catching_def ret_def counted_def intro!: co_spec_sync)
  qed simp
next
  fix g and r :: "exn + bool" assume "\<exists>b. r = Inr b \<and> g = (if b then None else Some EVENTS_DUPLICATE)"
  then obtain b where b: "r = Inr b" "g = (if b then None else Some EVENTS_DUPLICATE)" by blast
  show "co_spec anywhere counted (\<lambda>g' u. case u of
        Inl e \<Rightarrow> \<exists>b. (Inl e :: exn + bool) = Inr b \<and> g' = (if b then None else Some EVENTS_DUPLICATE)
      | Inr _ \<Rightarrow> \<exists>b. r = Inr b \<and> g' = (if b then None else Some EVENTS_DUPLICATE)) g
      (sync (observe IDEMPOTENCY_CHECK_LATENCY))"
    unfolding b by (rule co_spec_sync) (auto simp: observe_def modify_def counted_def)
qed

lemma raises_co_database [raises_intros]:
  assumes "uncancelled S"
  shows "co_mild (insert_event_co S i d t v p m ts)" "co_mild (upsert_device_state_co S d i t ts p)"
    "co_mild (record_dlq_event_co S i' d' tp raw em rc)"
proof -
  have "ordinary e" if "rows_affected tag = Inl e" for tag e
    using that by (auto simp: rows_affected_def IndexError_def ValueError_def split: if_splits option.splits)
  then show "co_mild (insert_event_co S i d t v p m ts)"
    unfolding insert_event_co_def get_pool_def
    by (intro raises_intros uncancelled.mild_pg [OF assms]) (auto simp: RuntimeError_def)
  show "co_mild (upsert_device_state_co S d i t ts p)" "co_mild (record_dlq_event_co S i' d' tp raw em rc)"
    unfolding upsert_device_state_co_def record_dlq_event_co_def get_pool_def
    by ((intro raises_intros uncancelled.mild_pg [OF assms]; auto simp: RuntimeError_def)+)
qed

lemma raises_timed_co [raises_intros]: "co_raises P p \<Longrightarrow> co_raises P (timed_co h p)"
  unfolding timed_co_def observe_def by (intro raises_intros)

lemma raises_retry_loop_co:
  fixes p :: "('c \<times> ('r, 'p, 'k, 'h) world, 'a) co"
  assumes "co_mild p" "uncancelled S" "\<And>e. last_exc = Some e \<Longrightarrow> ordinary e"
  shows "co_mild (retry_loop_co S cfg p last_exc ns)"
proof -
  have attempt: "co_spec anywhere (\<lambda>_ _ _ _. True)
      (\<lambda>_ r. case r of Inl e \<Rightarrow> ordinary e | Inr (Inl e) \<Rightarrow> ordinary e | Inr (Inr x) \<Rightarrow> True) ()
      (retry_attempt_co S cfg p n)" (is "co_spec _ _ ?Q _ _") for n
    unfolding retry_attempt_co_def
  proof (rule co_spec_try [OF ghost_rel_True])
    show "co_spec anywhere (\<lambda>_ _ _ _. True) (\<lambda>_ r. case r of Inl e \<Rightarrow> ordinary e | Inr y \<Rightarrow> \<exists>x. y = Inr x) ()
        (co_bind p (\<lambda>x. sync (ret (Inr x))))"
      by (rule co_spec_bind [OF ghost_rel_True assms(1) [unfolded co_raises_def]])
         (auto simp: ret_def intro: co_spec_sync)
  next
    fix g e assume "case (Inl e :: exn + exn + 'a) of Inl e \<Rightarrow> ordinary e | Inr y \<Rightarrow> \<exists>x. y = Inr x"
    then have e: "ordinary e" by simp
    have sleep: "co_mild (co_eff (co_bind (sync (compute_delay S cfg n)) (\<lambda>delay. await (on_host (h_sleep (host_of S) delay)))))"
      unfolding compute_delay_def Let_def by (intro raises_intros uncancelled.mild_host assms(2))
    have count: "co_mild (sync (eff (inc (RETRY_ATTEMPTS (int_str n)))))" by (intro raises_intros)
    have done': "co_spec anywhere (\<lambda>_ _ _ _. True) ?Q () (sync (ret (Inl e)))" "co_spec anywhere (\<lambda>_ _ _ _. True) ?Q () (sync (raise e))"
      using e by (auto simp: ret_def raise_def intro!: co_spec_sync)
    show "co_spec anywhere (\<lambda>_ _ _ _. True) ?Q g
        (if non_retryable e then sync (raise e)
         else if ordinary e then co_andthen (sync (eff (inc (RETRY_ATTEMPTS (int_str n)))))
           (if n < W_RETRY_MAX_ATTEMPTS cfg
            then co_andthen (co_eff (co_bind (sync (compute_delay S cfg n)) (\<lambda>delay. await (on_host (h_sleep (host_of S) delay)))))
              (sync (ret (Inl e)))
            else sync (ret (Inl e)))
         else sync (raise e))"
      using sleep count done' unfolding co_raises_def
      by (auto intro!: co_spec_andthen [OF ghost_rel_True])
  qed (auto split: sum.splits)
  show ?thesis
    using assms(3)
  proof (induction ns arbitrary: last_exc)
    case Nil
    have "ordinary AssertionError" by (simp add: AssertionError_def)
    with Nil show ?case by (auto intro: raises_intros split: option.split)
  next
    case (Cons n ns)
    have "co_spec anywhere (\<lambda>_ _ _ _. True) (\<lambda>_ r. \<forall>e. r = Inl e \<longrightarrow> ordinary e) ()
        (co_bind (retry_attempt_co S cfg p n)
          (\<lambda>r. case r of Inr x \<Rightarrow> sync (ret x) | Inl exc \<Rightarrow> retry_loop_co S cfg p (Some exc) ns))"
      by (rule co_spec_bind [OF ghost_rel_True attempt])
         (use Cons.IH in \<open>auto simp: co_raises_def ret_def intro!: co_spec_sync split: sum.splits\<close>)
    then show ?case by (simp add: co_raises_def)
  qed
qed

text \<open>The retried insertion counts no outcome and leaves the context as it was, apart from the retry
  count.\<close>

lemma leads_ctx_eff_co: "co_leads R p \<Longrightarrow> co_leads (ctx_kept R) (co_eff p)"
proof -
  have "pause_leads (ctx_kept R) (pause_zoom snd (\<lambda>w (c, _). (c, w)) q)" if "pause_leads R q" for q
    using that
    by (induction q rule: pause_leads.induct)
       (auto simp: case_prod_beta ctx_kept_def intro!: pause_leads.intros)
  then show "co_leads R p \<Longrightarrow> co_leads (ctx_kept R) (co_eff p)"
    by (auto simp: co_leads_def co_eff_def co_zoom_def map_prod_def case_prod_beta ctx_kept_def)
qed

context worker_calls
begin

lemma insert_keeps_context: "co_leads (ctx_kept R) (with_retry_co S cfg (insert_once_co S ev))"
proof -
  have once: "co_leads (ctx_kept R) (insert_once_co S ev)"
    unfolding insert_once_co_def
    by (intro co_leads_andthen co_leads_sync leads_modify leads_ctx_eff_co preorder_ctx_kept pre
        timed_co_leads database_co_leads leads_ret)
       (auto simp: ctx_kept_def preorder_relD [OF pre])
  show ?thesis
    by (rule co_leads_retry [OF preorder_ctx_kept [OF pre] once])
       (intro leads_ctx_eff leads_ctx_eff_co leads_intros)+
qed

end

lemma spec_insert:
  assumes "uncancelled S"
  shows "co_spec (var_fits anywhere) (ctx_step counted) (\<lambda>g' r. g' = g \<and> (\<forall>e. r = Inl e \<longrightarrow> ordinary e)) g
    (with_retry_co S cfg (insert_once_co S ev))"
proof (rule co_spec_keep [OF _ kept_calls.insert_keeps_context])
  show "co_mild (with_retry_co S cfg (insert_once_co S ev))"
    unfolding with_retry_co_def insert_once_co_def
    by (intro raises_retry_loop_co raises_intros assms) simp_all
qed (auto simp: var_fits_def ctx_step_def ctx_kept_def kept_def counted_def)

lemma co_bind_result [simp]:
  "co_bind (sync (of_result (Inr x))) f = f x" "co_bind (sync (of_result (Inl e))) f = sync (raise e)"
  by (simp_all add: co_bind_def co_then_def sync_def of_result_def)

lemma co_bind_gets: "co_bind (sync (gets h)) f = (\<lambda>s. f (h s) s)"
  by (simp add: fun_eq_iff co_bind_def co_then_def sync_def gets_def)

text \<open>A coroutine that begins by reading its context.\<close>

lemma co_spec_gets:
  assumes "\<And>s. I g s \<Longrightarrow> h s = x" "co_spec I G Q g (f x)"
  shows "co_spec I G Q g (co_bind (sync (gets h)) f)"
proof (rule co_specI)
  fix s assume s: "I g s"
  from assms(2) s obtain g' where "I g' (snd (f x s))" "G g s (snd (f x s)) g'" "pause_spec I G Q g' (fst (f x s))"
    by (rule co_specD)
  with assms(1) [OF s] show "\<exists>g'. I g' (snd (co_bind (sync (gets h)) f s)) \<and>
      G g s (snd (co_bind (sync (gets h)) f s)) g' \<and> pause_spec I G Q g' (fst (co_bind (sync (gets h)) f s))"
    by (auto simp: co_bind_gets)
qed

lemma co_spec_gets_any:
  assumes "\<And>x. co_spec I G Q g (f x)" shows "co_spec I G Q g (co_bind (sync (gets h)) f)"
proof (rule co_specI)
  fix s assume "I g s"
  with assms [of "h s"] show "\<exists>g'. I g' (snd (co_bind (sync (gets h)) f s)) \<and>
      G g s (snd (co_bind (sync (gets h)) f s)) g' \<and> pause_spec I G Q g' (fst (co_bind (sync (gets h)) f s))"
    by (auto simp: co_bind_gets co_spec_def)
qed

lemma no_exception [simp]: "(\<forall>e. r \<noteq> Inl e) \<longleftrightarrow> r = Inr ()" for r :: "exn + unit"
  by (cases r) auto

definition same_outcomes :: "('r, 'p, 'k, 'h) world \<Rightarrow> ('r, 'p, 'k, 'h) world \<Rightarrow> bool" where
  "same_outcomes w w' \<longleftrightarrow> (\<forall>c. outcome_counter c \<longrightarrow> tally c w' = tally c w)"

lemma spec_same:
  assumes "co_leads same_outcomes p" "co_raises P p"
  shows "co_spec anywhere counted (\<lambda>g' r. g' = g \<and> (\<forall>e. r = Inl e \<longrightarrow> P e)) g p"
  by (rule co_spec_keep [OF _ assms]) (auto simp: same_outcomes_def counted_def)

lemma same_outcomes_calls:
  "preorder_rel same_outcomes" "leads same_outcomes (on_redis mr)" "leads same_outcomes (on_pg mp)"
  "leads same_outcomes (on_kafka mk)" "leads same_outcomes (on_host mh)" "leads same_outcomes (ask_host f)"
  by (auto simp: same_outcomes_def preorder_rel_def intro!: world_calls_same)

lemma spec_dlq_send:
  assumes "well_behaved S" "dlq_key (dlq_id_of d) = Inr key"
  shows "co_spec anywhere counted (\<lambda>g r. g = Some (EVENTS_DLQ et) \<and> r = Inr ()) None
    (dlq_send_co S cfg (JObj d) et em rc tp pa off)"
proof -
  have un: "uncancelled S" using assms(1) by (simp add: well_behaved_def)
  let ?id = "dlq_id_of d"
  have send: "co_raises (\<lambda>e. isinstance e ''KafkaError'') (co_bind (sync (of_result (dlq_key ?id)))
      (\<lambda>key. await (on_kafka (k_send_and_wait (kafka_of S) (W_KAFKA_TOPIC_DLQ cfg) v (Some key)))))" for v
    using assms by (auto simp: well_behaved_def kafka_errors_def intro!: raises_intros)
  have quiet: "co_raises (\<lambda>_. False) (co_bind (sync (ask_host (h_uuid4 (host_of S)))) (\<lambda>uuid.
      co_bind (sync (ask_host (h_now_iso (host_of S)))) (\<lambda>now. co_andthen
        (co_try (co_bind (sync (of_result (dlq_key ?id))) (\<lambda>key.
            await (on_kafka (k_send_and_wait (kafka_of S) (W_KAFKA_TOPIC_DLQ cfg) (v uuid now) (Some key)))))
          (co_catching ''KafkaError'' (\<lambda>exc. sync (ret ()))))
        (co_try (record_dlq_event_co S i d' tp raw m rc) (co_catching ''Exception'' (\<lambda>exc. sync (ret ())))))))"
    for v i d' raw m
    by (intro raises_intros raises_co_database un co_raises_try [OF send])
       (simp add: co_catching_def raises_intros)
  have same: "co_leads same_outcomes (co_bind (sync (ask_host (h_uuid4 (host_of S)))) (\<lambda>uuid.
      co_bind (sync (ask_host (h_now_iso (host_of S)))) (\<lambda>now. co_andthen
        (co_try (co_bind (sync (of_result (dlq_key ?id))) (\<lambda>key.
            await (on_kafka (k_send_and_wait (kafka_of S) (W_KAFKA_TOPIC_DLQ cfg) (v uuid now) (Some key)))))
          (co_catching ''KafkaError'' (\<lambda>exc. sync (ret ()))))
        (co_try (record_dlq_event_co S i d' tp raw m rc) (co_catching ''Exception'' (\<lambda>exc. sync (ret ())))))))"
    for v i d' raw m
    unfolding record_dlq_event_co_def get_pool_def by (intro leads_intros same_outcomes_calls)
  have count: "co_spec anywhere counted (\<lambda>g r. g = Some (EVENTS_DLQ et) \<and> r = Inr ()) None
      (sync (inc (EVENTS_DLQ et)))"
    by (rule spec_counts) simp
  show ?thesis
    unfolding dlq_send_co_def Let_def dict_get.simps co_bind_result
    by (rule co_spec_andthen [OF ghost_counted count])
       (elim conjE, simp only:, rule co_spec_mono [OF spec_same [OF same quiet, unfolded dlq_id_of_def]], auto)
qed

section \<open>The handlers, from the last\<close>

lemma spec_send_context:
  assumes "well_behaved S" "dlq_key (dlq_id_of d) = Inr key" "wc_raw_event c = JObj d"
  shows "co_spec (ctx_fits anywhere) (ctx_step counted)
    (\<lambda>g r. g = (Some (EVENTS_DLQ et), c) \<and> r = Inr ()) (None, c) (send_context_co S cfg et em rc)"
  unfolding send_context_co_def
proof (rule co_spec_gets)
  show "co_spec (ctx_fits anywhere) (ctx_step counted)
      (\<lambda>g r. g = (Some (EVENTS_DLQ et), c) \<and> r = Inr ()) (None, c)
      (co_eff (dlq_send_co S cfg (wc_raw_event c) et em rc dlq_topic_default (wc_kafka_partition c) (wc_kafka_offset c)))"
    unfolding assms(3)
    by (rule co_spec_mono [OF co_spec_eff(1) [OF spec_dlq_send [OF assms(1,2)]]]) (auto simp: prod_eq_iff)
qed (simp add: ctx_fits_def)

lemma spec_give_up:
  assumes "well_behaved S" "dlq_key (dlq_id_of d) = Inr key" "wc_raw_event c = JObj d"
  shows "co_spec (var_fits anywhere) (ctx_step counted)
    (\<lambda>g r. g = (Some (EVENTS_DLQ et), c) \<and> r = Inr ()) (None, c) (give_up_co S cfg ev et exc)"
proof -
  have un: "uncancelled S" using assms(1) by (simp add: well_behaved_def)
  have "co_raises (\<lambda>_. False) (release_co S (JStr (event_id ev)))"
    unfolding release_co_def by (intro raises_intros uncancelled.mild_redis [OF un])
  from co_spec_eff(2) [OF spec_kept [OF kept_calls.release_co_leads this, where g = None], where c = c]
  have rel: "co_spec (var_fits anywhere) (ctx_step counted) (\<lambda>g r. g = (None, c) \<and> r = Inr ()) (None, c)
      (co_eff (release_co S (JStr (event_id ev))))"
    by (rule co_spec_mono) (auto simp: prod_eq_iff)
  have any_n: "co_spec (var_fits anywhere) (ctx_step counted)
      (\<lambda>g r. g = (Some (EVENTS_DLQ et), c) \<and> r = Inr ()) (None, c)
      (co_bind (sync (gets (\<lambda>((n, c), w). n))) (\<lambda>n. co_up (send_context_co S cfg et em n)))" for em
    by (rule co_spec_gets_any, rule co_spec_up, rule spec_send_context [OF assms])
  show ?thesis
    unfolding give_up_co_def
    by (rule co_spec_andthen [OF ghost_ctx(2) rel]) (use any_n in auto)
qed

text \<open>The counter with which an event may end behind the validation.\<close>

definition late_outcome :: "iot_event \<Rightarrow> counter \<Rightarrow> bool" where
  "late_outcome ev c \<longleftrightarrow> c = EVENTS_PROCESSED (event_type ev) \<or> (\<exists>et. c = EVENTS_DLQ et)"

lemma spec_DeviceStateHandler:
  assumes "uncancelled S" "wc_event c = Some ev"
  shows "co_spec (ctx_fits anywhere) (ctx_step counted)
    (\<lambda>g r. fst g = Some (EVENTS_PROCESSED (event_type ev)) \<and> r = Inr ()) (None, c)
    (DeviceStateHandler_co S (sync (ret ())))"
  unfolding DeviceStateHandler_co_def
proof (rule co_spec_gets [where x = "Some ev"], goal_cases)
  case (2)
  let ?upsert = "upsert_device_state_co S (device_id ev) (event_id ev) (event_type ev) (timestamp ev) (payload ev)"
  have "co_raises (\<lambda>_. False) (co_try ?upsert (co_catching ''Exception'' (\<lambda>exc. sync (ret ()))))"
    by (intro raises_intros raises_co_database assms)
  moreover have "co_leads kept (co_try ?upsert (co_catching ''Exception'' (\<lambda>exc. sync (ret ()))))"
    by (intro leads_intros kept_calls.pre kept_calls.database_co_leads)
  ultimately have upsert: "co_spec (ctx_fits anywhere) (ctx_step counted) (\<lambda>g r. g = (None, c) \<and> r = Inr ()) (None, c)
      (co_eff (co_try ?upsert (co_catching ''Exception'' (\<lambda>exc. sync (ret ())))))"
    by (rule_tac co_spec_mono [OF co_spec_eff(1) [OF spec_kept]]) (auto simp: prod_eq_iff)
  let ?some = "Some (EVENTS_PROCESSED (event_type ev))"
  have count: "co_spec (ctx_fits anywhere) (ctx_step counted) (\<lambda>g r. g = (?some, c) \<and> r = Inr ()) (None, c)
      (sync (eff (inc (EVENTS_PROCESSED (event_type ev)))))"
    by (rule co_spec_sync)
       (auto simp: fits_defs eff_def inc_def modify_def counted_def one_outcome_def split: prod.splits)
  have clock: "co_spec (ctx_fits anywhere) (ctx_step counted) (\<lambda>g r. g = (?some, c) \<and> (\<exists>t. r = Inr t)) (?some, c)
      (sync (eff (ask_host (h_monotonic (host_of S)))))"
    by (rule co_spec_sync)
       (auto simp: fits_defs eff_def ask_host_def counted_def split: prod.splits)
  have rest: "co_spec (ctx_fits anywhere) (ctx_step counted) (\<lambda>g r. fst g = ?some \<and> r = Inr ()) (?some, c)
      (co_andthen (sync (modify (\<lambda>(c, w). (c\<lparr>wc_processed := True\<rparr>, w)))) (sync (ret ())))"
    by (rule co_spec_andthen [OF ghost_ctx(1), where Q = "\<lambda>g r. fst g = ?some \<and> (\<exists>x. r = Inr x)"])
       (auto simp: fits_defs modify_def ret_def counted_def intro!: co_spec_sync)
  show ?case
    apply simp
    apply (rule co_spec_andthen [OF ghost_ctx(1) upsert])
     apply (elim conjE, simp only:)
     apply (rule co_spec_andthen [OF ghost_ctx(1) count])
      apply (elim conjE, simp only:)
      apply (rule co_spec_bind [OF ghost_ctx(1) clock])
       apply (elim conjE, simp only:, rule rest)
      apply auto
    done
qed (use assms(2) in \<open>auto simp: ctx_fits_def\<close>)

lemma spec_PersistenceHandler:
  assumes "well_behaved S" "dlq_key (dlq_id_of d) = Inr key" "wc_raw_event c = JObj d" "wc_event c = Some ev"
  shows "co_spec (ctx_fits anywhere) (ctx_step counted)
    (\<lambda>g r. (\<exists>o'. fst g = Some o' \<and> late_outcome ev o') \<and> r = Inr ()) (None, c)
    (PersistenceHandler_co S cfg (DeviceStateHandler_co S (sync (ret ()))))"
    (is "co_spec _ _ ?Q _ _")
  unfolding PersistenceHandler_co_def
proof (rule co_spec_gets [where x = "Some ev"], goal_cases)
  case 2
  have un: "uncancelled S" using assms(1) by (simp add: well_behaved_def)
  note dev = co_spec_up [OF spec_DeviceStateHandler [OF un assms(4)]]
  let ?M = "\<lambda>g r. (case r of Inr u \<Rightarrow> ?Q g r | Inl e \<Rightarrow> g = (None, c) \<and> ordinary e)"
  have body: "co_spec (var_fits anywhere) (ctx_step counted) ?M (None, c)
      (co_andthen (with_retry_co S cfg (insert_once_co S ev)) (co_up (DeviceStateHandler_co S (sync (ret ())))))"
    by (rule co_spec_andthen [OF ghost_ctx(2) spec_insert [OF un]])
       (auto simp: late_outcome_def intro: co_spec_mono [OF dev])
  have late: "co_spec (var_fits anywhere) (ctx_step counted) ?Q (None, c) (give_up_co S cfg ev et exc)" for et exc
    by (rule co_spec_mono [OF spec_give_up [OF assms(1-3)]]) (auto simp: late_outcome_def)
  have count: "co_spec (var_fits anywhere) (ctx_step counted) (\<lambda>g r. g = (None, c) \<and> r = Inr ()) (None, c)
      (sync (eff (inc (DB_ERRORS ty))))" for ty
    by (rule co_spec_sync)
       (auto simp: fits_defs eff_def inc_def modify_def counted_def split: prod.splits)
  have pg: "co_spec (var_fits anywhere) (ctx_step counted) ?Q (None, c)
      (co_andthen (sync (eff (inc (DB_ERRORS ty)))) (give_up_co S cfg ev et exc))" for ty et exc
    by (rule co_spec_andthen [OF ghost_ctx(2) count]) (auto intro: late)
  show ?case
    unfolding option.case
    by (rule co_spec_with_var, rule co_spec_try [OF ghost_ctx(2) body]) (auto intro: late pg)
qed (use assms(4) in \<open>auto simp: ctx_fits_def\<close>)

definition may_end :: "pylib \<Rightarrow> dict \<Rightarrow> counter \<Rightarrow> bool" where
  "may_end py d o' \<longleftrightarrow> (case IoTEvent py d of
       Inl e \<Rightarrow> o' = EVENTS_DLQ (lit ''VALIDATION_ERROR'')
     | Inr ev \<Rightarrow> late_outcome ev o')"

lemma spec_WorkerValidationHandler:
  fixes S :: "('r, 'p, 'k, 'h) services"
  assumes "well_behaved S" "dlq_key (dlq_id_of d) = Inr key" "wc_raw_event c = JObj d"
  shows "co_spec (ctx_fits anywhere) (ctx_step counted)
    (\<lambda>g r. (\<exists>o'. fst g = Some o' \<and> may_end (py_of S) d o') \<and> r = Inr ()) (None, c)
    (WorkerValidationHandler_co S cfg (PersistenceHandler_co S cfg (DeviceStateHandler_co S (sync (ret ())))))"
    (is "co_spec _ _ ?Q _ _")
  unfolding WorkerValidationHandler_co_def
proof (rule co_spec_gets [where x = "JObj d"], goal_cases)
  case 2
  let ?next = "PersistenceHandler_co S cfg (DeviceStateHandler_co S (sync (ret ())))"
  show ?case
  proof (cases "IoTEvent (py_of S) d")
    case (Inl e)
    then have e: "ordinary e" by (simp add: IoTEvent_Inl)
    have "co_spec (ctx_fits anywhere) (ctx_step counted) ?Q (None, c)
        (send_context_co S cfg (lit ''VALIDATION_ERROR'') (msg e) 0)"
      by (rule co_spec_mono [OF spec_send_context [OF assms]]) (auto simp: may_end_def Inl)
    moreover have "co_spec (ctx_fits anywhere) (ctx_step counted) (\<lambda>g r. g = (None, c) \<and> r = Inl e) (None, c)
        (sync (raise e) :: (worker_context \<times> ('r, 'p, 'k, 'h) world, unit) co)"
      by (simp add: co_spec_raise [OF ghost_ctx(1)])
    ultimately show ?thesis
      using Inl e by (auto simp: IoTEvent_of_def co_catching_def intro!: co_spec_try [OF ghost_ctx(1)])
  next
    case (Inr ev)
    let ?c = "c\<lparr>wc_event := Some ev\<rparr>"
    have store: "co_spec (ctx_fits anywhere) (ctx_step counted) (\<lambda>g r. g = (None, ?c) \<and> r = Inr ()) (None, c)
        (sync (modify (\<lambda>(c, w). (c\<lparr>wc_event := Some ev\<rparr>, w))))"
      by (rule co_spec_sync) (auto simp: fits_defs modify_def counted_def split: prod.splits)
    have "co_spec (ctx_fits anywhere) (ctx_step counted) ?Q (None, ?c) ?next"
      by (rule co_spec_mono [OF spec_PersistenceHandler [OF assms(1,2)]])
         (auto simp: assms(3) may_end_def Inr)
    then have "co_spec (ctx_fits anywhere) (ctx_step counted) ?Q (None, c)
        (co_andthen (sync (modify (\<lambda>(c, w). (c\<lparr>wc_event := Some ev\<rparr>, w)))) ?next)"
      by (intro co_spec_andthen [OF ghost_ctx(1) store]) auto
    then show ?thesis
      using Inr by (auto simp: IoTEvent_of_def intro!: co_spec_try [OF ghost_ctx(1)])
  qed
qed (use assms(3) in \<open>auto simp: ctx_fits_def\<close>)

lemma spec_IdempotencyHandler:
  assumes "well_behaved S" "dlq_key (dlq_id_of d) = Inr key" "wc_raw_event c = JObj d"
  shows "co_spec (ctx_fits anywhere) (ctx_step counted)
    (\<lambda>g r. (\<exists>o'. fst g = Some o' \<and> (o' = EVENTS_DUPLICATE \<or> may_end (py_of S) d o')) \<and> r = Inr ()) (None, c)
    (dispatch_co (worker_co_handlers S cfg) 0)"
    (is "co_spec _ _ ?Q _ _")
proof -
  have un: "uncancelled S" using assms(1) by (simp add: well_behaved_def)
  let ?next = "WorkerValidationHandler_co S cfg (PersistenceHandler_co S cfg (DeviceStateHandler_co S (sync (ret ()))))"
  have next': "co_spec (ctx_fits anywhere) (ctx_step counted) ?Q (None, c) ?next"
    by (rule co_spec_mono [OF spec_WorkerValidationHandler [OF assms]]) auto
  have new: "co_spec (ctx_fits anywhere) (ctx_step counted)
      (\<lambda>g r. \<exists>b. r = Inr b \<and> g = (if b then None else Some EVENTS_DUPLICATE, c)) (None, c)
      (co_eff (is_new_co S cfg i))" for i
    by (rule co_spec_mono [OF co_spec_eff(1) [OF spec_is_new [OF un]]]) (auto simp: prod_eq_iff)
  have check: "co_spec (ctx_fits anywhere) (ctx_step counted) ?Q (None, c)
      (co_bind (co_eff (is_new_co S cfg i)) (\<lambda>new. if \<not> new then sync (ret ()) else ?next))" for i
    by (rule co_spec_bind [OF ghost_ctx(1) new])
       (auto intro!: next' co_spec_ret [OF ghost_ctx(1)])
  have "co_spec (ctx_fits anywhere) (ctx_step counted) ?Q (None, c) (IdempotencyHandler_co S cfg ?next)"
    unfolding IdempotencyHandler_co_def
    by (rule co_spec_gets [where x = "JObj d"])
       (use assms(3) next' check in \<open>auto simp: ctx_fits_def split: option.split\<close>)
  then show ?thesis by (simp add: worker_co_handlers_def)
qed

text \<open>A task counts exactly one outcome and ends normally, whatever the other tasks do.\<close>

lemma spec_process:
  assumes "well_behaved S" "dlq_key (dlq_id_of d) = Inr key"
  shows "co_spec anywhere counted
    (\<lambda>g r. (\<exists>o'. g = Some o' \<and> (o' = EVENTS_DUPLICATE \<or> may_end (py_of S) d o')) \<and> r = Inr ()) None
    (process_co S cfg (JObj d) part off)"
    (is "co_spec _ _ ?Q _ _")
proof -
  have gauge: "co_spec anywhere counted (\<lambda>g' r. g' = g \<and> r = Inr ()) g (sync (add_gauge ACTIVE_TASKS v))" for g v
    by (rule spec_sync_kept) (auto simp: add_gauge_def modify_def)
  have clock: "co_spec anywhere counted (\<lambda>g' r. g' = g \<and> (\<exists>t. r = Inr t)) g (sync (ask_host f))" for g f
    by (rule spec_sync_kept) (auto simp: ask_host_def split: prod.splits)
  have tick': "co_spec anywhere counted (\<lambda>g' r. g' = g \<and> r = Inr ()) g (sync (observe h))" for g h
    by (rule spec_sync_kept) (auto simp: observe_def modify_def)
  have inner: "co_spec anywhere counted ?Q None
      (co_hide (new_worker_context (JObj d) t part off t0)
        (execute_co wc_get_id wc_set_id (ask_host (h_uuid4 (host_of S))) (worker_co_handlers S cfg)))" for t t0
  proof (rule co_spec_in_context)
    let ?c = "new_worker_context (JObj d) t part off t0"
    have trace: "co_spec (ctx_fits anywhere) (ctx_step counted)
        (\<lambda>g r. fst g = None \<and> wc_raw_event (snd g) = JObj d \<and> r = Inr ()) (None, ?c)
        (sync (ensure_trace wc_get_id wc_set_id (ask_host (h_uuid4 (host_of S)))))"
      by (rule co_spec_sync)
         (auto simp: ensure_trace_def io_defs fits_defs counted_def new_worker_context_def wc_set_id_def
           split: prod.splits if_splits)
    show "co_spec (ctx_fits anywhere) (ctx_step counted) (\<lambda>g r. ?Q (fst g) r) (None, ?c)
        (execute_co wc_get_id wc_set_id (ask_host (h_uuid4 (host_of S))) (worker_co_handlers S cfg))"
    proof -
      have "co_spec (ctx_fits anywhere) (ctx_step counted) (\<lambda>g r. ?Q (fst g) r) g (dispatch_co (worker_co_handlers S cfg) 0)"
        if "fst g = None \<and> wc_raw_event (snd g) = JObj d" for g
        using spec_IdempotencyHandler [OF assms, of "snd g" cfg] that by (cases g) simp
      then have "co_spec (ctx_fits anywhere) (ctx_step counted) (\<lambda>g r. ?Q (fst g) r) (None, ?c)
          (co_andthen (sync (ensure_trace wc_get_id wc_set_id (ask_host (h_uuid4 (host_of S)))))
            (dispatch_co (worker_co_handlers S cfg) 0))"
        by (intro co_spec_andthen [OF ghost_ctx(1) trace]) auto
      then show ?thesis by (simp add: execute_co_def worker_co_handlers_def)
    qed
  qed
  have body: "co_spec anywhere counted ?Q None (co_bind (sync (ask_host (h_monotonic (host_of S)))) (\<lambda>t0.
      co_hide (new_worker_context (JObj d) t part off t0)
        (execute_co wc_get_id wc_set_id (ask_host (h_uuid4 (host_of S))) (worker_co_handlers S cfg))))" for t
    by (rule co_spec_bind [OF ghost_counted clock]) (use inner in auto)
  have "co_spec anywhere counted ?Q None (timed_co PROCESSING_LATENCY
      (co_bind (sync (of_result (dict_get (JObj d) (lit ''_trace_id'')))) (\<lambda>t.
       co_bind (sync (ask_host (h_monotonic (host_of S)))) (\<lambda>t0.
         co_hide (new_worker_context (JObj d) (get_default t (JStr [])) part off t0)
           (execute_co wc_get_id wc_set_id (ask_host (h_uuid4 (host_of S))) (worker_co_handlers S cfg))))))"
    unfolding timed_co_def dict_get.simps co_bind_result
    by (rule co_spec_finally [OF ghost_counted body]) (auto intro: co_spec_mono [OF tick'])
  then have fin: "co_spec anywhere counted ?Q None (co_finally (timed_co PROCESSING_LATENCY
      (co_bind (sync (of_result (dict_get (JObj d) (lit ''_trace_id'')))) (\<lambda>t.
       co_bind (sync (ask_host (h_monotonic (host_of S)))) (\<lambda>t0.
         co_hide (new_worker_context (JObj d) (get_default t (JStr [])) part off t0)
           (execute_co wc_get_id wc_set_id (ask_host (h_uuid4 (host_of S))) (worker_co_handlers S cfg))))))
      (sync (add_gauge ACTIVE_TASKS (- 1))))"
    by (rule co_spec_finally [OF ghost_counted]) (auto intro: co_spec_mono [OF gauge])
  show ?thesis
    unfolding process_co_def by (rule co_spec_andthen [OF ghost_counted gauge]) (use fin in auto)
qed

end
