(* ===== verification/Consumer.thy ===== *)
theory Consumer
  imports Processor "HOL-Library.Sublist"
begin

text \<open>
  \<open>apps/worker/consumer.py\<close>: the consume loop with its bounded number of concurrent tasks and manual
  commits, the throttled lag sampling, and start and stop of the loop.

  \<open>consume_step\<close> is the step relation of the loop and its tasks on one event loop. A step is what
  happens between two waits, with one exception: a task's call of \<open>processor.process\<close> is one step
  (\<open>Work\<close>), so that the calls that other tasks make to Redis, PostgreSQL and Kafka come before or
  after it as a whole. Which task goes on is not determined. \<open>Undecodable\<close> is a record on which
  \<open>value_deserializer\<close> raises, \<open>Cancel\<close> the cancellation of the loop; both end it. The state keeps,
  beside the variables of the code, the commits the broker has acknowledged, in order, and the
  exception the loop has ended with.
\<close>

section \<open>The consumer\<close>

type_synonym topic_partition = "pystr \<times> int"

record consumer_record =
  cr_topic :: pystr
  cr_partition :: int
  cr_offset :: int
  cr_value :: "exn + json" \<comment> \<open>what \<open>value_deserializer\<close> made of the bytes\<close>

text \<open>What the code calls of an aiokafka consumer; the messages themselves come as labels.\<close>

record consumer_config =
  cc_topic :: pystr
  cc_bootstrap_servers :: pystr
  cc_group_id :: pystr
  cc_auto_offset_reset :: pystr
  cc_enable_auto_commit :: bool
  cc_max_poll_records :: int
  cc_session_timeout_ms :: int
  cc_heartbeat_interval_ms :: int
  cc_subscription :: "pystr list"

record 'k consumer_api =
  c_start :: "consumer_config \<Rightarrow> ('k, unit) io"
  c_stop :: "('k, unit) io"
  c_assignment :: "'k \<Rightarrow> exn + topic_partition list"
  c_end_offsets :: "topic_partition list \<Rightarrow> ('k, (topic_partition \<times> int) list) io"
  c_committed :: "topic_partition \<Rightarrow> ('k, int option) io"
  c_commit :: "topic_partition \<Rightarrow> int \<Rightarrow> ('k, unit) io"

definition dlq_producer_config :: "worker_settings \<Rightarrow> producer_config" where
  "dlq_producer_config cfg = \<lparr>bootstrap_servers = W_KAFKA_BOOTSTRAP_SERVERS cfg, acks = lit ''all'',
     linger_ms = 0, compression_type = None, enable_idempotence = True\<rparr>"

text \<open>The consumer that is constructed and subscribed; the deserializers are in \<open>Json_Text\<close> and \<open>Wire\<close>.\<close>

definition raw_consumer_config :: "worker_settings \<Rightarrow> consumer_config" where
  "raw_consumer_config cfg = \<lparr>cc_topic = W_KAFKA_TOPIC_RAW cfg,
     cc_bootstrap_servers = W_KAFKA_BOOTSTRAP_SERVERS cfg, cc_group_id = W_KAFKA_CONSUMER_GROUP cfg,
     cc_auto_offset_reset = W_KAFKA_AUTO_OFFSET_RESET cfg, cc_enable_auto_commit = False,
     cc_max_poll_records = W_KAFKA_MAX_POLL_RECORDS cfg,
     cc_session_timeout_ms = W_KAFKA_SESSION_TIMEOUT_MS cfg,
     cc_heartbeat_interval_ms = W_KAFKA_HEARTBEAT_INTERVAL_MS cfg,
     cc_subscription = [W_KAFKA_TOPIC_RAW cfg]\<rparr>"

text \<open>\<open>run_consumer_loop\<close> around the loop itself, which is the argument.\<close>

definition run_consumer_loop :: "('r, 'p, 'k, 'h) services \<Rightarrow> 'k consumer_api \<Rightarrow> worker_settings \<Rightarrow>
    (('r, 'p, 'k, 'h) world, unit) io \<Rightarrow> (('r, 'p, 'k, 'h) world, unit) io" where
  "run_consumer_loop S C cfg consume =
     andthen (on_kafka (k_start (kafka_of S) (dlq_producer_config cfg)))
       (try_finally
         (try_except (andthen (on_kafka (c_start C (raw_consumer_config cfg))) consume)
           (catching ''CancelledError'' (\<lambda>exc. ret ())))
         (andthen (on_kafka (c_stop C)) (on_kafka (k_stop (kafka_of S)))))"

section \<open>Lag sampling\<close>

definition lag_interval :: rat where
  "lag_interval = 5"

text \<open>The state is the module variable \<open>_last_lag_sample\<close> and the world.\<close>

definition lag_of :: "int \<Rightarrow> int option \<Rightarrow> int" where
  "lag_of end_offset committed =
     (let committed_offset = (case committed of Some c \<Rightarrow> c | None \<Rightarrow> 0)
      in max 0 (end_offset - committed_offset - 1))"

fun sample_each :: "'k consumer_api \<Rightarrow> (topic_partition \<times> int) list \<Rightarrow>
    (('r, 'p, 'k, 'h) world, unit) io" where
  "sample_each C [] = ret ()"
| "sample_each C ((tp, end_offset) # rest) =
     bind (on_kafka (c_committed C tp)) (\<lambda>committed.
       andthen (set_gauge (CONSUMER_LAG (int_str (snd tp))) (lag_of end_offset committed))
         (sample_each C rest))"

definition maybe_sample_lag :: "('r, 'p, 'k, 'h) services \<Rightarrow> 'k consumer_api \<Rightarrow>
    (rat \<times> ('r, 'p, 'k, 'h) world, unit) io" where
  "maybe_sample_lag S C =
     bind (eff (ask_host (h_monotonic (host_of S)))) (\<lambda>now.
     bind (gets fst) (\<lambda>last_lag_sample.
       if now - last_lag_sample < lag_interval then ret ()
       else andthen (modify (\<lambda>(l, w). (now, w)))
         (eff (try_except
           (bind (gets (\<lambda>w. c_assignment C (kafka w))) (\<lambda>r.
            bind (of_result r) (\<lambda>assigned.
              if assigned = [] then ret ()
              else bind (on_kafka (c_end_offsets C assigned)) (\<lambda>end_offsets.
                sample_each C end_offsets))))
           (catching ''Exception'' (\<lambda>exc. ret ()))))))"

section \<open>The loop and its tasks\<close>

datatype stage = Processing | Committing

record ('r, 'p, 'k, 'h) consumer_state =
  cs_semaphore :: int
  cs_holding :: "consumer_record option" \<comment> \<open>received, waiting for the semaphore\<close>
  cs_tasks :: "(consumer_record \<times> stage) list"
  cs_last_sample :: rat
  cs_world :: "('r, 'p, 'k, 'h) world"
  cs_commits :: "(topic_partition \<times> int) list"
  cs_ended :: "exn option" \<comment> \<open>what \<open>_consume\<close> ended with\<close>

datatype clabel =
    Receive consumer_record | Spawn | Work consumer_record | Commit consumer_record
  | Work_failed consumer_record | Commit_failed consumer_record
  | Undecodable consumer_record | Cancel

definition tp_of :: "consumer_record \<Rightarrow> topic_partition" where
  "tp_of m = (cr_topic m, cr_partition m)"

definition run_process :: "('r, 'p, 'k, 'h) services \<Rightarrow> worker_settings \<Rightarrow> consumer_record \<Rightarrow>
    (('r, 'p, 'k, 'h) world, unit) io" where
  "run_process S cfg m = bind (of_result (cr_value m))
     (\<lambda>event. process S cfg event (Some (cr_partition m)) (Some (cr_offset m)))"

text \<open>\<open>_semaphore.release()\<close> and the removal of the finished task.\<close>

definition end_task :: "(consumer_record \<times> stage) list \<Rightarrow> ('r, 'p, 'k, 'h) consumer_state \<Rightarrow>
    ('r, 'p, 'k, 'h) consumer_state" where
  "end_task rest s = s\<lparr>cs_semaphore := cs_semaphore s + 1, cs_tasks := rest\<rparr>"

inductive consume_step :: "('r, 'p, 'k, 'h) services \<Rightarrow> 'k consumer_api \<Rightarrow> worker_settings \<Rightarrow>
    ('r, 'p, 'k, 'h) consumer_state \<Rightarrow> clabel \<Rightarrow> ('r, 'p, 'k, 'h) consumer_state \<Rightarrow> bool"
  for S :: "('r, 'p, 'k, 'h) services" and C :: "'k consumer_api" and cfg :: worker_settings
where
  receive: "cs_ended s = None \<Longrightarrow> cs_holding s = None \<Longrightarrow> cr_value m = Inr event \<Longrightarrow>
    maybe_sample_lag S C (cs_last_sample s, bump EVENTS_CONSUMED (cs_world s)) = (Inr u, (l, w)) \<Longrightarrow>
    consume_step S C cfg s (Receive m) (s\<lparr>cs_holding := Some m, cs_last_sample := l, cs_world := w\<rparr>)"
| undecodable: "cs_ended s = None \<Longrightarrow> cs_holding s = None \<Longrightarrow> cr_value m = Inl e \<Longrightarrow>
    consume_step S C cfg s (Undecodable m) (s\<lparr>cs_ended := Some e\<rparr>)"
| cancel: "cs_ended s = None \<Longrightarrow>
    consume_step S C cfg s Cancel (s\<lparr>cs_ended := Some CancelledError\<rparr>)"
| spawn: "cs_ended s = None \<Longrightarrow> cs_holding s = Some m \<Longrightarrow> 0 < cs_semaphore s \<Longrightarrow>
    consume_step S C cfg s Spawn
      (s\<lparr>cs_holding := None, cs_semaphore := cs_semaphore s - 1,
         cs_tasks := cs_tasks s @ [(m, Processing)]\<rparr>)"
| work: "cs_tasks s = pre @ (m, Processing) # post \<Longrightarrow>
    run_process S cfg m (cs_world s) = (Inr u, w) \<Longrightarrow>
    consume_step S C cfg s (Work m) (s\<lparr>cs_tasks := pre @ (m, Committing) # post, cs_world := w\<rparr>)"
| work_failed: "cs_tasks s = pre @ (m, Processing) # post \<Longrightarrow>
    run_process S cfg m (cs_world s) = (Inl e, w) \<Longrightarrow>
    consume_step S C cfg s (Work_failed m) (end_task (pre @ post) (s\<lparr>cs_world := w\<rparr>))"
| commit: "cs_tasks s = pre @ (m, Committing) # post \<Longrightarrow>
    c_commit C (tp_of m) (cr_offset m + 1) (kafka (cs_world s)) = (Inr u, k) \<Longrightarrow>
    consume_step S C cfg s (Commit m)
      (end_task (pre @ post) (s\<lparr>cs_world := (cs_world s)\<lparr>kafka := k\<rparr>,
         cs_commits := cs_commits s @ [(tp_of m, cr_offset m + 1)]\<rparr>))"
| commit_failed: "cs_tasks s = pre @ (m, Committing) # post \<Longrightarrow>
    c_commit C (tp_of m) (cr_offset m + 1) (kafka (cs_world s)) = (Inl e, k) \<Longrightarrow>
    consume_step S C cfg s (Commit_failed m)
      (end_task (pre @ post) (s\<lparr>cs_world := (cs_world s)\<lparr>kafka := k\<rparr>\<rparr>))"

inductive consume_run :: "('r, 'p, 'k, 'h) services \<Rightarrow> 'k consumer_api \<Rightarrow> worker_settings \<Rightarrow>
    ('r, 'p, 'k, 'h) consumer_state \<Rightarrow> clabel list \<Rightarrow> ('r, 'p, 'k, 'h) consumer_state \<Rightarrow> bool"
  for S :: "('r, 'p, 'k, 'h) services" and C :: "'k consumer_api" and cfg :: worker_settings
where
  stay: "consume_run S C cfg s [] s"
| go: "consume_run S C cfg s ls s1 \<Longrightarrow> consume_step S C cfg s1 l s2 \<Longrightarrow>
    consume_run S C cfg s (ls @ [l]) s2"

definition consumer_init :: "worker_settings \<Rightarrow> ('r, 'p, 'k, 'h) world \<Rightarrow> ('r, 'p, 'k, 'h) consumer_state" where
  "consumer_init cfg w = \<lparr>cs_semaphore = W_MAX_CONCURRENT_TASKS cfg, cs_holding = None, cs_tasks = [],
     cs_last_sample = 0, cs_world = w, cs_commits = [], cs_ended = None\<rparr>"

section \<open>Invariants of the loop\<close>

text \<open>The records that a run has received, processed, and failed on.\<close>

fun received :: "clabel list \<Rightarrow> consumer_record list" where
  "received [] = []"
| "received (Receive m # ls) = m # received ls"
| "received (_ # ls) = received ls"

fun worked :: "clabel list \<Rightarrow> consumer_record list" where
  "worked [] = []"
| "worked (Work m # ls) = m # worked ls"
| "worked (_ # ls) = worked ls"

fun failed :: "clabel list \<Rightarrow> consumer_record list" where
  "failed [] = []"
| "failed (Work_failed m # ls) = m # failed ls"
| "failed (_ # ls) = failed ls"

lemma label_append:
  "received (ls @ ls') = received ls @ received ls'" "worked (ls @ ls') = worked ls @ worked ls'"
  "failed (ls @ ls') = failed ls @ failed ls'"
  by (induction ls rule: received.induct) simp_all

text \<open>Where a received record is.\<close>

definition held :: "('r, 'p, 'k, 'h) consumer_state \<Rightarrow> consumer_record list" where
  "held s = (case cs_holding s of None \<Rightarrow> [] | Some m \<Rightarrow> [m])"

definition in_progress :: "('r, 'p, 'k, 'h) consumer_state \<Rightarrow> consumer_record list" where
  "in_progress s = map fst (filter (\<lambda>t. snd t = Processing) (cs_tasks s)) @ held s"

definition consumer_inv :: "worker_settings \<Rightarrow> clabel list \<Rightarrow> ('r, 'p, 'k, 'h) consumer_state \<Rightarrow> bool" where
  "consumer_inv cfg ls s \<longleftrightarrow>
     0 \<le> cs_semaphore s \<and> cs_semaphore s + int (length (cs_tasks s)) = W_MAX_CONCURRENT_TASKS cfg \<and>
     (\<forall>m. (m, Committing) \<in> set (cs_tasks s) \<longrightarrow> m \<in> set (worked ls)) \<and>
     (\<forall>tp n. (tp, n) \<in> set (cs_commits s) \<longrightarrow> (\<exists>m \<in> set (worked ls). tp = tp_of m \<and> n = cr_offset m + 1)) \<and>
     mset (received ls) = mset (worked ls) + mset (failed ls) + mset (in_progress s)"

lemma consumer_inv_step:
  assumes "consume_step S C cfg s l s'" "consumer_inv cfg ls s"
  shows "consumer_inv cfg (ls @ [l]) s'"
  using assms
  by (cases rule: consume_step.cases)
     (auto simp: consumer_inv_def label_append end_task_def in_progress_def held_def)

lemma reachable_inv:
  assumes "0 \<le> W_MAX_CONCURRENT_TASKS cfg" "consume_run S C cfg (consumer_init cfg w0) ls s"
  shows "consumer_inv cfg ls s"
  using assms(2)
proof (induction "consumer_init cfg w0" ls s rule: consume_run.induct)
  case stay
  then show ?case using assms(1) by (simp add: consumer_inv_def consumer_init_def in_progress_def held_def)
next
  case (go ls s1 l s2)
  then show ?case by (blast intro: consumer_inv_step)
qed

text \<open>In every state that the consume loop can reach, however its tasks interleave and whatever
  fails: the semaphore and the tasks account for each other, so that at most
  \<open>MAX_CONCURRENT_TASKS\<close> tasks are in flight; an offset is committed only for a record whose
  processing has returned; and every record received has been processed, has failed, or is held by
  the loop or one of its tasks, once each.\<close>

lemma consumer_invariant:
  assumes "0 \<le> W_MAX_CONCURRENT_TASKS cfg" "consume_run S C cfg (consumer_init cfg w0) ls s"
  shows "cs_semaphore s + int (length (cs_tasks s)) = W_MAX_CONCURRENT_TASKS cfg \<and>
     int (length (cs_tasks s)) \<le> W_MAX_CONCURRENT_TASKS cfg \<and>
     (\<forall>(tp, n) \<in> set (cs_commits s). \<exists>m \<in> set (worked ls). tp = tp_of m \<and> n = cr_offset m + 1) \<and>
     mset (received ls) = mset (worked ls) + mset (failed ls) + mset (in_progress s)"
  using reachable_inv [OF assms] by (auto simp: consumer_inv_def)

section \<open>Order\<close>

text \<open>The records whose processing has ended, in the order in which it ended.\<close>

fun finished :: "clabel list \<Rightarrow> consumer_record list" where
  "finished [] = []"
| "finished (Work m # ls) = m # finished ls"
| "finished (Work_failed m # ls) = m # finished ls"
| "finished (_ # ls) = finished ls"

lemma finished_append: "finished (ls @ ls') = finished ls @ finished ls'"
  by (induction ls rule: finished.induct) simp_all

definition commit_of :: "consumer_record \<Rightarrow> topic_partition \<times> int" where
  "commit_of m = (tp_of m, cr_offset m + 1)"

text \<open>With one permit there is one task at most, and what is to be committed is the last that was
  processed.\<close>

definition sequential_inv :: "clabel list \<Rightarrow> ('r, 'p, 'k, 'h) consumer_state \<Rightarrow> bool" where
  "sequential_inv ls s \<longleftrightarrow>
     received ls = finished ls @ map fst (filter (\<lambda>t. snd t = Processing) (cs_tasks s)) @ held s \<and>
     subseq (cs_commits s @ map (commit_of \<circ> fst) (filter (\<lambda>t. snd t = Committing) (cs_tasks s)))
       (map commit_of (worked ls))"

lemma one_task:
  assumes "0 \<le> sem" "sem + int (length ts) = 1" "ts = pre @ t # post"
  shows "pre = [] \<and> post = []"
proof -
  have "length ts = length pre + length post + 1" using assms(3) by simp
  with assms(1,2) have "length pre + length post = 0" by linarith
  then show ?thesis by simp
qed

lemma subseq_drop_end: "subseq (xs @ ys) zs \<Longrightarrow> subseq xs zs"
  by (meson prefixI prefix_imp_subseq subseq_order.trans)

lemma sequential_step:
  assumes "consume_step S C cfg s l s'" "consumer_inv cfg ls s" "W_MAX_CONCURRENT_TASKS cfg = 1"
    and inv: "sequential_inv ls s"
  shows "sequential_inv (ls @ [l]) s'"
proof -
  have sem: "0 \<le> cs_semaphore s" "cs_semaphore s + int (length (cs_tasks s)) = 1"
    using assms(2,3) by (simp_all add: consumer_inv_def)
  note defs = sequential_inv_def label_append finished_append held_def end_task_def commit_of_def
  from assms(1) show ?thesis
  proof (cases rule: consume_step.cases)
    case (receive m event u la w)
    show ?thesis unfolding receive(1,2) using inv receive(4) by (simp add: defs)
  next
    case (undecodable m e)
    show ?thesis unfolding undecodable(1,2) using inv by (simp add: defs)
  next
    case cancel
    show ?thesis unfolding cancel(1,2) using inv by (simp add: defs)
  next
    case (spawn m)
    from sem spawn(5) have "cs_tasks s = []" by (cases "cs_tasks s") auto
    then show ?thesis unfolding spawn(1,2) using inv spawn(4) by (simp add: defs)
  next
    case (work pre m post u w)
    from one_task [OF sem work(3)] work(3) have "cs_tasks s = [(m, Processing)]" "pre = []" "post = []" by simp_all
    then show ?thesis unfolding work(1,2) using inv by (simp add: defs)
  next
    case (work_failed pre m post e w)
    from one_task [OF sem work_failed(3)] work_failed(3)
    have "cs_tasks s = [(m, Processing)]" "pre = []" "post = []" by simp_all
    then show ?thesis unfolding work_failed(1,2) using inv by (simp add: defs)
  next
    case (commit pre m post u k)
    from one_task [OF sem commit(3)] commit(3)
    have "cs_tasks s = [(m, Committing)]" "pre = []" "post = []" by simp_all
    then show ?thesis unfolding commit(1,2) using inv by (simp add: defs)
  next
    case (commit_failed pre m post e k)
    from one_task [OF sem commit_failed(3)] commit_failed(3)
    have "cs_tasks s = [(m, Committing)]" "pre = []" "post = []" by simp_all
    then show ?thesis unfolding commit_failed(1,2) using inv
      by (auto simp: defs intro: subseq_drop_end)
  qed
qed

text \<open>C28: With \<open>MAX_CONCURRENT_TASKS = 1\<close> the order is kept: the records whose processing has ended
  are a prefix of the records received, and the commits are those of processed records, in the order
  in which they were processed, so that no commit passes a record that is still to be processed.\<close>

theorem sequential_commits_in_order:
  assumes "W_MAX_CONCURRENT_TASKS cfg = 1" "consume_run S C cfg (consumer_init cfg w0) ls s"
  shows "prefix (finished ls) (received ls) \<and> subseq (cs_commits s) (map commit_of (worked ls))"
proof -
  have "consumer_inv cfg ls s \<and> sequential_inv ls s"
    using assms(2)
  proof (induction "consumer_init cfg w0" ls s rule: consume_run.induct)
    case stay
    then show ?case using assms(1)
      by (simp add: consumer_inv_def sequential_inv_def consumer_init_def in_progress_def held_def)
  next
    case (go ls s1 l s2)
    then show ?case using assms(1) by (blast intro: consumer_inv_step sequential_step)
  qed
  then show ?thesis by (auto simp: sequential_inv_def intro: subseq_drop_end)
qed

section \<open>Progress\<close>

text \<open>What is left to do in a state, in steps.\<close>

fun task_steps :: "consumer_record \<times> stage \<Rightarrow> nat" where
  "task_steps (m, Processing) = 2"
| "task_steps (m, Committing) = 1"

definition work_left :: "('r, 'p, 'k, 'h) consumer_state \<Rightarrow> nat" where
  "work_left s = 3 * length (held s) + sum_list (map task_steps (cs_tasks s))"

text \<open>A step that does some of it. A task can always take one, as its call returns or raises.\<close>

definition goes_on :: "('r, 'p, 'k, 'h) services \<Rightarrow> 'k consumer_api \<Rightarrow> worker_settings \<Rightarrow>
    ('r, 'p, 'k, 'h) consumer_state \<Rightarrow> bool" where
  "goes_on S C cfg s \<longleftrightarrow> (\<exists>l s'. consume_step S C cfg s l s' \<and> work_left s' < work_left s \<and>
     received [l] = [] \<and> cs_ended s' = cs_ended s)"

lemma goes_onI:
  "consume_step S C cfg s l s' \<Longrightarrow> work_left s' < work_left s \<Longrightarrow> received [l] = [] \<Longrightarrow>
   cs_ended s' = cs_ended s \<Longrightarrow> goes_on S C cfg s"
  unfolding goes_on_def by blast

lemma processing_goes_on:
  assumes "cs_tasks s = pre @ (m, Processing) # post" shows "goes_on S C cfg s"
proof -
  obtain r w where run: "run_process S cfg m (cs_world s) = (r, w)" by fastforce
  show ?thesis
  proof (cases r)
    case (Inl e)
    from consume_step.work_failed [OF assms run [unfolded Inl]] show ?thesis
      by (rule goes_onI) (simp_all add: assms work_left_def held_def end_task_def)
  next
    case (Inr u)
    from consume_step.work [OF assms run [unfolded Inr]] show ?thesis
      by (rule goes_onI) (simp_all add: assms work_left_def held_def)
  qed
qed

lemma committing_goes_on:
  assumes "cs_tasks s = pre @ (m, Committing) # post" shows "goes_on S C cfg s"
proof -
  obtain r k where run: "c_commit C (tp_of m) (cr_offset m + 1) (kafka (cs_world s)) = (r, k)" by fastforce
  show ?thesis
  proof (cases r)
    case (Inl e)
    from consume_step.commit_failed [OF assms run [unfolded Inl]] show ?thesis
      by (rule goes_onI) (simp_all add: assms work_left_def held_def end_task_def)
  next
    case (Inr u)
    from consume_step.commit [OF assms run [unfolded Inr]] show ?thesis
      by (rule goes_onI) (simp_all add: assms work_left_def held_def end_task_def)
  qed
qed

lemma loop_goes_on:
  assumes "cs_ended s = None" "cs_holding s = Some m" "0 < cs_semaphore s" shows "goes_on S C cfg s"
  using consume_step.spawn [OF assms]
  by (rule goes_onI) (simp_all add: assms work_left_def held_def)

text \<open>With something left to do, the loop or a task can go on.\<close>

lemma state_goes_on:
  assumes "cs_ended s = None" "consumer_inv cfg ls s" "0 < W_MAX_CONCURRENT_TASKS cfg"
    and "\<not> (cs_tasks s = [] \<and> cs_holding s = None)"
  shows "goes_on S C cfg s"
proof (cases "cs_tasks s")
  case Nil
  with assms obtain m where "cs_holding s = Some m" "0 < cs_semaphore s"
    by (auto simp: consumer_inv_def)
  with assms(1) show ?thesis by (rule loop_goes_on)
next
  case (Cons t ts)
  obtain m st where "t = (m, st)" by (cases t)
  with Cons have "cs_tasks s = [] @ (m, st) # ts" by simp
  then show ?thesis using processing_goes_on committing_goes_on by (cases st) blast+
qed

lemma drains:
  assumes "0 < W_MAX_CONCURRENT_TASKS cfg" "consume_run S C cfg (consumer_init cfg w0) ls s"
    and "consumer_inv cfg ls s" "cs_ended s = None"
  shows "\<exists>ls' s'. consume_run S C cfg (consumer_init cfg w0) (ls @ ls') s' \<and> received ls' = [] \<and>
    cs_tasks s' = [] \<and> cs_holding s' = None \<and> consumer_inv cfg (ls @ ls') s'"
  using assms(2-4)
proof (induction "work_left s" arbitrary: ls s rule: less_induct)
  case less
  show ?case
  proof (cases "cs_tasks s = [] \<and> cs_holding s = None")
    case True
    with less.prems show ?thesis by (intro exI [of _ "[]"] exI [of _ s]) simp
  next
    case False
    with state_goes_on [OF less.prems(3,2) assms(1)] have "goes_on S C cfg s" by blast
    then obtain l s1 where step: "consume_step S C cfg s l s1" "work_left s1 < work_left s" "received [l] = []"
      "cs_ended s1 = None" using less.prems(3) unfolding goes_on_def by metis
    from less.hyps [OF step(2) consume_run.go [OF less.prems(1) step(1)] consumer_inv_step [OF step(1) less.prems(2)] step(4)]
    obtain ls' s' where "consume_run S C cfg (consumer_init cfg w0) ((ls @ [l]) @ ls') s'" "received ls' = []"
      "cs_tasks s' = []" "cs_holding s' = None" "consumer_inv cfg ((ls @ [l]) @ ls') s'" by blast
    then show ?thesis using step(3) label_append(1) [of "[l]" ls']
      by (intro exI [of _ "l # ls'"] exI [of _ s']) simp
  qed
qed

text \<open>C26: The loop never gets stuck and leaves nothing behind: with at least one task allowed, every run
  in which the loop has not ended can be continued, without receiving more, to a state in which no task is left, all
  permits are back, and every record received has been processed or has failed; whatever the calls
  to Redis, PostgreSQL and Kafka answer or raise.\<close>

theorem consumer_drains:
  assumes "0 < W_MAX_CONCURRENT_TASKS cfg" "consume_run S C cfg (consumer_init cfg w0) ls s"
    and "cs_ended s = None"
  shows "\<exists>ls' s'. consume_run S C cfg (consumer_init cfg w0) (ls @ ls') s' \<and> received ls' = [] \<and>
    cs_tasks s' = [] \<and> cs_semaphore s' = W_MAX_CONCURRENT_TASKS cfg \<and>
    mset (received ls) = mset (worked (ls @ ls')) + mset (failed (ls @ ls'))"
proof -
  have "consumer_inv cfg ls s" using assms(1,2) by (simp add: reachable_inv)
  from drains [OF assms(1,2) this assms(3)] obtain ls' s' where
    "consume_run S C cfg (consumer_init cfg w0) (ls @ ls') s'" "received ls' = []" "cs_tasks s' = []"
    "cs_holding s' = None" "consumer_inv cfg (ls @ ls') s'" by blast
  then show ?thesis
    by (intro exI [of _ ls'] exI [of _ s']) (auto simp: consumer_inv_def label_append in_progress_def held_def)
qed

section \<open>A record that cannot be decoded\<close>

text \<open>What has ended stays ended, and a loop that has ended receives nothing.\<close>

lemma ended_step:
  assumes "consume_step S C cfg s l s'" "cs_ended s = Some e"
  shows "cs_ended s' = Some e \<and> received [l] = []"
  using assms by (cases rule: consume_step.cases) (auto simp: end_task_def)

lemma run_split:
  assumes "consume_run S C cfg s0 ls s" "ls = ls1 @ l # ls2"
  shows "\<exists>s1 s2. consume_run S C cfg s0 ls1 s1 \<and> consume_step S C cfg s1 l s2 \<and>
    (\<forall>e. cs_ended s2 = Some e \<longrightarrow> cs_ended s = Some e \<and> received ls2 = [])"
  using assms
proof (induction arbitrary: ls2 rule: consume_run.induct)
  case (stay s)
  then show ?case by simp
next
  case (go s0 ls t k s)
  show ?case
  proof (cases ls2 rule: rev_cases)
    case Nil
    with go.prems have "ls = ls1" "k = l" by simp_all
    with go.hyps show ?thesis using Nil by auto
  next
    case (snoc ls3 k')
    with go.prems have "ls = ls1 @ l # ls3" "k' = k" by simp_all
    from go.IH [OF this(1)] obtain s1 s2 where "consume_run S C cfg s0 ls1 s1" "consume_step S C cfg s1 l s2"
      "\<forall>e. cs_ended s2 = Some e \<longrightarrow> cs_ended t = Some e \<and> received ls3 = []" by blast
    then show ?thesis using ended_step [OF go.hyps(2)] snoc \<open>k' = k\<close>
      by (metis append_Nil label_append(1))
  qed
qed

text \<open>C27: A record whose value is not JSON stops the worker for good. The loop ends with the exception of
  the deserializer and receives nothing after it; and if the records of its partition came in the
  order of their offsets, no commit of the run passes it, so that a worker that starts again from the
  committed offset meets it again, and neither the dead letters nor the retries ever see it.\<close>

theorem undecodable_record_blocks:
  assumes "0 \<le> W_MAX_CONCURRENT_TASKS cfg"
    and "consume_run S C cfg (consumer_init cfg w0) (ls1 @ Undecodable m # ls2) s"
    and "\<forall>m' \<in> set (received ls1). tp_of m' = tp_of m \<longrightarrow> cr_offset m' < cr_offset m"
  shows "\<exists>e. cr_value m = Inl e \<and> cs_ended s = Some e \<and> received ls2 = [] \<and>
    (\<forall>n. (tp_of m, n) \<in> set (cs_commits s) \<longrightarrow> n \<le> cr_offset m)"
proof -
  from run_split [OF assms(2) refl] obtain s1 s2 where
    bad: "consume_step S C cfg s1 (Undecodable m) s2"
    and rest: "\<And>e. cs_ended s2 = Some e \<Longrightarrow> cs_ended s = Some e \<and> received ls2 = []" by blast
  from bad obtain e where e: "cr_value m = Inl e" "cs_ended s2 = Some e"
    by (cases rule: consume_step.cases) auto
  have inv: "consumer_inv cfg (ls1 @ Undecodable m # ls2) s" by (rule reachable_inv [OF assms(1,2)])
  have received: "received (ls1 @ Undecodable m # ls2) = received ls1"
    using rest [OF e(2)] by (simp add: label_append)
  have "n \<le> cr_offset m" if "(tp_of m, n) \<in> set (cs_commits s)" for n
  proof -
    from inv that obtain m' where m': "m' \<in> set (worked (ls1 @ Undecodable m # ls2))" "tp_of m' = tp_of m"
      "n = cr_offset m' + 1" unfolding consumer_inv_def by metis
    from inv m'(1) have "m' \<in># mset (received ls1)"
      unfolding received [symmetric] by (simp add: consumer_inv_def)
    with assms(3) m'(2,3) show ?thesis by fastforce
  qed
  with e rest show ?thesis by blast
qed

section \<open>Runs on a reference consumer\<close>

text \<open>A consumer without an assignment whose commits succeed.\<close>

definition ref_consumer :: "ref_kafka consumer_api" where
  "ref_consumer = \<lparr>c_start = (\<lambda>cc. ret ()), c_stop = ret (), c_assignment = (\<lambda>x. Inr []),
     c_end_offsets = (\<lambda>tps. ret []), c_committed = (\<lambda>tp. ret None), c_commit = (\<lambda>tp n. ret ())\<rparr>"

definition sample_record :: "int \<Rightarrow> consumer_record" where
  "sample_record n = \<lparr>cr_topic = lit ''iot.events.raw'', cr_partition = 0, cr_offset = n,
     cr_value = Inr (JObj sample_dict)\<rparr>"

lemma sample_value [simp]: "cr_value (sample_record n) = Inr (JObj sample_dict)"
  by (simp add: sample_record_def)

lemma sample_record_processed:
  "\<exists>w'. run_process good_worker worker_defaults (sample_record n) w = (Inr (), w')"
proof -
  obtain key where "dlq_key (dlq_id_of sample_dict) = Inr key" using sample_key by blast
  from process_ends [OF good_well_behaved this, of worker_defaults "Some 0" "Some n" w] show ?thesis
    by (auto simp: run_process_def sample_record_def of_result_def bind_def)
qed

lemma ref_sampling: "\<exists>l' w'. maybe_sample_lag good_worker ref_consumer (l, w) = (Inr (), (l', w'))"
  by (simp add: maybe_sample_lag_def ref_consumer_def io_defs split: prod.split)

lemma ref_receive:
  assumes "cs_ended s = None" "cs_holding s = None" "cr_value m = Inr v"
  shows "\<exists>l w. consume_step good_worker ref_consumer cfg s (Receive m)
    (s\<lparr>cs_holding := Some m, cs_last_sample := l, cs_world := w\<rparr>)"
proof -
  obtain l w where "maybe_sample_lag good_worker ref_consumer (cs_last_sample s, bump EVENTS_CONSUMED (cs_world s))
    = (Inr (), (l, w))" using ref_sampling by blast
  from consume_step.receive [OF assms this] show ?thesis by blast
qed

lemma ref_work:
  assumes "cs_tasks s = pre @ (sample_record n, Processing) # post"
  shows "\<exists>w. consume_step good_worker ref_consumer worker_defaults s (Work (sample_record n))
    (s\<lparr>cs_tasks := pre @ (sample_record n, Committing) # post, cs_world := w\<rparr>)"
proof -
  obtain w where "run_process good_worker worker_defaults (sample_record n) (cs_world s) = (Inr (), w)"
    using sample_record_processed by blast
  from consume_step.work [OF assms this] show ?thesis by blast
qed

lemma ref_commit:
  assumes "cs_tasks s = pre @ (m, Committing) # post"
  shows "\<exists>k. consume_step good_worker ref_consumer cfg s (Commit m)
      (end_task (pre @ post) (s\<lparr>cs_world := (cs_world s)\<lparr>kafka := k\<rparr>,
         cs_commits := cs_commits s @ [(tp_of m, cr_offset m + 1)]\<rparr>))"
proof -
  have "c_commit ref_consumer (tp_of m) (cr_offset m + 1) (kafka (cs_world s)) = (Inr (), kafka (cs_world s))"
    by (simp add: ref_consumer_def ret_def)
  from consume_step.commit [OF assms this] show ?thesis by blast
qed

text \<open>Two records are received, and the second is processed and committed first.\<close>

lemma overtaking_run:
  assumes "2 \<le> W_MAX_CONCURRENT_TASKS worker_defaults"
  shows "\<exists>s. consume_run good_worker ref_consumer worker_defaults (consumer_init worker_defaults w0)
      (((((([] @ [Receive (sample_record 0)]) @ [Spawn]) @ [Receive (sample_record 1)]) @ [Spawn])
        @ [Work (sample_record 1)]) @ [Commit (sample_record 1)]) s \<and>
    cs_tasks s = [(sample_record 0, Processing)] \<and> cs_holding s = None \<and>
    cs_commits s = [((lit ''iot.events.raw'', 0), 2)]"
proof -
  let ?step = "consume_step good_worker ref_consumer worker_defaults"
  let ?m0 = "sample_record 0" and ?m1 = "sample_record 1"
  let ?s0 = "consumer_init worker_defaults w0"
  obtain l1 w1 where r0: "?step ?s0 (Receive ?m0)
      (?s0\<lparr>cs_holding := Some ?m0, cs_last_sample := l1, cs_world := w1\<rparr>)"
    using ref_receive [where s = ?s0 and cfg = worker_defaults and m = ?m0] by (auto simp: consumer_init_def)
  let ?s1 = "?s0\<lparr>cs_holding := Some ?m0, cs_last_sample := l1, cs_world := w1\<rparr>"
  let ?s2 = "?s1\<lparr>cs_holding := None, cs_semaphore := cs_semaphore ?s1 - 1,
      cs_tasks := cs_tasks ?s1 @ [(?m0, Processing)]\<rparr>"
  have sp0: "?step ?s1 Spawn ?s2" using assms by (intro consume_step.spawn) (simp_all add: consumer_init_def)
  obtain l3 w3 where r1: "?step ?s2 (Receive ?m1)
      (?s2\<lparr>cs_holding := Some ?m1, cs_last_sample := l3, cs_world := w3\<rparr>)"
    using ref_receive [where s = ?s2 and cfg = worker_defaults and m = ?m1] by (auto simp: consumer_init_def)
  let ?s3 = "?s2\<lparr>cs_holding := Some ?m1, cs_last_sample := l3, cs_world := w3\<rparr>"
  let ?s4 = "?s3\<lparr>cs_holding := None, cs_semaphore := cs_semaphore ?s3 - 1,
      cs_tasks := cs_tasks ?s3 @ [(?m1, Processing)]\<rparr>"
  have sp1: "?step ?s3 Spawn ?s4" using assms by (intro consume_step.spawn) (simp_all add: consumer_init_def)
  have "cs_tasks ?s4 = [(?m0, Processing)] @ (?m1, Processing) # []" by (simp add: consumer_init_def)
  from ref_work [OF this] obtain w5 where wk: "?step ?s4 (Work ?m1)
      (?s4\<lparr>cs_tasks := [(?m0, Processing)] @ (?m1, Committing) # [], cs_world := w5\<rparr>)" by blast
  let ?s5 = "?s4\<lparr>cs_tasks := [(?m0, Processing)] @ (?m1, Committing) # [], cs_world := w5\<rparr>"
  have "cs_tasks ?s5 = [(?m0, Processing)] @ (?m1, Committing) # []" by simp
  from ref_commit [OF this] obtain s6 where cm: "?step ?s5 (Commit ?m1) s6"
    and s6: "cs_tasks s6 = [(?m0, Processing)]" "cs_holding s6 = None"
      "cs_commits s6 = [((lit ''iot.events.raw'', 0), 2)]"
    by (force simp: end_task_def consumer_init_def tp_of_def sample_record_def)
  have "consume_run good_worker ref_consumer worker_defaults ?s0
      (((((([] @ [Receive ?m0]) @ [Spawn]) @ [Receive ?m1]) @ [Spawn]) @ [Work ?m1]) @ [Commit ?m1]) s6"
    by (rule consume_run.go [OF _ cm], rule consume_run.go [OF _ wk], rule consume_run.go [OF _ sp1],
        rule consume_run.go [OF _ r1], rule consume_run.go [OF _ sp0], rule consume_run.go [OF _ r0],
        rule consume_run.stay)
  with s6 show ?thesis by blast
qed

text \<open>C8: With the default settings the commits do not guarantee at-least-once delivery, which the
  module's text claims: there is a run of the loop in which the offset 2 of a partition has been
  committed while the record with the offset 0 is still being processed, and after which the
  record's own commit takes the committed offset back to 1.\<close>

theorem commit_passes_unprocessed:
  "\<exists>ls s ls' s'. consume_run good_worker ref_consumer worker_defaults (consumer_init worker_defaults worker_world) ls s \<and>
     cs_commits s = [((lit ''iot.events.raw'', 0), 2)] \<and>
     sample_record 0 \<in> set (in_progress s) \<and> sample_record 0 \<notin> set (finished ls) \<and>
     consume_run good_worker ref_consumer worker_defaults (consumer_init worker_defaults worker_world) (ls @ ls') s' \<and>
     cs_commits s' = [((lit ''iot.events.raw'', 0), 2), ((lit ''iot.events.raw'', 0), 1)]"
proof -
  let ?run = "consume_run good_worker ref_consumer worker_defaults (consumer_init worker_defaults worker_world)"
  let ?ls = "((((([] @ [Receive (sample_record 0)]) @ [Spawn]) @ [Receive (sample_record 1)]) @ [Spawn])
        @ [Work (sample_record 1)]) @ [Commit (sample_record 1)]"
  have "2 \<le> W_MAX_CONCURRENT_TASKS worker_defaults" by (simp add: worker_defaults_def)
  from overtaking_run [OF this, of worker_world] obtain s where s: "?run ?ls s"
    "cs_tasks s = [] @ (sample_record 0, Processing) # []" "cs_commits s = [((lit ''iot.events.raw'', 0), 2)]"
    by auto
  from ref_work [OF s(2)] obtain w where wk: "consume_step good_worker ref_consumer worker_defaults s
      (Work (sample_record 0)) (s\<lparr>cs_tasks := [] @ (sample_record 0, Committing) # [], cs_world := w\<rparr>)"
    (is "consume_step _ _ _ _ _ ?s1") by blast
  have t1: "cs_tasks ?s1 = [] @ (sample_record 0, Committing) # []" by simp
  from ref_commit [OF t1] obtain k where cm: "consume_step good_worker ref_consumer worker_defaults ?s1
      (Commit (sample_record 0)) (end_task ([] @ []) (?s1\<lparr>cs_world := (cs_world ?s1)\<lparr>kafka := k\<rparr>,
         cs_commits := cs_commits ?s1 @ [(tp_of (sample_record 0), cr_offset (sample_record 0) + 1)]\<rparr>))"
    (is "consume_step _ _ _ _ _ ?s2") by blast
  have "?run (?ls @ [Work (sample_record 0), Commit (sample_record 0)]) ?s2"
    using consume_run.go [OF consume_run.go [OF s(1) wk] cm] by simp
  moreover have "cs_commits ?s2 = [((lit ''iot.events.raw'', 0), 2), ((lit ''iot.events.raw'', 0), 1)]"
    using s(3) by (simp add: end_task_def tp_of_def sample_record_def)
  moreover have "sample_record 0 \<in> set (in_progress s)" using s(2) by (simp add: in_progress_def)
  moreover have "sample_record 0 \<notin> set (finished ?ls)" by (simp add: sample_record_def)
  ultimately show ?thesis using s(1,3) by blast
qed

lemma consumer_invariant_example:
  "\<exists>s. consume_run good_worker ref_consumer worker_defaults (consumer_init worker_defaults worker_world)
      (((((([] @ [Receive (sample_record 0)]) @ [Spawn]) @ [Receive (sample_record 1)]) @ [Spawn])
        @ [Work (sample_record 1)]) @ [Commit (sample_record 1)]) s \<and>
    cs_semaphore s = 49"
proof -
  have two: "2 \<le> W_MAX_CONCURRENT_TASKS worker_defaults" by (simp add: worker_defaults_def)
  obtain s where s: "consume_run good_worker ref_consumer worker_defaults (consumer_init worker_defaults worker_world)
      (((((([] @ [Receive (sample_record 0)]) @ [Spawn]) @ [Receive (sample_record 1)]) @ [Spawn])
        @ [Work (sample_record 1)]) @ [Commit (sample_record 1)]) s" "cs_tasks s = [(sample_record 0, Processing)]"
    using overtaking_run [OF two, of worker_world] by blast
  have "0 \<le> W_MAX_CONCURRENT_TASKS worker_defaults" by (simp add: worker_defaults_def)
  from consumer_invariant [OF this s(1)] s show ?thesis by (auto simp: worker_defaults_def)
qed

definition one_at_a_time :: worker_settings where
  "one_at_a_time = worker_defaults\<lparr>W_MAX_CONCURRENT_TASKS := 1\<rparr>"

theorem sequential_commits_in_order_witness:
  "\<exists>s. consume_run good_worker ref_consumer one_at_a_time (consumer_init one_at_a_time worker_world)
      [Receive (sample_record 0)] s \<and> cs_commits s = []"
proof -
  let ?s0 = "consumer_init one_at_a_time worker_world"
  obtain l w where "consume_step good_worker ref_consumer one_at_a_time ?s0 (Receive (sample_record 0))
      (?s0\<lparr>cs_holding := Some (sample_record 0), cs_last_sample := l, cs_world := w\<rparr>)"
    using ref_receive [where s = ?s0 and cfg = one_at_a_time and m = "sample_record 0"] by (auto simp: consumer_init_def)
  from consume_run.go [OF consume_run.stay this] obtain s where
    run: "consume_run good_worker ref_consumer one_at_a_time ?s0 [Receive (sample_record 0)] s" by auto
  from sequential_commits_in_order [OF _ run] run show ?thesis by (auto simp: one_at_a_time_def)
qed

theorem consumer_drains_witness:
  "\<exists>ls' s'. consume_run good_worker ref_consumer worker_defaults (consumer_init worker_defaults worker_world)
      ([] @ ls') s' \<and> cs_tasks s' = []"
  using consumer_drains [of worker_defaults, OF _ consume_run.stay, of worker_world good_worker ref_consumer]
  by (auto simp: worker_defaults_def consumer_init_def)

definition bad_record :: consumer_record where
  "bad_record = (sample_record 0)\<lparr>cr_value := Inl (ValueError (lit ''Expecting value''))\<rparr>"

theorem undecodable_record_blocks_witness:
  "\<exists>s. consume_run good_worker ref_consumer worker_defaults (consumer_init worker_defaults worker_world)
      ([] @ Undecodable bad_record # []) s \<and>
    cs_ended s = Some (ValueError (lit ''Expecting value''))"
proof -
  let ?s0 = "consumer_init worker_defaults worker_world"
  have "consume_step good_worker ref_consumer worker_defaults ?s0 (Undecodable bad_record)
      (?s0\<lparr>cs_ended := Some (ValueError (lit ''Expecting value''))\<rparr>)"
    by (rule consume_step.undecodable) (simp_all add: consumer_init_def bad_record_def)
  from consume_run.go [OF consume_run.stay this] obtain s where run: "consume_run good_worker ref_consumer
      worker_defaults ?s0 ([] @ Undecodable bad_record # []) s" by auto
  from undecodable_record_blocks [OF _ run] run show ?thesis
    by (auto simp: worker_defaults_def bad_record_def)
qed

end
