(* ===== verification/Worker_Main.thy ===== *)
theory Worker_Main
  imports Consumer
begin

text \<open>
  The life of the worker process (\<open>apps/worker/main.py\<close>), the consumer around its loop, the lag
  sampling, and \<open>configure_logging\<close> of \<open>libs/shared/logging.py\<close> with which both services start.
\<close>

section \<open>Logging\<close>

datatype log_processor =
    MergeContextvars | TimeStamperIso | AddLogLevel | StackInfoRenderer | FormatExcInfo
  | UnicodeDecoder | ConsoleRenderer | JSONRenderer

text \<open>\<open>logging.getLevelName\<close> of a text: the number of a level by its name, and a text for any other
  name.\<close>

definition level_names :: "(pystr \<times> int) list" where
  "level_names = [(lit ''CRITICAL'', 50), (lit ''FATAL'', 50), (lit ''ERROR'', 40), (lit ''WARN'', 30),
     (lit ''WARNING'', 30), (lit ''INFO'', 20), (lit ''DEBUG'', 10), (lit ''NOTSET'', 0)]"

definition getLevelName :: "pystr \<Rightarrow> int + pystr" where
  "getLevelName name = (case map_of level_names name of Some n \<Rightarrow> Inl n | None \<Rightarrow> Inr (lit ''Level '' @ name))"

record log_configuration =
  lc_processors :: "log_processor list"
  lc_level :: "int + pystr" \<comment> \<open>the argument of \<open>make_filtering_bound_logger\<close>\<close>
  lc_cache_logger_on_first_use :: bool

definition configure_logging :: "pystr \<Rightarrow> pystr \<Rightarrow> log_configuration" where
  "configure_logging env log_level =
     (let processors = [MergeContextvars, TimeStamperIso, AddLogLevel, StackInfoRenderer, FormatExcInfo,
            UnicodeDecoder];
          processors' = (if env = lit ''development'' then processors @ [ConsoleRenderer]
                         else processors @ [JSONRenderer])
      in \<lparr>lc_processors = processors', lc_level = getLevelName log_level,
          lc_cache_logger_on_first_use = True\<rparr>)"

text \<open>Exactly one renderer, at the end, and JSON wherever it is not development, also in the
  \<open>staging\<close> that the type of the argument does not have; the level names are case-sensitive.\<close>

lemma one_renderer:
  "last (lc_processors (configure_logging env lvl)) =
     (if env = lit ''development'' then ConsoleRenderer else JSONRenderer)"
  "filter (\<lambda>p. p \<in> {ConsoleRenderer, JSONRenderer}) (lc_processors (configure_logging env lvl)) =
     [last (lc_processors (configure_logging env lvl))]"
  by (simp_all add: configure_logging_def Let_def)

lemma default_levels:
  "lc_level (configure_logging (I_ENV ingest_defaults) (I_LOG_LEVEL ingest_defaults)) = Inl 20"
  "lc_level (configure_logging (W_ENV worker_defaults) (W_LOG_LEVEL worker_defaults)) = Inl 20"
  "lc_level (configure_logging env (lit ''info'')) = Inr (lit ''Level '' @ lit ''info'')"
  by (simp_all add: configure_logging_def Let_def getLevelName_def level_names_def
      ingest_defaults_def worker_defaults_def)

section \<open>The worker\<close>

text \<open>\<open>asyncio.wait\<close> and \<open>gather(..., return_exceptions=True)\<close>: the consumer task has ended, by itself or
  cancelled after the stop signal, and nobody looks at its result.\<close>

definition outcome_ignored :: "('s, 'a) io \<Rightarrow> ('s, unit) io" where
  "outcome_ignored m = (\<lambda>s. (Inr (), snd (m s)))"

text \<open>\<open>main\<close>; the arguments are the metrics server (a library's) and the consumer task.\<close>

definition worker_metrics_server :: "(int \<Rightarrow> ('s, unit) io) \<Rightarrow> worker_settings \<Rightarrow> ('s, unit) io" where
  "worker_metrics_server start_http_server cfg = start_shared_metrics_server start_http_server (W_METRICS_PORT cfg)"

declare worker_metrics_server_def [simp]

definition worker_main :: "('r, 'p, 'k, 'h) services \<Rightarrow> worker_settings \<Rightarrow>
    (int \<Rightarrow> (('r, 'p, 'k, 'h) world, unit) io) \<Rightarrow> (('r, 'p, 'k, 'h) world, unit) io \<Rightarrow>
    (('r, 'p, 'k, 'h) world, unit) io" where
  "worker_main S cfg start_http_server consumer_task =
     andthen (worker_metrics_server start_http_server cfg)
     (andthen (init_pool S cfg)
     (andthen (try_except (on_redis (r_ping (redis_of S))) (catching ''Exception'' (\<lambda>exc. ret ())))
       (try_finally (outcome_ignored consumer_task)
         (andthen (close_pool S) (on_redis (r_close (redis_of S)))))))"

text \<open>A run of \<open>main\<close> up to the consumer task.\<close>

definition worker_starts :: "('r, 'p, 'k, 'h) services \<Rightarrow> worker_settings \<Rightarrow>
    (int \<Rightarrow> (('r, 'p, 'k, 'h) world, unit) io) \<Rightarrow> ('r, 'p, 'k, 'h) world \<Rightarrow> ('r, 'p, 'k, 'h) world \<Rightarrow> bool" where
  "worker_starts S cfg start_http_server w w1 \<longleftrightarrow>
     andthen (worker_metrics_server start_http_server cfg)
       (andthen (init_pool S cfg)
         (try_except (on_redis (r_ping (redis_of S))) (catching ''Exception'' (\<lambda>exc. ret ())))) w
     = (Inr (), w1)"

lemma worker_main_after_start:
  assumes "worker_starts S cfg srv w w1"
  shows "worker_main S cfg srv task w =
    try_finally (outcome_ignored task) (andthen (close_pool S) (on_redis (r_close (redis_of S)))) w1"
  using assms
  by (auto simp: worker_main_def worker_starts_def andthen_def bind_def split: prod.splits sum.splits)

text \<open>C38: A worker that has started ends normally whatever happens to its consumer: if the closing of
  the pool and of Redis succeed, \<open>main\<close> returns, also when the consumer task ended with a fatal
  error, and in either case it has closed both, so that the exit status of the process does not
  tell a crash from a shutdown.\<close>

theorem worker_main_hides_failures:
  assumes "worker_starts S cfg start_http_server w w1"
    and "quiet (pg_close_pool (pg_of S))" "quiet (r_close (redis_of S))"
    and "consumer_task w1 = (r, w2)"
  shows "\<exists>p x. worker_main S cfg start_http_server consumer_task w =
      (Inr (), w2\<lparr>postgres := p, redis := x\<rparr>) \<and>
    (if pool_set w2 then pg_close_pool (pg_of S) (postgres w2) = (Inr (), p) else p = postgres w2) \<and>
    r_close (redis_of S) (redis w2) = (Inr (), x)"
proof -
  obtain u p where p: "pg_close_pool (pg_of S) (postgres w2) = (Inr u, p)"
    using assms(2) by (rule quiet_result)
  obtain v x where x: "r_close (redis_of S) (redis w2) = (Inr v, x)"
    using assms(3) by (rule quiet_result)
  from p x assms(4) show ?thesis
    by (auto simp: worker_main_after_start [OF assms(1)] outcome_ignored_def close_pool_def io_defs)
qed

text \<open>A worker whose pool cannot be created has touched neither Redis nor Kafka.\<close>

lemma worker_needs_database:
  assumes "pg_create_pool (pg_of S) cfg (postgres w1) = (Inl e, p)"
    and "start_http_server (W_METRICS_PORT cfg) w = (Inr (), w1)"
  shows "worker_main S cfg start_http_server consumer_task w = (Inl e, w1\<lparr>postgres := p\<rparr>)"
  using assms by (simp add: worker_main_def init_pool_def io_defs)

section \<open>The consumer around its loop\<close>

text \<open>C37: However the loop ends, \<open>run_consumer_loop\<close>, once it has started the producer of the dead
  letters, stops the consumer and then, if that stop returns, the producer. The world is the one in
  which the loop ended but for the two stops. The result is that of the stop that failed, if one did:
  when the stop of the consumer raises or is cancelled, the producer is not stopped, and the
  exception of the loop is replaced. Otherwise a cancellation of the loop is swallowed, and every
  other exception, of the loop or of the consumer's start, is raised.\<close>

theorem consumer_loop_ends:
  assumes "k_start (kafka_of S) (dlq_producer_config cfg) (kafka w) = (Inr (), k1)"
    and "andthen (on_kafka (c_start C (raw_consumer_config cfg))) consume (w\<lparr>kafka := k1\<rparr>) = (r, w2)"
    and "c_stop C (kafka w2) = (stopped, k3)"
  shows "run_consumer_loop S C cfg consume w =
    (case stopped of
       Inl e \<Rightarrow> (Inl e, w2\<lparr>kafka := k3\<rparr>)
     | Inr _ \<Rightarrow>
         (case k_stop (kafka_of S) k3 of
            (Inl e, k4) \<Rightarrow> (Inl e, w2\<lparr>kafka := k4\<rparr>)
          | (Inr _, k4) \<Rightarrow>
              (case r of Inr _ \<Rightarrow> Inr ()
               | Inl e \<Rightarrow> if isinstance e ''CancelledError'' then Inr () else Inl e, w2\<lparr>kafka := k4\<rparr>)))"
proof -
  let ?body = "try_except (andthen (on_kafka (c_start C (raw_consumer_config cfg))) consume)
      (catching ''CancelledError'' (\<lambda>exc. ret ()))"
  have "?body (w\<lparr>kafka := k1\<rparr>) =
      (case r of Inr _ \<Rightarrow> Inr ()
       | Inl e \<Rightarrow> if isinstance e ''CancelledError'' then Inr () else Inl e, w2)"
    using assms(2) by (cases r) (simp_all add: try_except_def catching_def ret_def raise_def)
  with assms(1,3) show ?thesis
    by (auto simp: run_consumer_loop_def andthen_def bind_def on_kafka_def try_finally_def
        split: sum.split prod.split)
qed

section \<open>Lag sampling\<close>

text \<open>The broker is asked for the lag at most once in five seconds: a call within five seconds of the
  last sampling returns having only read the clock, and any other call makes its time the time of
  the last sampling, whether or not the sampling succeeds.\<close>

lemma lag_sampled_rarely:
  assumes "maybe_sample_lag S C (l, w) = (r, (l', w'))" "h_monotonic (host_of S) (host w) = (now, h)"
  shows "if now - l < 5 then r = Inr () \<and> l' = l \<and> w' = w\<lparr>host := h\<rparr> else l' = now"
  using assms
  by (auto simp: maybe_sample_lag_def lag_interval_def bind_def andthen_def gets_def modify_def
      eff_def ask_host_def ret_def split: if_splits prod.splits)

text \<open>Asked for the committed offsets in the states \<open>I\<close>, the broker answers \<open>com\<close> and stays in \<open>I\<close>.\<close>

definition answers_committed :: "'k consumer_api \<Rightarrow> ('k \<Rightarrow> bool) \<Rightarrow> (topic_partition \<Rightarrow> int option) \<Rightarrow> bool" where
  "answers_committed C I com \<longleftrightarrow> (\<forall>tp x. I x \<longrightarrow> (\<exists>x'. c_committed C tp x = (Inr (com tp), x') \<and> I x'))"

lemma sample_each_sets:
  assumes "answers_committed C I com" "I (kafka w)" "distinct (map (snd \<circ> fst) ends)"
  shows "\<exists>w'. sample_each C ends w = (Inr (), w') \<and>
    (\<forall>((t, p), e) \<in> set ends. gauges (met w') (CONSUMER_LAG (int_str p)) = lag_of e (com (t, p))) \<and>
    (\<forall>g. g \<notin> (\<lambda>((t, p), e). CONSUMER_LAG (int_str p)) ` set ends \<longrightarrow> gauges (met w') g = gauges (met w) g)"
  using assms(2,3)
proof (induction ends arbitrary: w)
  case Nil
  then show ?case by (simp add: ret_def)
next
  case (Cons entry ends)
  obtain t p e where entry: "entry = ((t, p), e)" by (metis surj_pair)
  from assms(1) Cons.prems(1) obtain k' where k': "c_committed C (t, p) (kafka w) = (Inr (com (t, p)), k')" "I k'"
    unfolding answers_committed_def by blast
  let ?g = "CONSUMER_LAG (int_str p)"
  let ?w = "w\<lparr>kafka := k', met := (met w)\<lparr>gauges := (gauges (met w))(?g := lag_of e (com (t, p)))\<rparr>\<rparr>"
  have step: "sample_each C (entry # ends) w = sample_each C ends ?w"
    by (simp add: entry bind_def andthen_def on_kafka_def set_gauge_def modify_def k'(1))
  from Cons.IH [of ?w] Cons.prems(2) k'(2) obtain w' where w': "sample_each C ends ?w = (Inr (), w')"
    "\<forall>((t, p), e) \<in> set ends. gauges (met w') (CONSUMER_LAG (int_str p)) = lag_of e (com (t, p))"
    "\<forall>g. g \<notin> (\<lambda>((t, p), e). CONSUMER_LAG (int_str p)) ` set ends \<longrightarrow> gauges (met w') g = gauges (met ?w) g"
    by auto
  have "?g \<notin> (\<lambda>((t, p), e). CONSUMER_LAG (int_str p)) ` set ends"
    using Cons.prems by (force simp: entry)
  with w'(3) have "gauges (met w') ?g = lag_of e (com (t, p))" by simp
  with w' step show ?case by (auto simp: entry)
qed

text \<open>C39: What a sampling that succeeds reports. Let the last sampling be five seconds ago, and the broker
  know the offsets \<open>com\<close> as committed from the answer to the first question on (no task commits
  while the sampling runs). Then the gauge of each assigned partition is set to one less than the
  number of records after the committed offset (and to 0 if there is none): the committed offset is
  the offset of the next record, so that the gauge reads 0 also when one record is waiting, and with
  nothing committed it is one less than the length of the partition. The assigned partitions are
  those of one topic, as the gauge has the partition's number for its label.\<close>

theorem lag_one_too_low:
  assumes "h_monotonic (host_of S) (host w) = (now, h)" "5 \<le> now - l"
    and "c_assignment C (kafka w) = Inr assigned" "assigned \<noteq> []"
    and "c_end_offsets C assigned (kafka w) = (Inr ends, k)" "distinct (map (snd \<circ> fst) ends)"
    and "answers_committed C I com" "I k"
    and "((t, p), e) \<in> set ends" "pending = e - (case com (t, p) of Some c \<Rightarrow> c | None \<Rightarrow> 0)"
  shows "\<exists>w'. maybe_sample_lag S C (l, w) = (Inr (), (now, w')) \<and>
    gauges (met w') (CONSUMER_LAG (int_str p)) = (if 0 < pending then pending - 1 else 0)"
proof -
  let ?w1 = "w\<lparr>host := h, kafka := k\<rparr>"
  from sample_each_sets [OF assms(7) _ assms(6), of ?w1] assms(8,9) obtain w' where
    w': "sample_each C ends ?w1 = (Inr (), w')"
    and lag: "gauges (met w') (CONSUMER_LAG (int_str p)) = lag_of e (com (t, p))" by fastforce
  have "maybe_sample_lag S C (l, w) = (Inr (), (now, w'))"
    using assms(1-5) w'
    by (simp add: maybe_sample_lag_def lag_interval_def bind_def andthen_def gets_def modify_def
        eff_def ask_host_def of_result_def on_kafka_def try_except_def)
  then show ?thesis using lag assms(10) by (auto simp: lag_of_def Let_def max_def split: option.splits)
qed

section \<open>Witnesses\<close>

definition no_server :: "int \<Rightarrow> (('r, 'p, 'k, 'h) world, unit) io" where
  "no_server port = ret ()"

definition kafka_down :: exn where
  "kafka_down = Exn [''KafkaConnectionError'', ''KafkaError'', ''Exception'', ''BaseException''] []"

lemma good_closes: "quiet (pg_close_pool (pg_of good_worker))" "quiet (r_close (redis_of good_worker))"
  "quiet (k_stop (kafka_of good_worker))" "quiet (c_stop ref_consumer)"
  by (auto simp: raises_def good_worker_def worker_services_def ref_pg_def ref_redis_def ref_kafka_def
      rk_call_def rr_call_def ref_consumer_def io_defs Let_def)

theorem worker_main_hides_failures_witness:
  "\<exists>w'. worker_main good_worker worker_defaults no_server (raise kafka_down) worker_world = (Inr (), w')"
proof -
  obtain w1 where "worker_starts good_worker worker_defaults no_server worker_world w1"
    by (auto simp: worker_starts_def no_server_def init_pool_def good_worker_def worker_services_def
        ref_pg_def ref_redis_def rr_call_def io_defs Let_def)
  from worker_main_hides_failures [OF this good_closes(1,2), of "raise kafka_down" "Inl kafka_down" w1]
  show ?thesis by (auto simp: raise_def)
qed

theorem consumer_loop_ends_witness:
  "\<exists>w'. run_consumer_loop good_worker ref_consumer worker_defaults (raise kafka_down) worker_world =
     (Inl kafka_down, w')"
proof -
  let ?k1 = "(kafka worker_world)\<lparr>rk_calls := rk_calls (kafka worker_world) + 1\<rparr>"
  have "k_start (kafka_of good_worker) (dlq_producer_config worker_defaults) (kafka worker_world) = (Inr (), ?k1)"
    by (simp add: good_worker_def worker_services_def ref_kafka_def rk_call_def io_defs Let_def)
  moreover have "andthen (on_kafka (c_start ref_consumer (raw_consumer_config worker_defaults))) (raise kafka_down) (worker_world\<lparr>kafka := ?k1\<rparr>)
      = (Inl kafka_down, worker_world\<lparr>kafka := ?k1\<rparr>)"
    by (simp add: ref_consumer_def io_defs)
  moreover have "c_stop ref_consumer ?k1 = (Inr (), ?k1)" by (simp add: ref_consumer_def ret_def)
  ultimately show ?thesis
    by (subst consumer_loop_ends)
       (auto simp: kafka_down_def good_worker_def worker_services_def ref_kafka_def rk_call_def io_defs Let_def)
qed

lemma lag_sampled_rarely_example:
  "\<exists>w'. maybe_sample_lag good_worker ref_consumer (0, worker_world) = (Inr (), (0, w'))"
proof -
  obtain r l' w' where run: "maybe_sample_lag good_worker ref_consumer (0, worker_world) = (r, (l', w'))"
    by (metis surj_pair)
  have "h_monotonic (host_of good_worker) (host worker_world) = (0, host worker_world)"
    by (simp add: good_worker_def worker_services_def worker_world_def ref_host_def idle_host_def)
  from lag_sampled_rarely [OF run this] run show ?thesis by auto
qed

text \<open>A broker that keeps the committed offsets in a topic of its own, as Kafka does, and counts the
  questions; three records are in the partition.\<close>

definition offsets_topic :: pystr where
  "offsets_topic = lit ''__consumer_offsets''"

fun committed_in :: "krecord list \<Rightarrow> topic_partition \<Rightarrow> int option" where
  "committed_in [] tp = None"
| "committed_in ((topic, v, key) # rs) tp =
     (case committed_in rs tp of
        Some n \<Rightarrow> Some n
      | None \<Rightarrow>
          if topic = offsets_topic \<and> v = JArr [JStr (fst tp), JInt (snd tp)] then
            (case key of Some [n] \<Rightarrow> Some (int n) | _ \<Rightarrow> None)
          else None)"

definition lagging_consumer :: "ref_kafka consumer_api" where
  "lagging_consumer = ref_consumer\<lparr>c_assignment := (\<lambda>x. Inr [(lit ''iot.events.raw'', 0)]),
     c_end_offsets := (\<lambda>tps. ret [((lit ''iot.events.raw'', 0), 3)]),
     c_committed := (\<lambda>tp x. (Inr (committed_in (rk_log x) tp), x\<lparr>rk_calls := rk_calls x + 1\<rparr>)),
     c_commit := (\<lambda>tp n. modify (\<lambda>x.
       x\<lparr>rk_log := rk_log x @ [(offsets_topic, JArr [JStr (fst tp), JInt (snd tp)], Some [nat n])]\<rparr>))\<rparr>"

theorem lag_one_too_low_witness:
  "\<exists>x w'. c_commit lagging_consumer (lit ''iot.events.raw'', 0) 1 (kafka worker_world) = (Inr (), x) \<and>
     maybe_sample_lag good_worker lagging_consumer (- 10, worker_world\<lparr>kafka := x\<rparr>) = (Inr (), (0, w')) \<and>
     gauges (met w') (CONSUMER_LAG (int_str 0)) = 1"
proof -
  let ?tp = "(lit ''iot.events.raw'', 0 :: int)"
  let ?x = "(kafka worker_world)\<lparr>rk_log := rk_log (kafka worker_world) @
      [(offsets_topic, JArr [JStr (fst ?tp), JInt (snd ?tp)], Some [1])]\<rparr>"
  let ?w = "worker_world\<lparr>kafka := ?x\<rparr>"
  have commit: "c_commit lagging_consumer ?tp 1 (kafka worker_world) = (Inr (), ?x)"
    by (simp add: lagging_consumer_def modify_def)
  have mono: "h_monotonic (host_of good_worker) (host ?w) = (0, host ?w)"
    by (simp add: good_worker_def worker_services_def worker_world_def ref_host_def idle_host_def)
  have assigned: "c_assignment lagging_consumer (kafka ?w) = Inr [?tp]"
    and ends: "c_end_offsets lagging_consumer [?tp] (kafka ?w) = (Inr [(?tp, 3)], ?x)"
    by (simp_all add: lagging_consumer_def ret_def)
  have answers: "answers_committed lagging_consumer (\<lambda>y. rk_log y = rk_log ?x) (committed_in (rk_log ?x))"
    by (simp add: answers_committed_def lagging_consumer_def)
  have "committed_in (rk_log ?x) ?tp = Some 1"
    by (simp add: worker_world_def empty_kafka_def)
  then show ?thesis
    using lag_one_too_low [OF mono _ assigned _ ends _ answers, of "- 10" "fst ?tp" "snd ?tp" 3 2] commit by auto
qed

end
