(* ===== verification/Worker_Process.thy ===== *)
theory Worker_Process
  imports Task_Outcome Worker_Main
begin

text \<open>
  The worker process with all its coroutines: the consume loop (\<open>consumer.py\<close>), its tasks, and
  \<open>main\<close> around them (\<open>main.py\<close>), interleaved at their awaits.

  \<open>worker_step\<close> refines \<open>consume_step\<close>: a step is one stretch of one coroutine, from one \<open>await\<close> to the
  next, so that calls of \<open>process\<close> for different records overlap in every possible way. It goes on
  before and behind \<open>consume_step\<close>: it begins when \<open>main\<close> waits for the consumer task and the stop
  signal, while the producer of the dead letters is being started; when the loop has ended, by the stop
  signal, which cancels it wherever it is, or by an exception, \<open>run_consumer_loop\<close> stops the consumer
  and the producer (\<open>loop_end_co\<close>), which a stop signal may interrupt once if none has come before, and
  \<open>main\<close> closes the pool and Redis (\<open>main_end_co\<close>), while the tasks, for which nobody waits, still run; and
  when \<open>main\<close> has returned, \<open>asyncio.run\<close> cancels what is left of them (\<open>kill\<close>, \<open>kill_created\<close>,
  \<open>kill_commit\<close>). The state keeps,
  beside the variables of the code, what the properties speak of: the records received, those whose
  processing has returned (\<open>ws_processed\<close>), those whose processing ended by an exception
  (\<open>ws_failed\<close>; a task that ends by the exception of its commit has been processed and is not among
  them), the records that the loop held when it ended, and the commits that were acknowledged.
\<close>

section \<open>The coroutines of the loop\<close>

fun sample_each_co :: "'k consumer_api \<Rightarrow> (topic_partition \<times> int) list \<Rightarrow>
    (('r, 'p, 'k, 'h) world, unit) co" where
  "sample_each_co C [] = sync (ret ())"
| "sample_each_co C ((tp, end_offset) # rest) =
     co_bind (await (on_kafka (c_committed C tp))) (\<lambda>committed.
       co_andthen (sync (set_gauge (CONSUMER_LAG (int_str (snd tp))) (lag_of end_offset committed)))
         (sample_each_co C rest))"

definition maybe_sample_lag_co :: "('r, 'p, 'k, 'h) services \<Rightarrow> 'k consumer_api \<Rightarrow>
    (rat \<times> ('r, 'p, 'k, 'h) world, unit) co" where
  "maybe_sample_lag_co S C =
     co_bind (sync (eff (ask_host (h_monotonic (host_of S))))) (\<lambda>now.
     co_bind (sync (gets fst)) (\<lambda>last_lag_sample.
       if now - last_lag_sample < lag_interval then sync (ret ())
       else co_andthen (sync (modify (\<lambda>(l, w). (now, w))))
         (co_eff (co_try
           (co_bind (sync (bind (gets (\<lambda>w. c_assignment C (kafka w))) of_result)) (\<lambda>assigned.
              if assigned = [] then sync (ret ())
              else co_bind (await (on_kafka (c_end_offsets C assigned))) (\<lambda>end_offsets.
                sample_each_co C end_offsets)))
           (co_catching ''Exception'' (\<lambda>exc. sync (ret ())))))))"

lemma run_sample_each: "run (sample_each_co C ends) = sample_each C ends"
  by (induction C ends rule: sample_each.induct) (simp_all add: run_simps)

lemma run_maybe_sample_lag: "run (maybe_sample_lag_co S C) = maybe_sample_lag S C"
  by (simp add: maybe_sample_lag_co_def maybe_sample_lag_def run_simps run_sample_each bind_bind cong: if_cong)

definition close_pool_co :: "('r, 'p, 'k, 'h) services \<Rightarrow> (('r, 'p, 'k, 'h) world, unit) co" where
  "close_pool_co S = co_bind (sync (gets pool_set)) (\<lambda>p.
     if p then await (on_pg (pg_close_pool (pg_of S))) else sync (ret ()))"

text \<open>What is left of \<open>run_consumer_loop\<close> when the loop has ended with the exception \<open>e\<close>, and of \<open>main\<close>
  when the consumer task has ended; nobody looks at the exception of the consumer task.\<close>

definition loop_end_co :: "('r, 'p, 'k, 'h) services \<Rightarrow> 'k consumer_api \<Rightarrow> exn \<Rightarrow>
    (('r, 'p, 'k, 'h) world, unit) co" where
  "loop_end_co S C e =
     co_finally (co_catching ''CancelledError'' (\<lambda>exc. sync (ret ())) e)
       (co_andthen (await (on_kafka (c_stop C))) (await (on_kafka (k_stop (kafka_of S)))))"

definition main_end_co :: "('r, 'p, 'k, 'h) services \<Rightarrow> (('r, 'p, 'k, 'h) world, unit) co" where
  "main_end_co S = co_andthen (close_pool_co S) (await (on_redis (r_close (redis_of S))))"

text \<open>They are what \<open>run_consumer_loop\<close> and \<open>worker_main\<close> do after the loop.\<close>

lemma ends_are_the_end:
  assumes "worker_starts S cfg srv w w0" "k_start (kafka_of S) (dlq_producer_config cfg) (kafka w0) = (Inr (), k1)"
    and "andthen (on_kafka (c_start C (raw_consumer_config cfg))) consume (w0\<lparr>kafka := k1\<rparr>) = (Inl e, w1)"
  shows "worker_main S cfg srv (run_consumer_loop S C cfg consume) w =
    run (co_then (loop_end_co S C e) (\<lambda>_. main_end_co S)) w1"
proof -
  have "run_consumer_loop S C cfg consume w0 = run (loop_end_co S C e) w1"
    using assms(2,3)
    by (simp add: run_consumer_loop_def loop_end_co_def run_simps)
       (simp add: andthen_def bind_def on_kafka_def try_finally_def try_except_def catching_def raise_def ret_def)
  moreover have "run (close_pool_co S) = close_pool S"
    by (simp add: close_pool_co_def close_pool_def run_simps cong: if_cong)
  ultimately show ?thesis
    by (simp add: worker_main_after_start [OF assms(1)] main_end_co_def run_then outcome_ignored_def
        try_finally_def run_simps split: prod.splits sum.splits)
qed

section \<open>The process\<close>

datatype ('r, 'p, 'k, 'h) loop_phase =
    Starting \<comment> \<open>\<open>await dlq_producer.start()\<close>\<close>
  | Joining \<comment> \<open>\<open>await consumer.start()\<close>\<close>
  | Polling
  | Sampling consumer_record "(rat \<times> ('r, 'p, 'k, 'h) world, unit) pause"
      \<comment> \<open>\<open>Done (Inr ())\<close>: waiting for the semaphore\<close>
  | Ending bool "(('r, 'p, 'k, 'h) world, unit) pause"
      \<comment> \<open>the \<open>finally\<close> of \<open>run_consumer_loop\<close>, and whether the task has been cancelled\<close>
  | Closing "(('r, 'p, 'k, 'h) world, unit) pause"

datatype ('r, 'p, 'k, 'h) task_phase =
    Created
  | Running "signal \<Rightarrow> ('r, 'p, 'k, 'h) world \<Rightarrow> (('r, 'p, 'k, 'h) world, unit) pause \<times> ('r, 'p, 'k, 'h) world"
  | Commit_pending

record ('r, 'p, 'k, 'h) worker_state =
  ws_semaphore :: int
  ws_last_sample :: rat
  ws_world :: "('r, 'p, 'k, 'h) world"
  ws_loop :: "('r, 'p, 'k, 'h) loop_phase"
  ws_tasks :: "(consumer_record \<times> ('r, 'p, 'k, 'h) task_phase) list"
  ws_received :: "consumer_record list"
  ws_processed :: "consumer_record list"
  ws_failed :: "(consumer_record \<times> exn) list"
  ws_dropped :: "consumer_record list"
  ws_commits :: "(topic_partition \<times> int) list"

definition worker_init :: "worker_settings \<Rightarrow> ('r, 'p, 'k, 'h) world \<Rightarrow> ('r, 'p, 'k, 'h) worker_state" where
  "worker_init cfg w = \<lparr>ws_semaphore = W_MAX_CONCURRENT_TASKS cfg, ws_last_sample = 0, ws_world = w,
     ws_loop = Starting, ws_tasks = [], ws_received = [], ws_processed = [], ws_failed = [],
     ws_dropped = [], ws_commits = []\<rparr>"

text \<open>The \<open>await processor.process(...)\<close> of \<open>_task_wrapper\<close>.\<close>

definition task_co :: "('r, 'p, 'k, 'h) services \<Rightarrow> worker_settings \<Rightarrow> consumer_record \<Rightarrow>
    (('r, 'p, 'k, 'h) world, unit) co" where
  "task_co S cfg m = (case cr_value m of
       Inl e \<Rightarrow> sync (raise e)
     | Inr event \<Rightarrow> process_co S cfg event (Some (cr_partition m)) (Some (cr_offset m)))"

text \<open>The task has ended: \<open>_semaphore.release()\<close> in its \<open>finally\<close>, and the callback that discards it.\<close>

definition release_task :: "(consumer_record \<times> ('r, 'p, 'k, 'h) task_phase) list \<Rightarrow>
    ('r, 'p, 'k, 'h) worker_state \<Rightarrow> ('r, 'p, 'k, 'h) worker_state" where
  "release_task rest s = s\<lparr>ws_semaphore := ws_semaphore s + 1, ws_tasks := rest\<rparr>"

text \<open>Where a stretch of \<open>process\<close> leaves the task of the record \<open>m\<close>, between the tasks \<open>pre\<close> and \<open>post\<close>.\<close>

definition settle :: "consumer_record \<Rightarrow> (('r, 'p, 'k, 'h) world, unit) pause \<Rightarrow>
    (consumer_record \<times> ('r, 'p, 'k, 'h) task_phase) list \<Rightarrow> (consumer_record \<times> ('r, 'p, 'k, 'h) task_phase) list \<Rightarrow>
    ('r, 'p, 'k, 'h) worker_state \<Rightarrow> ('r, 'p, 'k, 'h) worker_state" where
  "settle m q pre post s = (case q of
       Paused k \<Rightarrow> s\<lparr>ws_tasks := pre @ (m, Running k) # post\<rparr>
     | Done (Inr u) \<Rightarrow> s\<lparr>ws_tasks := pre @ (m, Commit_pending) # post, ws_processed := ws_processed s @ [m]\<rparr>
     | Done (Inl e) \<Rightarrow> release_task (pre @ post) (s\<lparr>ws_failed := ws_failed s @ [(m, e)]\<rparr>))"

definition held_record :: "('r, 'p, 'k, 'h) worker_state \<Rightarrow> consumer_record list" where
  "held_record s = (case ws_loop s of Sampling m q \<Rightarrow> [m] | _ \<Rightarrow> [])"

text \<open>The loop ends with the exception \<open>e\<close>; the record it holds is forgotten.\<close>

definition end_loop :: "('r, 'p, 'k, 'h) services \<Rightarrow> 'k consumer_api \<Rightarrow> bool \<Rightarrow> exn \<Rightarrow>
    ('r, 'p, 'k, 'h) worker_state \<Rightarrow> ('r, 'p, 'k, 'h) worker_state" where
  "end_loop S C cancelled e s = (case loop_end_co S C e (ws_world s) of (q, w) \<Rightarrow>
     s\<lparr>ws_loop := Ending cancelled q, ws_world := w, ws_dropped := ws_dropped s @ held_record s\<rparr>)"

definition main_returned :: "('r, 'p, 'k, 'h) worker_state \<Rightarrow> bool" where
  "main_returned s \<longleftrightarrow> (case ws_loop s of Closing (Done r) \<Rightarrow> True | _ \<Rightarrow> False)"

inductive worker_step :: "('r, 'p, 'k, 'h) services \<Rightarrow> 'k consumer_api \<Rightarrow> worker_settings \<Rightarrow>
    ('r, 'p, 'k, 'h) worker_state \<Rightarrow> ('r, 'p, 'k, 'h) worker_state \<Rightarrow> bool"
  for S :: "('r, 'p, 'k, 'h) services" and C :: "'k consumer_api" and cfg :: worker_settings
where
  started: "ws_loop s = Starting \<Longrightarrow> k_start (kafka_of S) (dlq_producer_config cfg) (kafka (ws_world s)) = (Inr u, x) \<Longrightarrow>
    worker_step S C cfg s (s\<lparr>ws_loop := Joining, ws_world := (ws_world s)\<lparr>kafka := x\<rparr>\<rparr>)"
| start_failed: "ws_loop s = Starting \<Longrightarrow> k_start (kafka_of S) (dlq_producer_config cfg) (kafka (ws_world s)) = (Inl e, x) \<Longrightarrow>
    worker_step S C cfg s (s\<lparr>ws_loop := Ending False (Done (Inl e)), ws_world := (ws_world s)\<lparr>kafka := x\<rparr>\<rparr>)"
| cancel_start: "ws_loop s = Starting \<Longrightarrow> k_start (kafka_of S) (dlq_producer_config cfg) (kafka (ws_world s)) = (r, x) \<Longrightarrow>
    worker_step S C cfg s (s\<lparr>ws_loop := Ending True (Done (Inl CancelledError)),
      ws_world := (if sent' then (ws_world s)\<lparr>kafka := x\<rparr> else ws_world s)\<rparr>)"
| joined: "ws_loop s = Joining \<Longrightarrow> c_start C (raw_consumer_config cfg) (kafka (ws_world s)) = (Inr u, x) \<Longrightarrow>
    worker_step S C cfg s (s\<lparr>ws_loop := Polling, ws_world := (ws_world s)\<lparr>kafka := x\<rparr>\<rparr>)"
| join_failed: "ws_loop s = Joining \<Longrightarrow> c_start C (raw_consumer_config cfg) (kafka (ws_world s)) = (Inl e, x) \<Longrightarrow>
    worker_step S C cfg s (end_loop S C False e (s\<lparr>ws_world := (ws_world s)\<lparr>kafka := x\<rparr>\<rparr>))"
| cancel_join: "ws_loop s = Joining \<Longrightarrow> c_start C (raw_consumer_config cfg) (kafka (ws_world s)) = (r, x) \<Longrightarrow>
    worker_step S C cfg s (end_loop S C True CancelledError
      (s\<lparr>ws_world := (if sent' then (ws_world s)\<lparr>kafka := x\<rparr> else ws_world s)\<rparr>))"
| receive: "ws_loop s = Polling \<Longrightarrow> cr_value m = Inr event \<Longrightarrow>
    maybe_sample_lag_co S C (ws_last_sample s, bump EVENTS_CONSUMED (ws_world s)) = (q, (l, w)) \<Longrightarrow>
    worker_step S C cfg s (s\<lparr>ws_loop := Sampling m q, ws_last_sample := l, ws_world := w,
      ws_received := ws_received s @ [m]\<rparr>)"
| sample: "ws_loop s = Sampling m (Paused k) \<Longrightarrow> k Proceed (ws_last_sample s, ws_world s) = (q, (l, w)) \<Longrightarrow>
    worker_step S C cfg s (s\<lparr>ws_loop := Sampling m q, ws_last_sample := l, ws_world := w\<rparr>)"
| spawn: "ws_loop s = Sampling m (Done (Inr u)) \<Longrightarrow> 0 < ws_semaphore s \<Longrightarrow>
    worker_step S C cfg s (s\<lparr>ws_loop := Polling, ws_semaphore := ws_semaphore s - 1,
      ws_tasks := ws_tasks s @ [(m, Created)]\<rparr>)"
| sample_failed: "ws_loop s = Sampling m (Done (Inl e)) \<Longrightarrow> worker_step S C cfg s (end_loop S C False e s)"
| undecodable: "ws_loop s = Polling \<Longrightarrow> cr_value (m :: consumer_record) = Inl e \<Longrightarrow> worker_step S C cfg s (end_loop S C False e s)"
| cancel: "ws_loop s = Polling \<or> ws_loop s = Sampling m (Done (Inr ())) \<Longrightarrow>
    worker_step S C cfg s (end_loop S C True CancelledError s)"
| cancel_sampling: "ws_loop s = Sampling m (Paused k) \<Longrightarrow> sig \<noteq> Proceed \<Longrightarrow>
    k sig (ws_last_sample s, ws_world s) = (Done (Inl e), (l, w)) \<Longrightarrow>
    worker_step S C cfg s (end_loop S C True e (s\<lparr>ws_last_sample := l, ws_world := w\<rparr>))"
| end': "ws_loop s = Ending c (Paused k) \<Longrightarrow> k Proceed (ws_world s) = (q, w) \<Longrightarrow>
    worker_step S C cfg s (s\<lparr>ws_loop := Ending c q, ws_world := w\<rparr>)"
| cancel_ending: "ws_loop s = Ending False (Paused k) \<Longrightarrow> sig \<noteq> Proceed \<Longrightarrow> k sig (ws_world s) = (q, w) \<Longrightarrow>
    worker_step S C cfg s (s\<lparr>ws_loop := Ending True q, ws_world := w\<rparr>)"
| wake_main: "ws_loop s = Ending c (Done r) \<Longrightarrow> main_end_co S (ws_world s) = (q, w) \<Longrightarrow>
    worker_step S C cfg s (s\<lparr>ws_loop := Closing q, ws_world := w\<rparr>)"
| close: "ws_loop s = Closing (Paused k) \<Longrightarrow> k Proceed (ws_world s) = (q, w) \<Longrightarrow>
    worker_step S C cfg s (s\<lparr>ws_loop := Closing q, ws_world := w\<rparr>)"
| begin': "\<not> main_returned s \<Longrightarrow> ws_tasks s = pre @ (m, Created) # post \<Longrightarrow>
    task_co S cfg m (ws_world s) = (q, w) \<Longrightarrow>
    worker_step S C cfg s (settle m q pre post (s\<lparr>ws_world := w\<rparr>))"
| resume: "\<not> main_returned s \<Longrightarrow> ws_tasks s = pre @ (m, Running k) # post \<Longrightarrow>
    k Proceed (ws_world s) = (q, w) \<Longrightarrow>
    worker_step S C cfg s (settle m q pre post (s\<lparr>ws_world := w\<rparr>))"
| commit: "\<not> main_returned s \<Longrightarrow> ws_tasks s = pre @ (m, Commit_pending) # post \<Longrightarrow>
    c_commit C (tp_of m) (cr_offset m + 1) (kafka (ws_world s)) = (Inr u, x) \<Longrightarrow>
    worker_step S C cfg s (release_task (pre @ post) (s\<lparr>ws_world := (ws_world s)\<lparr>kafka := x\<rparr>,
      ws_commits := ws_commits s @ [(tp_of m, cr_offset m + 1)]\<rparr>))"
| commit_failed: "\<not> main_returned s \<Longrightarrow> ws_tasks s = pre @ (m, Commit_pending) # post \<Longrightarrow>
    c_commit C (tp_of m) (cr_offset m + 1) (kafka (ws_world s)) = (Inl e, x) \<Longrightarrow>
    worker_step S C cfg s (release_task (pre @ post) (s\<lparr>ws_world := (ws_world s)\<lparr>kafka := x\<rparr>\<rparr>))"
| kill: "main_returned s \<Longrightarrow> ws_tasks s = pre @ (m, Running k) # post \<Longrightarrow> sig \<noteq> Proceed \<Longrightarrow>
    k sig (ws_world s) = (q, w) \<Longrightarrow>
    worker_step S C cfg s (settle m q pre post (s\<lparr>ws_world := w\<rparr>))"
| kill_created: "main_returned s \<Longrightarrow> ws_tasks s = pre @ (m, Created) # post \<Longrightarrow>
    worker_step S C cfg s (s\<lparr>ws_tasks := pre @ post, ws_failed := ws_failed s @ [(m, CancelledError)]\<rparr>)"
| kill_commit: "main_returned s \<Longrightarrow> ws_tasks s = pre @ (m, Commit_pending) # post \<Longrightarrow>
    c_commit C (tp_of m) (cr_offset m + 1) (kafka (ws_world s)) = (r, x) \<Longrightarrow>
    worker_step S C cfg s (release_task (pre @ post)
      (if sent' then s\<lparr>ws_world := (ws_world s)\<lparr>kafka := x\<rparr>\<rparr> else s))"

inductive worker_run :: "('r, 'p, 'k, 'h) services \<Rightarrow> 'k consumer_api \<Rightarrow> worker_settings \<Rightarrow>
    ('r, 'p, 'k, 'h) worker_state \<Rightarrow> nat \<Rightarrow> ('r, 'p, 'k, 'h) worker_state \<Rightarrow> bool"
  for S :: "('r, 'p, 'k, 'h) services" and C :: "'k consumer_api" and cfg :: worker_settings
where
  run_stop: "worker_run S C cfg s 0 s"
| run_step: "worker_run S C cfg s n s1 \<Longrightarrow> worker_step S C cfg s1 s2 \<Longrightarrow> worker_run S C cfg s (Suc n) s2"

lemma worker_run_append: "worker_run S C cfg s2 n s3 \<Longrightarrow> worker_run S C cfg s1 m s2 \<Longrightarrow> worker_run S C cfg s1 (m + n) s3"
  by (induction s2 n s3 rule: worker_run.induct) (auto intro: worker_run.intros)

text \<open>The state in which the loop polls for its first record, to which the start leads if it succeeds.\<close>

definition worker_started :: "worker_settings \<Rightarrow> ('r, 'p, 'k, 'h) world \<Rightarrow> ('r, 'p, 'k, 'h) worker_state" where
  "worker_started cfg w = (worker_init cfg w)\<lparr>ws_loop := Polling\<rparr>"

lemma start_run:
  assumes "k_start (kafka_of S) (dlq_producer_config cfg) (kafka w) = (Inr u, x)" "c_start C (raw_consumer_config cfg) x = (Inr v, y)"
  shows "worker_run S C cfg (worker_init cfg w) (Suc (Suc 0)) (worker_started cfg (w\<lparr>kafka := y\<rparr>))"
proof -
  let ?s = "worker_init cfg w" and ?w = "w\<lparr>kafka := x\<rparr>"
  have "worker_step S C cfg ?s (?s\<lparr>ws_loop := Joining, ws_world := ?w\<rparr>)"
    using worker_step.started [of ?s S cfg u x C] assms(1) by (simp add: worker_init_def)
  moreover have "worker_step S C cfg (?s\<lparr>ws_loop := Joining, ws_world := ?w\<rparr>) (worker_started cfg (w\<lparr>kafka := y\<rparr>))"
    using worker_step.joined [of "?s\<lparr>ws_loop := Joining, ws_world := ?w\<rparr>" C cfg v y S] assms(2)
    by (simp add: worker_init_def worker_started_def)
  ultimately show ?thesis using run_step [OF run_step [OF run_stop]] by blast
qed

section \<open>The account of the records\<close>

fun unsettled :: "consumer_record \<times> ('r, 'p, 'k, 'h) task_phase \<Rightarrow> bool" where
  "unsettled (m, Commit_pending) = False"
| "unsettled (m, _) = True"

text \<open>The records whose processing goes on.\<close>

definition in_flight :: "('r, 'p, 'k, 'h) worker_state \<Rightarrow> consumer_record list" where
  "in_flight s = map fst (filter unsettled (ws_tasks s))"

definition worker_inv :: "worker_settings \<Rightarrow> ('r, 'p, 'k, 'h) worker_state \<Rightarrow> bool" where
  "worker_inv cfg s \<longleftrightarrow>
     0 \<le> ws_semaphore s \<and> ws_semaphore s + int (length (ws_tasks s)) \<le> W_MAX_CONCURRENT_TASKS cfg \<and>
     (\<not> main_returned s \<longrightarrow> ws_semaphore s + int (length (ws_tasks s)) = W_MAX_CONCURRENT_TASKS cfg) \<and>
     (\<forall>m. (m, Commit_pending) \<in> set (ws_tasks s) \<longrightarrow> m \<in> set (ws_processed s)) \<and>
     set (ws_commits s) \<subseteq> commit_of ` set (ws_processed s) \<and>
     mset (ws_received s) = mset (ws_processed s) + mset (map fst (ws_failed s)) + mset (in_flight s)
       + mset (held_record s) + mset (ws_dropped s)"

lemma settle_simps [simp]:
  "ws_loop (settle m q pre post s) = ws_loop s" "ws_world (settle m q pre post s) = ws_world s"
  by (simp_all add: settle_def release_task_def split: pause.split sum.split)

lemma main_returned_simps [simp]:
  "ws_loop s = Closing (Done r) \<Longrightarrow> main_returned s" "ws_loop s = Polling \<Longrightarrow> \<not> main_returned s"
  "ws_loop s = Sampling m q' \<Longrightarrow> \<not> main_returned s" "ws_loop s = Closing (Paused k) \<Longrightarrow> \<not> main_returned s"
  "main_returned (settle m q pre post t) = main_returned t"
  "ws_loop s = Starting \<Longrightarrow> \<not> main_returned s" "ws_loop s = Joining \<Longrightarrow> \<not> main_returned s"
  "ws_loop s = Ending c q \<Longrightarrow> \<not> main_returned s"
  by (simp_all add: main_returned_def)

lemma settle_inv:
  assumes "worker_inv cfg s" "ws_tasks s = pre @ (m, t) # post" "t \<noteq> Commit_pending"
  shows "worker_inv cfg (settle m q pre post (s\<lparr>ws_world := w\<rparr>))"
proof -
  have u: "unsettled (m, t)" using assms(3) by (cases t) simp_all
  have loop: "main_returned (s\<lparr>ws_world := w\<rparr>) = main_returned s" by (simp add: main_returned_def)
  show ?thesis
  proof (cases q)
    case (Paused k)
    with assms(1,2) u show ?thesis
      by (auto simp: worker_inv_def settle_def in_flight_def held_record_def main_returned_def)
  next
    case (Done r)
    show ?thesis
    proof (cases r)
      case (Inl e)
      with Done assms(1,2) u show ?thesis
        by (auto simp: worker_inv_def settle_def release_task_def in_flight_def held_record_def main_returned_def)
    next
      case (Inr v)
      with Done assms(1,2) u show ?thesis
        by (auto simp: worker_inv_def settle_def in_flight_def held_record_def main_returned_def)
    qed
  qed
qed

lemma world_update_simps [simp]:
  "main_returned (s\<lparr>ws_world := w\<rparr>) = main_returned s" "held_record (s\<lparr>ws_world := w\<rparr>) = held_record s"
  "in_flight (s\<lparr>ws_world := w\<rparr>) = in_flight s" "worker_inv cfg (s\<lparr>ws_world := w\<rparr>) = worker_inv cfg s"
  by (simp_all add: main_returned_def held_record_def in_flight_def worker_inv_def)

lemma end_loop_inv:
  assumes "worker_inv cfg s" "\<not> main_returned s"
  shows "worker_inv cfg (end_loop S C c e s)"
  using assms by (auto simp: worker_inv_def end_loop_def in_flight_def held_record_def split: prod.split)

lemma worker_step_inv:
  assumes "worker_step S C cfg s s'" "worker_inv cfg s" shows "worker_inv cfg s'"
  using assms(1)
proof (cases rule: worker_step.cases)
  case (receive m event q l w)
  then show ?thesis using assms(2) by (auto simp: worker_inv_def in_flight_def held_record_def main_returned_def)
next
  case (sample m k q l w)
  then show ?thesis using assms(2) by (auto simp: worker_inv_def in_flight_def held_record_def main_returned_def)
next
  case (spawn m u)
  then show ?thesis using assms(2) by (auto simp: worker_inv_def in_flight_def held_record_def main_returned_def)
next
  case (join_failed e x)
  then have "\<not> main_returned s" by simp
  then show ?thesis unfolding join_failed(1) by (intro end_loop_inv) (simp_all add: assms(2))
next
  case (cancel_join r x sent')
  then have "\<not> main_returned s" by simp
  then show ?thesis unfolding cancel_join(1) by (intro end_loop_inv) (simp_all add: assms(2))
next
  case (sample_failed m e)
  then have "\<not> main_returned s" by simp
  then show ?thesis unfolding sample_failed(1) by (rule end_loop_inv [OF assms(2)])
next
  case (undecodable m e)
  then have "\<not> main_returned s" by simp
  then show ?thesis unfolding undecodable(1) by (rule end_loop_inv [OF assms(2)])
next
  case (cancel m)
  then have "\<not> main_returned s" by auto
  then show ?thesis unfolding cancel(1) by (rule end_loop_inv [OF assms(2)])
next
  case (cancel_sampling m k sig e l w)
  have "worker_inv cfg (s\<lparr>ws_last_sample := l, ws_world := w\<rparr>)" "\<not> main_returned (s\<lparr>ws_last_sample := l, ws_world := w\<rparr>)"
    using assms(2) cancel_sampling(2)
    by (auto simp: worker_inv_def in_flight_def held_record_def main_returned_def)
  then show ?thesis unfolding cancel_sampling(1) by (rule end_loop_inv)
next
  case (close k q w)
  then show ?thesis using assms(2)
    by (auto simp: worker_inv_def in_flight_def held_record_def main_returned_def)
next
  case (end' c k q w)
  then show ?thesis using assms(2)
    by (auto simp: worker_inv_def in_flight_def held_record_def main_returned_def)
next
  case (cancel_ending k sig q w)
  then show ?thesis using assms(2)
    by (auto simp: worker_inv_def in_flight_def held_record_def main_returned_def)
next
  case (wake_main c r q w)
  then show ?thesis using assms(2)
    by (auto simp: worker_inv_def in_flight_def held_record_def main_returned_def)
next
  case (begin' pre m post q w)
  then show ?thesis using settle_inv [OF assms(2) begin'(3)] by simp
next
  case (resume pre m k post q w)
  then show ?thesis using settle_inv [OF assms(2) resume(3)] by simp
next
  case (kill pre m k post sig q w)
  then show ?thesis using settle_inv [OF assms(2) kill(3)] by simp
qed (use assms(2) in \<open>auto simp: worker_inv_def release_task_def in_flight_def held_record_def
      main_returned_def image_iff commit_of_def\<close>)

lemma worker_run_inv:
  assumes "0 \<le> W_MAX_CONCURRENT_TASKS cfg" "worker_run S C cfg (worker_init cfg w0) n s"
  shows "worker_inv cfg s"
  using assms(2)
proof (induction "worker_init cfg w0" n s rule: worker_run.induct)
  case run_stop
  show ?case using assms(1) by (simp add: worker_inv_def worker_init_def in_flight_def held_record_def)
next
  case (run_step n s1 s2)
  then show ?case by (blast intro: worker_step_inv)
qed

section \<open>The coroutines of a state\<close>

text \<open>A predicate on coroutines that holds of every task as it begins and is kept as it goes on holds of
  the tasks of every state.\<close>

definition tasks_all :: "(consumer_record \<Rightarrow> (('r, 'p, 'k, 'h) world, unit) pause \<Rightarrow> bool) \<Rightarrow>
    ('r, 'p, 'k, 'h) worker_state \<Rightarrow> bool" where
  "tasks_all P s \<longleftrightarrow> (\<forall>m k. (m, Running k) \<in> set (ws_tasks s) \<longrightarrow> P m (Paused k))"

lemma tasks_all_settle:
  "tasks_all P s \<Longrightarrow> ws_tasks s = pre @ t # post \<Longrightarrow> P m q \<Longrightarrow> tasks_all P (settle m q pre post (s\<lparr>ws_world := w\<rparr>))"
  by (auto simp: tasks_all_def settle_def release_task_def split: pause.split sum.split)

lemma tasks_all_step:
  assumes "worker_step S C cfg s s'" "tasks_all P s"
    and "\<And>m w. P m (fst (task_co S cfg m w))" "\<And>m k sig w. P m (Paused k) \<Longrightarrow> P m (fst (k sig w))"
  shows "tasks_all P s'"
  using assms(1)
proof (cases rule: worker_step.cases)
  case (begin' pre m post q w)
  with assms(3) [of m "ws_world s"] tasks_all_settle [OF assms(2) begin'(3)] show ?thesis by simp
next
  case (resume pre m k post q w)
  then have "P m (Paused k)" using assms(2) by (auto simp: tasks_all_def)
  with assms(4) [of m k Proceed "ws_world s"] resume tasks_all_settle [OF assms(2) resume(3)] show ?thesis by simp
next
  case (kill pre m k post sig q w)
  then have "P m (Paused k)" using assms(2) by (auto simp: tasks_all_def)
  with assms(4) [of m k sig "ws_world s"] kill tasks_all_settle [OF assms(2) kill(3)] show ?thesis by simp
qed (use assms(2) in \<open>auto simp: tasks_all_def release_task_def end_loop_def split: prod.splits\<close>)

lemma tasks_all_run:
  assumes "worker_run S C cfg (worker_init cfg w0) n s"
    and "\<And>m w. P m (fst (task_co S cfg m w))" "\<And>m k sig w. P m (Paused k) \<Longrightarrow> P m (fst (k sig w))"
  shows "tasks_all P s"
  using assms(1)
proof (induction "worker_init cfg w0" n s rule: worker_run.induct)
  case run_stop
  show ?case by (simp add: tasks_all_def worker_init_def)
next
  case (run_step n s1 s2)
  with tasks_all_step [of S C cfg s1 s2 P] assms(2,3) show ?case by blast
qed

text \<open>The same of the coroutines of the loop: \<open>P\<close> of the sampling, \<open>Q\<close> of the two ends.\<close>

definition loop_all :: "((rat \<times> ('r, 'p, 'k, 'h) world, unit) pause \<Rightarrow> bool) \<Rightarrow>
    ((('r, 'p, 'k, 'h) world, unit) pause \<Rightarrow> bool) \<Rightarrow> ('r, 'p, 'k, 'h) worker_state \<Rightarrow> bool" where
  "loop_all P Q s \<longleftrightarrow> (\<forall>m q. ws_loop s = Sampling m q \<longrightarrow> P q) \<and> (\<forall>c q. ws_loop s = Ending c q \<or> ws_loop s = Closing q \<longrightarrow> Q q)"

lemma loop_all_run:
  assumes "worker_run S C cfg (worker_init cfg w0) n s"
    and "\<And>t. P (fst (maybe_sample_lag_co S C t))" "\<And>k sig t. P (Paused k) \<Longrightarrow> P (fst (k sig t))"
    and "\<And>e w. Q (fst (loop_end_co S C e w))" "\<And>w. Q (fst (main_end_co S w))"
      "\<And>k sig w. Q (Paused k) \<Longrightarrow> Q (fst (k sig w))" "\<And>r. Q (Done r)"
  shows "loop_all P Q s"
  using assms(1)
proof (induction "worker_init cfg w0" n s rule: worker_run.induct)
  case run_stop
  show ?case by (simp add: loop_all_def worker_init_def)
next
  case (run_step n s1 s2)
  have ended: "loop_all P Q (end_loop S C c e t)" for c e t
    using assms(4) [of e "ws_world t"] by (auto simp: loop_all_def end_loop_def split: prod.split)
  from run_step(3) show ?case
  proof (cases rule: worker_step.cases)
    case (receive m event q l w)
    then show ?thesis using assms(2) [of "(ws_last_sample s1, bump EVENTS_CONSUMED (ws_world s1))"]
      by (auto simp: loop_all_def)
  next
    case (sample m k q l w)
    then have "P (Paused k)" using run_step(2) by (simp add: loop_all_def)
    with sample assms(3) [of k Proceed "(ws_last_sample s1, ws_world s1)"] show ?thesis
      by (auto simp: loop_all_def)
  next
    case (close k q w)
    then have "Q (Paused k)" using run_step(2) by (simp add: loop_all_def)
    with close assms(6) [of k Proceed "ws_world s1"] show ?thesis by (auto simp: loop_all_def)
  next
    case (end' c k q w)
    then have "Q (Paused k)" using run_step(2) by (simp add: loop_all_def)
    with end' assms(6) [of k Proceed "ws_world s1"] show ?thesis by (auto simp: loop_all_def)
  next
    case (cancel_ending k sig q w)
    then have "Q (Paused k)" using run_step(2) unfolding loop_all_def by blast
    with cancel_ending assms(6) [of k sig "ws_world s1"] show ?thesis by (auto simp: loop_all_def)
  next
    case (wake_main c r q w)
    with assms(5) [of "ws_world s1"] show ?thesis by (auto simp: loop_all_def)
  qed (use run_step(2) ended assms(7) in \<open>auto simp: loop_all_def release_task_def split: if_splits\<close>)
qed

end
