(* ===== verification/Worker_End.thy ===== *)
theory Worker_End
  imports Worker_Process
begin

text \<open>
  How the worker process ends. When the consume loop has ended, every way to go on is short and leads
  to the end (\<open>shutdown_terminates\<close>); what all steps of the process keep follows from what the
  coroutines do between their awaits (\<open>worker_step_leads\<close>), such as the constraints of the schema; and
  a task that is in flight when \<open>main\<close> has returned is killed where it is, while its claim stays
  (\<open>shutdown_loses_claimed_event\<close>).
\<close>

section \<open>The end comes\<close>

text \<open>How many steps the tasks and the closing can still take.\<close>

fun task_fits :: "worker_settings \<Rightarrow> nat \<Rightarrow> ('r, 'p, 'k, 'h) task_phase \<Rightarrow> bool" where
  "task_fits cfg n Created \<longleftrightarrow> max_pauses cfg + 2 \<le> n"
| "task_fits cfg n (Running k) \<longleftrightarrow> (\<exists>j. pause_within j (Paused k) \<and> j + 1 \<le> n)"
| "task_fits cfg n Commit_pending \<longleftrightarrow> 1 \<le> n"

fun loop_fits :: "nat \<Rightarrow> ('r, 'p, 'k, 'h) loop_phase \<Rightarrow> bool" where
  "loop_fits n (Ending c q) \<longleftrightarrow> (\<exists>j. pause_within j q \<and> j + 3 \<le> n)"
| "loop_fits n (Closing q) \<longleftrightarrow> pause_within n q"
| "loop_fits n _ \<longleftrightarrow> False"

definition loop_ended :: "('r, 'p, 'k, 'h) worker_state \<Rightarrow> bool" where
  "loop_ended s \<longleftrightarrow> (case ws_loop s of Ending c q \<Rightarrow> True | Closing q \<Rightarrow> True | _ \<Rightarrow> False)"

definition ends_in :: "worker_settings \<Rightarrow> nat \<Rightarrow> ('r, 'p, 'k, 'h) worker_state \<Rightarrow> bool" where
  "ends_in cfg n s \<longleftrightarrow> (\<exists>ns j. list_all2 (task_fits cfg) ns (map snd (ws_tasks s)) \<and>
     loop_fits j (ws_loop s) \<and> sum_list ns + j \<le> n)"

lemma within_task: "pause_within (max_pauses cfg) (fst (task_co S cfg m w))"
proof (cases "cr_value m")
  case (Inl e)
  then show ?thesis by (simp add: task_co_def sync_def raise_def within_Done)
next
  case (Inr ev)
  with within_process [of cfg S ev "Some (cr_partition m)" "Some (cr_offset m)"] show ?thesis
    by (simp add: task_co_def ends_within_def)
qed

lemma ends_in_split:
  assumes "ends_in cfg n s" "ws_tasks s = pre @ (m, t) # post"
  obtains as b cs j where "list_all2 (task_fits cfg) as (map snd pre)" "task_fits cfg b t"
    "list_all2 (task_fits cfg) cs (map snd post)" "loop_fits j (ws_loop s)"
    "sum_list as + b + sum_list cs + j \<le> n"
  using assms by (auto simp: ends_in_def list_all2_append2 list_all2_Cons2)

lemma ends_in_join:
  assumes "list_all2 (task_fits cfg) as (map snd pre)" "list_all2 (task_fits cfg) cs (map snd post)"
    "loop_fits j (ws_loop s)" "sum_list as + b + sum_list cs + j \<le> n"
  shows "ws_tasks s = pre @ post \<Longrightarrow> ends_in cfg n s"
    "ws_tasks s = pre @ (m, t) # post \<Longrightarrow> task_fits cfg b t \<Longrightarrow> ends_in cfg n s"
proof -
  assume "ws_tasks s = pre @ post"
  with assms list_all2_appendI [OF assms(1,2)] show "ends_in cfg n s"
    unfolding ends_in_def by (intro exI [of _ "as @ cs"] exI [of _ j]) simp
next
  assume "ws_tasks s = pre @ (m, t) # post" "task_fits cfg b t"
  with assms show "ends_in cfg n s"
    unfolding ends_in_def
    by (intro exI [of _ "as @ b # cs"] exI [of _ j]) (simp add: list_all2_appendI)
qed

lemma settle_ends_in:
  assumes "ends_in cfg n s" "ws_tasks s = pre @ (m, t) # post"
    and "\<And>b. task_fits cfg b t \<Longrightarrow> \<exists>j. pause_within j p \<and> j + 2 \<le> b"
  shows "\<exists>n'<n. ends_in cfg n' (settle m p pre post (s\<lparr>ws_world := w\<rparr>))"
proof -
  from assms(1,2) obtain as b cs j where f: "list_all2 (task_fits cfg) as (map snd pre)"
    "list_all2 (task_fits cfg) cs (map snd post)" "loop_fits j (ws_loop s)"
    and b: "task_fits cfg b t" and sum: "sum_list as + b + sum_list cs + j \<le> n"
    by (rule ends_in_split)
  from assms(3) [OF b] obtain i where i: "pause_within i p" "i + 2 \<le> b" by blast
  let ?s = "settle m p pre post (s\<lparr>ws_world := w\<rparr>)"
  have less: "n - 1 < n" "sum_list as + (b - 1) + sum_list cs + j \<le> n - 1" using sum i(2) by simp_all
  note join = ends_in_join [OF f(1,2) _ less(2), of ?s]
  have loop: "loop_fits j (ws_loop ?s)" using f(3) by simp
  have "ends_in cfg (n - 1) ?s"
  proof (cases p)
    case (Paused k)
    then have "task_fits cfg (b - 1) (Running k)" using i by fastforce
    with join(2) [OF loop] show ?thesis by (simp add: settle_def Paused)
  next
    case (Done r)
    have "task_fits cfg (b - 1) Commit_pending" using i(2) by simp
    with join [OF loop] show ?thesis
      by (cases r) (simp_all add: settle_def release_task_def Done)
  qed
  with less(1) show ?thesis by blast
qed

lemma ends_in_drop:
  assumes "ends_in cfg n s" "ws_tasks s = pre @ (m, t) # post"
    and "ws_tasks s' = pre @ post" "ws_loop s' = ws_loop s"
  shows "\<exists>n'<n. ends_in cfg n' s'"
proof -
  from assms(1,2) obtain as b cs j where f: "list_all2 (task_fits cfg) as (map snd pre)"
    "list_all2 (task_fits cfg) cs (map snd post)" "loop_fits j (ws_loop s)"
    and b: "task_fits cfg b t" and sum: "sum_list as + b + sum_list cs + j \<le> n"
    by (rule ends_in_split)
  from b have "0 < b" by (cases t) auto
  then have "n - 1 < n" "sum_list as + 0 + sum_list cs + j \<le> n - 1" using sum by simp_all
  with ends_in_join(1) [OF f(1,2), of j s' 0 "n - 1"] f(3) assms(3,4) show ?thesis by auto
qed

lemma loop_ends_in:
  assumes "ends_in cfg n s" "ws_tasks s' = ws_tasks s"
    and "\<And>j. loop_fits j (ws_loop s) \<Longrightarrow> \<exists>i<j. loop_fits i (ws_loop s')"
  shows "\<exists>n'<n. ends_in cfg n' s'"
proof -
  from assms(1) obtain ns j where f: "list_all2 (task_fits cfg) ns (map snd (ws_tasks s))" "loop_fits j (ws_loop s)"
    "sum_list ns + j \<le> n" by (auto simp: ends_in_def)
  from assms(3) [OF f(2)] obtain i where "i < j" "loop_fits i (ws_loop s')" by blast
  with f(1,3) assms(2) show ?thesis
    unfolding ends_in_def by (intro exI [of _ "sum_list ns + i"] conjI exI [of _ ns] exI [of _ i]) simp_all
qed

lemma ending_fits:
  assumes "loop_fits j (Ending c (Paused k))" "k sig w = (q, w')" shows "\<exists>i<j. loop_fits i (Ending c' q)"
proof -
  from assms(1) obtain i where i: "pause_within i (Paused k)" "i + 3 \<le> j" by auto
  from i(1) obtain i' where "i = Suc i'" "pause_within i' (fst (k sig w))" by (auto elim: within_PausedE)
  with assms(2) i(2) show ?thesis by (intro exI [of _ "i' + 3"]) auto
qed

lemma within_main_end: "ends_within 2 (main_end_co S)"
  unfolding main_end_co_def close_pool_co_def by (rule ends_within_mono, (rule within_intros)+, simp)

lemma within_loop_end: "ends_within 2 (loop_end_co S C e)"
  unfolding loop_end_co_def by (rule ends_within_mono, (rule within_intros)+, simp)

text \<open>Every step brings the end closer.\<close>

lemma ends_in_step:
  assumes "worker_step S C cfg s s'" "ends_in cfg n s" shows "\<exists>n'<n. ends_in cfg n' s'"
proof -
  obtain j where loop: "loop_fits j (ws_loop s)" using assms(2) by (auto simp: ends_in_def)
  from assms(1) show ?thesis
  proof (cases rule: worker_step.cases)
    case (close k q w)
    have "\<exists>i<j. loop_fits i (Closing q)" if "loop_fits j (Closing (Paused k))" for j
      using that close(3) by (auto elim!: within_PausedE) (metis fst_conv lessI)
    then show ?thesis using close(1,2) by (intro loop_ends_in [OF assms(2)]) simp_all
  next
    case (end' c k q w)
    then show ?thesis using ending_fits [where k = k, OF _ end'(3)] by (intro loop_ends_in [OF assms(2)]) simp_all
  next
    case (cancel_ending k sig q w)
    then show ?thesis using ending_fits [where k = k, OF _ cancel_ending(4)] by (intro loop_ends_in [OF assms(2)]) simp_all
  next
    case (wake_main c r q w)
    have "pause_within 2 q" using within_main_end [of S] wake_main(3) by (auto simp: ends_within_def) (metis fst_conv)
    then have "\<exists>i<j. loop_fits i (Closing q)" if "loop_fits j (Ending c (Done r))" for j
      using that by (intro exI [of _ 2]) auto
    then show ?thesis using wake_main(1,2) by (intro loop_ends_in [OF assms(2)]) simp_all
  next
    case (begin' pre m post q w)
    have "pause_within (max_pauses cfg) q" using within_task [of cfg S m "ws_world s"] begin'(4) by simp
    then show ?thesis
      unfolding begin'(1) by (intro settle_ends_in [OF assms(2) begin'(3)]) auto
  next
    case (resume pre m k post q w)
    have "\<exists>j. pause_within j q \<and> j + 2 \<le> b" if "task_fits cfg b (Running k)" for b
      using that resume(4) by (auto elim!: within_PausedE) (metis fst_conv)
    then show ?thesis unfolding resume(1) by (intro settle_ends_in [OF assms(2) resume(3)])
  next
    case (kill pre m k post sig q w)
    have "\<exists>j. pause_within j q \<and> j + 2 \<le> b" if "task_fits cfg b (Running k)" for b
      using that kill(5) by (auto elim!: within_PausedE) (metis fst_conv)
    then show ?thesis unfolding kill(1) by (intro settle_ends_in [OF assms(2) kill(3)])
  next
    case (kill_created pre m post)
    then show ?thesis by (intro ends_in_drop [OF assms(2) kill_created(3)]) simp_all
  next
    case (commit pre m post x)
    then show ?thesis by (intro ends_in_drop [OF assms(2) commit(3)]) (simp_all add: release_task_def)
  next
    case (commit_failed pre m post e x)
    then show ?thesis by (intro ends_in_drop [OF assms(2) commit_failed(3)]) (simp_all add: release_task_def)
  next
    case (kill_commit pre m post r x sent')
    then show ?thesis by (intro ends_in_drop [OF assms(2) kill_commit(3)]) (simp_all add: release_task_def)
  qed (use loop in auto)
qed

lemma ends_in_run:
  "worker_run S C cfg s m s' \<Longrightarrow> ends_in cfg n s \<Longrightarrow> m \<le> n \<and> ends_in cfg (n - m) s'"
proof (induction s m s' rule: worker_run.induct)
  case (run_step s m s1 s2)
  then have m: "m \<le> n" "ends_in cfg (n - m) s1" by auto
  from ends_in_step [OF run_step(2) m(2)] obtain i where "i < n - m" "ends_in cfg i s2" by blast
  moreover from this have "ends_in cfg (n - Suc m) s2"
    unfolding ends_in_def by (elim exE conjE, intro exI conjI) (assumption+, simp)
  ultimately show ?case using m(1) by simp
qed simp

lemma within_goes_on: "pause_within n (Paused k) \<Longrightarrow> pause_within n (fst (k sig w))"
  by (auto elim!: within_PausedE intro: pause_within_mono [OF _ le_SucI [OF order_refl]])

text \<open>A task, wherever it is, and the closing of the process end after so many awaits.\<close>

lemma tasks_within:
  assumes "worker_run S C cfg (worker_init cfg w0) n s"
  shows "tasks_all (\<lambda>m. pause_within (max_pauses cfg)) s"
proof (rule tasks_all_run [where P = "\<lambda>m. pause_within (max_pauses cfg)", OF assms])
  show "pause_within (max_pauses cfg) (fst (task_co S cfg m w))" for m w by (rule within_task)
  show "pause_within (max_pauses cfg) (fst (k sig w))" if "pause_within (max_pauses cfg) (Paused k)"
    for k :: "signal \<Rightarrow> ('r, 'p, 'k, 'h) world \<Rightarrow> (('r, 'p, 'k, 'h) world, unit) pause \<times> ('r, 'p, 'k, 'h) world"
      and sig w
    using that by (rule within_goes_on)
qed

lemma loop_within:
  assumes "worker_run S C cfg (worker_init cfg w0) n s" "loop_ended s" shows "loop_fits 5 (ws_loop s)"
proof -
  have "loop_all (\<lambda>_. True) (pause_within 2) s"
  proof (rule loop_all_run [OF assms(1)])
    show "pause_within 2 (fst (loop_end_co S C e w))" "pause_within 2 (fst (main_end_co S w))" for e w
      using within_loop_end [of S C e] within_main_end [of S] by (simp_all add: ends_within_def)
    show "pause_within 2 (fst (k sig w))" if "pause_within 2 (Paused k)"
      for k :: "signal \<Rightarrow> ('r, 'p, 'k, 'h) world \<Rightarrow> (('r, 'p, 'k, 'h) world, unit) pause \<times> ('r, 'p, 'k, 'h) world"
        and sig w
      using that by (rule within_goes_on)
  qed (simp_all add: within_Done)
  with assms(2) show ?thesis
    by (cases "ws_loop s") (auto simp: loop_all_def loop_ended_def intro: pause_within_mono)
qed

lemma list_all2_replicate: "list_all2 P (replicate (length xs) n) xs \<longleftrightarrow> (\<forall>x\<in>set xs. P n x)"
  by (induction xs) auto

lemma reachable_ends_in:
  assumes "0 \<le> W_MAX_CONCURRENT_TASKS cfg" "worker_run S C cfg (worker_init cfg w0) n s" "loop_ended s"
  shows "ends_in cfg (nat (W_MAX_CONCURRENT_TASKS cfg) * (max_pauses cfg + 2) + 5) s"
proof -
  let ?b = "max_pauses cfg + 2" and ?ts = "map snd (ws_tasks s)"
  have "task_fits cfg ?b t" if "t \<in> set ?ts" for t
  proof (cases t)
    case (Running k)
    with that have "pause_within (max_pauses cfg) (Paused k)"
      using tasks_within [OF assms(2)] by (auto simp: tasks_all_def)
    with Running show ?thesis by auto
  qed simp_all
  then have "list_all2 (task_fits cfg) (replicate (length ?ts) ?b) ?ts"
    by (simp add: list_all2_replicate del: length_map)
  moreover have "length ?ts \<le> nat (W_MAX_CONCURRENT_TASKS cfg)"
    using worker_run_inv [OF assms(1,2)] by (simp add: worker_inv_def) linarith
  then have "sum_list (replicate (length ?ts) ?b) + 5 \<le> nat (W_MAX_CONCURRENT_TASKS cfg) * ?b + 5"
    unfolding sum_list_replicate by (intro add_right_mono mult_right_mono) simp_all
  ultimately show ?thesis unfolding ends_in_def using loop_within [OF assms(2,3)] by blast
qed

text \<open>Something can go on until nothing is left.\<close>

lemma ended_goes_on:
  assumes "loop_ended s"
  shows "(main_returned s \<and> ws_tasks s = []) \<or> (\<exists>s'. worker_step S C cfg s s')"
proof (cases "ws_tasks s")
  case Nil
  show ?thesis
  proof (cases "ws_loop s")
    case (Ending c q)
    show ?thesis
    proof (cases q)
      case (Done r)
      with Ending show ?thesis using worker_step.wake_main [of s c r] surjective_pairing by metis
    next
      case (Paused k)
      with Ending show ?thesis using worker_step.end' [of s c k] surjective_pairing by metis
    qed
  next
    case (Closing q)
    show ?thesis
    proof (cases q)
      case (Done r)
      with Closing Nil show ?thesis by simp
    next
      case (Paused k)
      with Closing show ?thesis using worker_step.close [of s k] surjective_pairing by metis
    qed
  qed (use assms in \<open>simp_all add: loop_ended_def\<close>)
next
  case (Cons t post)
  then have ts: "ws_tasks s = [] @ (fst t, snd t) # post" by simp
  show ?thesis
  proof (cases "main_returned s")
    case True
    show ?thesis
    proof (cases "snd t")
      case Created
      then show ?thesis using ts worker_step.kill_created [OF True] by metis
    next
      case (Running k)
      obtain q w where "k Abort_unsent (ws_world s) = (q, w)" by (metis surj_pair)
      then show ?thesis using ts Running worker_step.kill [OF True, of "[]" "fst t" k post Abort_unsent] by simp blast
    next
      case Commit_pending
      obtain r x where "c_commit C (tp_of (fst t)) (cr_offset (fst t) + 1) (kafka (ws_world s)) = (r, x)"
        by (metis surj_pair)
      then show ?thesis using ts Commit_pending worker_step.kill_commit [OF True, of "[]" "fst t" post] by simp blast
    qed
  next
    case False
    show ?thesis
    proof (cases "snd t")
      case Created
      obtain q w where "task_co S cfg (fst t) (ws_world s) = (q, w)" by (metis surj_pair)
      then show ?thesis using ts Created worker_step.begin' [OF False, of "[]" "fst t" post] by simp blast
    next
      case (Running k)
      obtain q w where "k Proceed (ws_world s) = (q, w)" by (metis surj_pair)
      then show ?thesis using ts Running worker_step.resume [OF False, of "[]" "fst t" k post] by simp blast
    next
      case Commit_pending
      obtain r x where "c_commit C (tp_of (fst t)) (cr_offset (fst t) + 1) (kafka (ws_world s)) = (r, x)"
        by (metis surj_pair)
      then show ?thesis
        using ts Commit_pending worker_step.commit [OF False, of "[]" "fst t" post]
          worker_step.commit_failed [OF False, of "[]" "fst t" post]
        by (cases r) (simp, blast)+
    qed
  qed
qed

text \<open>C9: The worker shuts down. When the consume loop has ended, by the stop signal or by an exception,
  every way in which the process can go on, in whatever order its tasks run and whatever the services
  answer, has at most so many steps as the tasks, of which there are at most \<open>MAX_CONCURRENT_TASKS\<close>, and
  the closing have awaits, and a step is possible until \<open>main\<close> has returned and no task is left. (That
  an await is answered at all is what a step says.)\<close>

theorem shutdown_terminates:
  assumes "0 \<le> W_MAX_CONCURRENT_TASKS cfg" "worker_run S C cfg (worker_init cfg w0) n s"
    and "loop_ended s" "worker_run S C cfg s m s'"
  shows "m \<le> nat (W_MAX_CONCURRENT_TASKS cfg) * (2 * nat (W_RETRY_MAX_ATTEMPTS cfg) + 10) + 5 \<and>
    ((main_returned s' \<and> ws_tasks s' = []) \<or> (\<exists>s''. worker_step S C cfg s' s''))"
proof -
  have "ends_in cfg (nat (W_MAX_CONCURRENT_TASKS cfg) * (max_pauses cfg + 2) + 5) s"
    by (rule reachable_ends_in [OF assms(1-3)])
  from ends_in_run [OF assms(4) this] obtain j where "loop_fits j (ws_loop s')"
    and "m \<le> nat (W_MAX_CONCURRENT_TASKS cfg) * (max_pauses cfg + 2) + 5" by (auto simp: ends_in_def)
  moreover from this(1) have "loop_ended s'" by (cases "ws_loop s'") (simp_all add: loop_ended_def)
  ultimately show ?thesis using ended_goes_on [of s' S C cfg] by (simp add: max_pauses_def add.commute)
qed

text \<open>With the default settings, after a stop signal while the worker starts: 1005 steps.\<close>

theorem shutdown_terminates_witness:
  "\<nexists>m s'. 1005 < m \<and> worker_run good_worker ref_consumer worker_defaults
     ((worker_init worker_defaults worker_world)\<lparr>ws_loop := Ending True (Done (Inl CancelledError))\<rparr>) m s'"
proof
  let ?init = "worker_init worker_defaults worker_world"
  let ?s = "?init\<lparr>ws_loop := Ending True (Done (Inl CancelledError))\<rparr>"
  assume "\<exists>m s'. 1005 < m \<and> worker_run good_worker ref_consumer worker_defaults ?s m s'"
  then obtain m s' where m: "1005 < m" "worker_run good_worker ref_consumer worker_defaults ?s m s'" by blast
  obtain r x where x: "k_start (kafka_of good_worker) (dlq_producer_config worker_defaults) (kafka (ws_world ?init)) = (r, x)"
    by (metis surj_pair)
  have "worker_step good_worker ref_consumer worker_defaults ?init ?s"
    using worker_step.cancel_start [OF _ x, where sent' = False] by (simp add: worker_init_def)
  then have run: "worker_run good_worker ref_consumer worker_defaults ?init (Suc 0) ?s"
    by (rule worker_run.run_step [OF worker_run.run_stop])
  have "loop_ended ?s" by (simp add: loop_ended_def)
  from shutdown_terminates [OF _ run this m(2)] m(1) show False by (simp add: worker_defaults_def)
qed

section \<open>What all steps keep\<close>

text \<open>A relation that the calls of the loop and of the closing respect, and the counter and the gauge of
  the loop.\<close>

locale loop_frame =
  fixes S :: "('r, 'p, 'k, 'h) services"
    and R :: "('r, 'p, 'k, 'h) world \<Rightarrow> ('r, 'p, 'k, 'h) world \<Rightarrow> bool"
    and C :: "'k consumer_api"
  assumes loop_pre [leads_intros]: "preorder_rel R"
    and loop_metrics [leads_intros]: "leads R (inc EVENTS_CONSUMED)" "leads R (set_gauge g v)"
    and loop_calls [leads_intros]:
      "leads R (ask_host (h_monotonic (host_of S)))"
      "leads R (on_kafka (k_start (kafka_of S) pc))" "leads R (on_kafka (c_start C cc))"
      "leads R (on_kafka (c_stop C))" "leads R (on_kafka (c_end_offsets C tps))"
      "leads R (on_kafka (c_committed C tp))" "leads R (on_kafka (c_commit C tp n))"
      "leads R (on_kafka (k_stop (kafka_of S)))" "leads R (on_pg (pg_close_pool (pg_of S)))"
      "leads R (on_redis (r_close (redis_of S)))"
begin

lemmas loop_refl = preorder_relD(1) [OF loop_pre]
lemmas loop_trans = preorder_relD(2) [OF loop_pre]

lemma sampling_leads: "co_leads (on_snd R) (maybe_sample_lag_co S C)"
proof -
  have "co_leads R (sample_each_co C ends)" for ends
    by (induction ends) (auto intro!: leads_intros)
  then show ?thesis unfolding maybe_sample_lag_co_def by (intro leads_intros) (auto simp: on_snd_def intro!: leads_intros)
qed

lemma ends_lead: "co_leads R (loop_end_co S C e)" "co_leads R (main_end_co S)"
  unfolding main_end_co_def loop_end_co_def close_pool_co_def by (intro leads_intros)+

lemma kafka_leads:
  assumes "leads R (on_kafka m)" "m (kafka w) = (r, x)"
  shows "R w (w\<lparr>kafka := x\<rparr>)" "R w (if sent' then w\<lparr>kafka := x\<rparr> else w)"
proof -
  have "on_kafka m w = (r, w\<lparr>kafka := x\<rparr>)" using assms(2) by (simp add: on_kafka_def)
  with leadsD [OF assms(1)] show "R w (w\<lparr>kafka := x\<rparr>)" .
  then show "R w (if sent' then w\<lparr>kafka := x\<rparr> else w)" by (simp add: loop_refl)
qed

abbreviation loop_kept :: "('r, 'p, 'k, 'h) worker_state \<Rightarrow> bool" where
  "loop_kept \<equiv> loop_all (pause_leads (on_snd R)) (pause_leads R)"

lemma loop_kept_run: "worker_run S C cfg (worker_init cfg w0) n s \<Longrightarrow> loop_kept s"
  by (rule loop_all_run)
     (use sampling_leads ends_lead in \<open>auto simp: co_leads_def elim!: leads_PausedE intro: leads_Done\<close>)

lemma end_loop_leads: "R (ws_world s) (ws_world (end_loop S C c e s))"
  using ends_lead(1) [of e] by (auto simp: end_loop_def co_leads_def split: prod.split) (metis snd_conv)

lemma receive_leads:
  assumes "maybe_sample_lag_co S C (l, bump EVENTS_CONSUMED w) = (q, (l', w'))" shows "R w w'"
proof -
  have "R w (bump EVENTS_CONSUMED w)" using loop_metrics(1) by (auto simp: leads_def inc_def modify_def)
  moreover have "R (bump EVENTS_CONSUMED w) w'"
    using sampling_leads assms by (auto simp: co_leads_def on_snd_def) (metis snd_conv)
  ultimately show ?thesis by (rule loop_trans)
qed

lemma sample_leads:
  assumes "loop_kept s" "ws_loop s = Sampling m (Paused k)" "k sig (ws_last_sample s, ws_world s) = (q, (l, w))"
  shows "R (ws_world s) w"
proof -
  have "pause_leads (on_snd R) (Paused k)" using assms(1,2) by (simp add: loop_all_def)
  then have "on_snd R (ws_last_sample s, ws_world s) (l, w)"
    using assms(3) by (elim leads_PausedE) (metis snd_conv)
  then show ?thesis by (simp add: on_snd_def)
qed

lemma close_leads:
  assumes "loop_kept s" "ws_loop s = Ending c (Paused k) \<or> ws_loop s = Closing (Paused k)" "k sig (ws_world s) = (q, w)"
  shows "R (ws_world s) w"
proof -
  have "pause_leads R (Paused k)" using assms(1,2) unfolding loop_all_def by blast
  then show ?thesis using assms(3) by (elim leads_PausedE) (metis snd_conv)
qed

lemma wake_leads: "main_end_co S w = (q, w') \<Longrightarrow> R w w'"
  using ends_lead(2) by (auto simp: co_leads_def) (metis snd_conv)

text \<open>The calls of Kafka that are one step.\<close>

lemma join_leads:
  assumes "c_start C cc (kafka (ws_world s)) = (r, x)"
  shows "R (ws_world s) (ws_world (end_loop S C c e (s\<lparr>ws_world := (ws_world s)\<lparr>kafka := x\<rparr>\<rparr>)))"
    "R (ws_world s) (ws_world (end_loop S C c e (s\<lparr>ws_world := if sent' then (ws_world s)\<lparr>kafka := x\<rparr> else ws_world s\<rparr>)))"
  using loop_trans [OF kafka_leads(1) [OF loop_calls(3) assms] end_loop_leads [of "s\<lparr>ws_world := w\<rparr>" for w, simplified]]
    loop_trans [OF kafka_leads(2) [OF loop_calls(3) assms] end_loop_leads [of "s\<lparr>ws_world := w\<rparr>" for w, simplified]]
  by blast+

lemmas commit_leads = kafka_leads(1) [OF loop_calls(7)]

end

text \<open>A relation that holds of the stretches of the tasks as well holds from the beginning of a run to
  its end.\<close>

locale process_frame = worker_frame S R + loop_frame S R C
  for S :: "('r, 'p, 'k, 'h) services"
    and R :: "('r, 'p, 'k, 'h) world \<Rightarrow> ('r, 'p, 'k, 'h) world \<Rightarrow> bool"
    and C :: "'k consumer_api" +
  assumes gauge_leads: "leads R (add_gauge g d)"
begin

lemma task_leads: "R w (snd (task_co S cfg m w)) \<and> pause_leads R (fst (task_co S cfg m w))"
proof -
  have "co_leads R (task_co S cfg m)"
    unfolding task_co_def
    by (auto intro: process_co_leads gauge_leads co_leads_sync leads_raise pre split: sum.split)
  then show ?thesis by (simp add: co_leads_def)
qed

lemma frame_step:
  assumes "worker_step S C cfg s s'" "tasks_all (\<lambda>m. pause_leads R) s" "loop_kept s"
  shows "R (ws_world s) (ws_world s')"
  using assms(1)
proof (cases rule: worker_step.cases)
  case (receive m event q l w)
  then show ?thesis using receive_leads by simp
next
  case (sample m k q l w)
  then show ?thesis using sample_leads [OF assms(3)] by simp
next
  case (cancel_sampling m k sig e l w)
  then show ?thesis
    using loop_trans [OF sample_leads [OF assms(3) cancel_sampling(2,4)]
        end_loop_leads [of "s\<lparr>ws_last_sample := l, ws_world := w\<rparr>" True e, simplified]] by simp
next
  case (close k q w)
  then show ?thesis using close_leads [OF assms(3)] by simp
next
  case (end' c k q w)
  then show ?thesis using close_leads [OF assms(3)] by simp
next
  case (cancel_ending k sig q w)
  then show ?thesis using close_leads [OF assms(3)] by simp
next
  case (wake_main c r q w)
  then show ?thesis using wake_leads by simp
next
  case (join_failed e x)
  then show ?thesis using join_leads(1) by simp
next
  case (cancel_join r x sent')
  then show ?thesis using join_leads(2) by simp
next
  case (begin' pre m post q w)
  then show ?thesis using task_leads [of "ws_world s" cfg m] by simp
next
  case (resume pre m k post q w)
  then have "pause_leads R (Paused k)" using assms(2) by (auto simp: tasks_all_def)
  then show ?thesis using resume(1,4) by (elim leads_PausedE) (simp, metis snd_conv)
next
  case (kill pre m k post sig q w)
  then have "pause_leads R (Paused k)" using assms(2) by (auto simp: tasks_all_def)
  then show ?thesis using kill(1,5) by (elim leads_PausedE) (simp, metis snd_conv)
qed (use loop_refl end_loop_leads commit_leads kafka_leads [OF loop_calls(2)] kafka_leads [OF loop_calls(3)] in
    \<open>simp_all add: release_task_def\<close>)

lemma frame_run_step:
  assumes "worker_run S C cfg (worker_init cfg w0) n s" "worker_step S C cfg s s'"
  shows "R (ws_world s) (ws_world s')"
proof (rule frame_step [OF assms(2) _ loop_kept_run [OF assms(1)]])
  show "tasks_all (\<lambda>m. pause_leads R) s"
    by (rule tasks_all_run [where P = "\<lambda>m. pause_leads R", OF assms(1)])
       (use task_leads in \<open>auto elim!: leads_PausedE\<close>)
qed

lemma frame_run:
  assumes "worker_run S C cfg (worker_init cfg w0) n s" shows "R w0 (ws_world s)"
  using assms
proof (induction "worker_init cfg w0" n s rule: worker_run.induct)
  case run_stop
  show ?case by (simp add: worker_init_def loop_refl)
next
  case (run_step n s1 s2)
  then show ?case using frame_run_step loop_trans by blast
qed

end

interpretation run_counters: process_frame S counters_grow C for S C
  by unfold_locales
     (auto simp: counters_grow_def preorder_rel_def inc_def set_gauge_def add_gauge_def
       intro!: world_calls_same leads_modify intro: order.trans)

text \<open>The counters never go down, also over a shutdown.\<close>

lemma run_counters_grow: "worker_run S C cfg (worker_init cfg w0) n s \<Longrightarrow> tally c w0 \<le> tally c (ws_world s)"
  using run_counters.frame_run [of S C cfg w0 n s] by (simp add: counters_grow_def)

text \<open>With a PostgreSQL server.\<close>

lemma schema_process_frame:
  assumes "pg_server (pg_of S) tables now_of" shows "process_frame S (pg_evolves tables) C"
proof -
  have "worker_frame S (pg_evolves tables)"
    by (rule worker_database.schema_frame [OF worker_database.intro [OF assms]])
  then show ?thesis
    by (intro process_frame.intro loop_frame.intro process_frame_axioms.intro leads_pg_elsewhere
        preorder_pg_evolves preorder_evolves leads_on_pg pg_server.pools_evolve [OF assms])
qed

interpretation good_run: process_frame good_worker "pg_evolves rp_tables" ref_consumer
  by (rule schema_process_frame [OF good_worker_pg])

text \<open>The \<open>finally\<close> of \<open>run_consumer_loop\<close> does not survive a stop signal: when the loop has failed and
  the signal comes while \<open>consumer.stop()\<close> is awaited, the consumer task is over, and neither the
  consumer nor the producer has been stopped.\<close>

lemma late_stop_skips_the_end:
  assumes "\<not> isinstance e ''CancelledError''"
  shows "\<exists>t. worker_step S C cfg (end_loop S C False e s) t \<and>
    ws_loop t = Ending True (Done (Inl CancelledError)) \<and> ws_world t = ws_world s \<and> ws_tasks t = ws_tasks s"
proof -
  obtain k where k: "loop_end_co S C e w = (Paused k, w)" "k Abort_unsent w = (Done (Inl CancelledError), w)" for w
    using assms by (force simp: loop_end_co_def co_finally_def co_then_def co_bind_def co_andthen_def co_catching_def
        sync_def await_def ret_def raise_def fun_eq_iff)
  let ?s = "end_loop S C False e s"
  have s: "ws_loop ?s = Ending False (Paused k)" "ws_world ?s = ws_world s" by (simp_all add: end_loop_def k(1))
  have "k Abort_unsent (ws_world ?s) = (Done (Inl CancelledError), ws_world s)" by (simp add: s(2) k(2))
  from worker_step.cancel_ending [OF s(1) _ this, of S C cfg] show ?thesis
    by (intro exI [of _ "?s\<lparr>ws_loop := Ending True (Done (Inl CancelledError)), ws_world := ws_world s\<rparr>"])
       (simp add: end_loop_def k(1))
qed

text \<open>The reference worker starts.\<close>

lemma good_starts:
  obtains x where "k_start (kafka_of good_worker) (dlq_producer_config cfg) (kafka w) = (Inr (), x)"
    "c_start ref_consumer cc x = (Inr (), x)"
  by (simp add: good_worker_def worker_services_def ref_kafka_def rk_call_def io_defs ref_consumer_def)

lemma good_start:
  obtains x where "worker_run good_worker ref_consumer cfg (worker_init cfg w) (Suc (Suc 0))
    (worker_started cfg (w\<lparr>kafka := x\<rparr>))"
  by (rule good_starts [of cfg w]) (blast intro: start_run)

end
