(* ===== verification/Event_Contract.thy ===== *)
theory Event_Contract
  imports Ingest_Handlers
begin

text \<open>
  The contract of \<open>libs/shared/models.py\<close> between the two services: what an event that validated
  satisfies, and that the value the ingestion service publishes is read by the worker as the event
  that was validated.
\<close>

section \<open>What validation establishes\<close>

text \<open>C21: A validated event is normal: its id has 26 characters of the ULID alphabet (or the Kelvin
  sign) and is the given id in upper case, its other fields are within their bounds, its payload is
  not empty, and its timestamp is a valid datetime in UTC that stands for the same instant as the
  text that was given.\<close>

theorem validated_event_normal:
  assumes "IoTEvent py d = Inr ev" "valid_lib py"
  shows "valid_iot_event ev \<and>
    (\<exists>s. map_of d (lit ''event_id'') = Some (JStr s) \<and> event_id ev = map upper_cp s) \<and>
    (\<exists>s dt. map_of d (lit ''timestamp'') = Some (JStr s) \<and>
       fromisoformat py (replace_char 90 (lit ''+00:00'') s) = Some dt \<and>
       instant (timestamp ev) = instant dt)"
proof (intro conjI)
  show "valid_iot_event ev" by (rule IoTEvent_valid [OF assms])
  show "\<exists>s. map_of d (lit ''event_id'') = Some (JStr s) \<and> event_id ev = map upper_cp s"
    by (rule IoTEvent_raw_id [OF assms(1)])
  from IoTEvent_fields(4) [OF assms(1)] obtain v where
    v: "map_of d (lit ''timestamp'') = Some v" "ensure_utc py (Inl v) = Inr (timestamp ev)"
    by (auto simp: timestamp_field_def split: option.splits sum.splits if_splits)
  from v(2) obtain s dt where "v = JStr s"
    "fromisoformat py (replace_char 90 (lit ''+00:00'') s) = Some dt" "astimezone_utc dt = Inr (timestamp ev)"
    by (auto simp: ensure_utc_def Let_def split: json.splits option.splits if_splits)
  moreover from this assms(2) have "instant (timestamp ev) = instant dt"
    using astimezone_utc_Inr by (auto simp: valid_lib_def)
  ultimately show "\<exists>s dt. map_of d (lit ''timestamp'') = Some (JStr s) \<and>
       fromisoformat py (replace_char 90 (lit ''+00:00'') s) = Some dt \<and>
       instant (timestamp ev) = instant dt" using v(1) by blast
qed

text \<open>C36: The constructor fails in two ways only: with a ValidationError, which the handlers expect, or
  with an OverflowError, when the timestamp is a text of a valid datetime whose offset moves it out
  of the calendar (before the year 1 or after 9999). The second is no ValueError, so that the
  ingestion service does not count it as a schema error.\<close>

theorem validation_fails_in_two_ways:
  assumes "IoTEvent py d = Inl e"
  shows "isinstance e ''ValidationError'' \<or>
    isinstance e ''OverflowError'' \<and> \<not> isinstance e ''ValueError'' \<and>
    (\<exists>s dt off. map_of d (lit ''timestamp'') = Some (JStr s) \<and>
       fromisoformat py (replace_char 90 (lit ''+00:00'') s) = Some dt \<and> utcoffset dt = Some off \<and>
       off \<noteq> 0 \<and> \<not> (0 < instant dt div day_us \<and> instant dt div day_us \<le> max_ordinal))"
proof (cases "isinstance e ''ValidationError''")
  case False
  with IoTEvent_Inl [OF assms] have "timestamp_field py d = Inl e" by blast
  then obtain v where v: "map_of d (lit ''timestamp'') = Some v" "ensure_utc py (Inl v) = Inl e"
    "\<not> isinstance e ''ValueError''"
    by (auto simp: timestamp_field_def split: option.splits sum.splits if_splits)
  from v(2,3) obtain s dt where s: "v = JStr s"
    "fromisoformat py (replace_char 90 (lit ''+00:00'') s) = Some dt" "utcoffset dt \<noteq> None"
    "astimezone_utc dt = Inl e"
    by (auto simp: ensure_utc_def Let_def ValueError_def split: json.splits option.splits if_splits)
  from s(3,4) v(3) obtain off where "utcoffset dt = Some off" "off \<noteq> 0" "isinstance e ''OverflowError''"
    "\<not> (0 < instant dt div day_us \<and> instant dt div day_us \<le> max_ordinal)"
    by (auto simp: astimezone_utc_def instant_def Let_def exn_defs split: option.splits if_splits)
  with v(1,3) s(1,2) show ?thesis by blast
qed simp

section \<open>The published value\<close>

lemma value_reads_back:
  assumes "IoTEvent py d = Inr ev" "valid_lib py" "iso_codec (fromisoformat py) (ser_datetime py)"
    and "kafka_value py ev trace = Inr v"
  shows "IoTEvent py v = Inr (dumped py ev) \<and> map_of v (lit ''_trace_id'') = Some (JStr trace) \<and>
    map_of v (lit ''event_id'') = Some (JStr (event_id ev))"
proof -
  from assms(4) obtain u where u: "to_kafka_dict py ev = Inr u"
    and v: "v = AList.update (lit ''_trace_id'') (JStr trace) u"
    by (cases "to_kafka_dict py ev") (auto simp: kafka_value_def)
  have "IoTEvent py v = IoTEvent py u"
    unfolding v by (rule IoTEvent_update) (simp add: declared_def)
  also have "\<dots> = Inr (dumped py ev)"
    by (rule IoTEvent_to_kafka_dict [OF assms(3) IoTEvent_valid [OF assms(1,2)] u])
  moreover have "map_of u (lit ''event_id'') = Some (JStr (event_id ev))"
    using u by (auto simp: to_kafka_dict_def split: if_splits)
  ultimately show ?thesis by (simp add: v map_of_update)
qed

lemma kafka_value_shallow:
  assumes "levels (JObj (payload ev)) \<le> dump_limit py" "levels (JObj (metadata ev)) \<le> dump_limit py"
  shows "\<exists>v. kafka_value py ev trace = Inr v"
  using assms by (simp add: kafka_value_def to_kafka_dict_def not_less del: levels.simps)

text \<open>C22: The worker reads back what the ingestion service published. An event that validated has a Kafka
  value if its payload and its metadata are no deeper than pydantic serializes, and the value, with the
  trace id added, validates to the event that was validated before with its payload and metadata as
  they were dumped: the event itself if they hold finite floats only and keys that are distinct and
  UTF-8 encodes; NaN and the infinities have become None otherwise. It carries the trace id. In
  particular the worker never sends an event that the ingestion service published to the dead letters
  as invalid.\<close>

theorem published_value_reads_back:
  assumes "IoTEvent py d = Inr ev" "valid_lib py" "iso_codec (fromisoformat py) (ser_datetime py)"
    and "levels (JObj (payload ev)) \<le> dump_limit py" "levels (JObj (metadata ev)) \<le> dump_limit py"
  shows "\<exists>v. kafka_value py ev trace = Inr v \<and> IoTEvent py v = Inr (dumped py ev) \<and>
    (native (JObj (payload ev)) \<and> native (JObj (metadata ev)) \<longrightarrow> IoTEvent py v = Inr ev) \<and>
    map_of v (lit ''_trace_id'') = Some (JStr trace) \<and> map_of v (lit ''event_id'') = Some (JStr (event_id ev))"
proof -
  from kafka_value_shallow [OF assms(4,5)] obtain v where v: "kafka_value py ev trace = Inr v" by blast
  from value_reads_back [OF assms(1-3) v] v show ?thesis using dumped_native by metis
qed

section \<open>The alphabet of the ids\<close>

text \<open>The check of the id is wider than the ULID alphabet its message names: the flag IGNORECASE
  folds two characters that are not ASCII to S and K, so that an id of 26 Kelvin signs (U+212A) is
  accepted and stays as it is, and the 26 long s (U+017F) are accepted and become the letter S.\<close>

lemma ulid_accepts_non_ascii:
  "validate_ulid (replicate 26 0x212A) = Inr (replicate 26 0x212A) \<and>
   validate_ulid (replicate 26 0x17F) = Inr (replicate 26 83)"
  by (simp add: validate_ulid_def fold_case_def upper_cp_def crockford_def list_all_iff)

section \<open>Witnesses\<close>

theorem validated_event_normal_witness:
  "valid_iot_event sample_event \<and> (\<exists>s. map_of sample_dict (lit ''event_id'') = Some (JStr s))"
  using validated_event_normal [OF sample_IoTEvent ref_valid_lib] by blast

text \<open>An event with NaN in its payload, which is published as None.\<close>

definition nan_event :: iot_event where
  "nan_event = sample_event\<lparr>payload := [(lit ''value'', JFloat NaN)]\<rparr>"

definition nan_dict :: dict where
  "nan_dict = AList.update (lit ''payload'') (JObj [(lit ''value'', JFloat NaN)]) sample_dict"

lemma nan_dumped: "dumped ref_py nan_event = sample_event\<lparr>payload := [(lit ''value'', JNull)]\<rparr>"
  by (simp add: dumped_def nan_event_def dump_dict_def dict_of_def dump_key_def sample_event_def)

lemma IoTEvent_payload:
  assumes "IoTEvent py d = Inr ev" "p \<noteq> []"
  shows "IoTEvent py (AList.update (lit ''payload'') (JObj p) d) = Inr (ev\<lparr>payload := p\<rparr>)"
proof -
  let ?d = "AList.update (lit ''payload'') (JObj p) d"
  have same: "k \<noteq> ''payload'' \<Longrightarrow> map_of ?d (lit k) = map_of d (lit k)" for k by simp
  have new: "event_id_field ?d = event_id_field d" "timestamp_field py ?d = timestamp_field py d"
    "str_field ?d ''device_id'' 1 (Some 128) = str_field d ''device_id'' 1 (Some 128)"
    "str_field ?d ''event_type'' 1 (Some 64) = str_field d ''event_type'' 1 (Some 64)"
    "with_default ?d ''schema_version'' (lit ''1.0'') (str_field ?d ''schema_version'' 0 None) =
       with_default d ''schema_version'' (lit ''1.0'') (str_field d ''schema_version'' 0 None)"
    "with_default ?d ''metadata'' [] (dict_field ?d ''metadata'') = with_default d ''metadata'' [] (dict_field d ''metadata'')"
    "dict_field ?d ''payload'' = Inr p"
    by (simp_all add: event_id_field_def timestamp_field_def str_field_def with_default_def dict_field_def same
        del: map_of_update) (simp add: dict_field_def)
  have "with_default d ''schema_version'' (lit ''1.0'') (str_field d ''schema_version'' 0 None) = Inr (schema_version ev)"
    "with_default d ''metadata'' [] (dict_field d ''metadata'') = Inr (metadata ev)"
    using assms(1) by (auto simp: IoTEvent_def Let_def split: sum.splits if_splits)
  with IoTEvent_fields [OF assms(1)] assms(2) show ?thesis
    unfolding IoTEvent_def Let_def new by simp
qed

lemma nan_IoTEvent: "IoTEvent ref_py nan_dict = Inr nan_event"
  unfolding nan_dict_def nan_event_def by (rule IoTEvent_payload [OF sample_IoTEvent]) simp

theorem published_value_reads_back_witness:
  "\<exists>v. kafka_value ref_py nan_event (lit ''t'') = Inr v \<and>
     IoTEvent ref_py v = Inr (sample_event\<lparr>payload := [(lit ''value'', JNull)]\<rparr>)"
proof -
  have "levels (JObj (payload nan_event)) \<le> dump_limit ref_py" "levels (JObj (metadata nan_event)) \<le> dump_limit ref_py"
    by (simp_all add: nan_event_def sample_event_def ref_py_def)
  from published_value_reads_back [OF nan_IoTEvent ref_valid_lib sample_codec this] show ?thesis
    unfolding nan_dumped by blast
qed

text \<open>The first minute of the calendar, an hour ahead of UTC.\<close>

definition early_dict :: dict where
  "early_dict = AList.update (lit ''timestamp'') (JStr (lit ''0001-01-01T00:00:00+01:00'')) sample_dict"

lemma early_overflows: "IoTEvent ref_py early_dict = Inl (OverflowError (lit ''date value out of range''))"
proof -
  have "iso_parse (lit ''0001-01-01T00:00:00+01:00'') = Some (DateTime 1 1 1 0 0 0 0 (Some 3600000000))"
    by (simp add: lit_def iso_parse_def iso_time_def iso_offset_def num_def Let_def valid_datetime_def
        days_in_month_def day_us_def)
  moreover have "replace_char 90 (lit ''+00:00'') (lit ''0001-01-01T00:00:00+01:00'')
      = lit ''0001-01-01T00:00:00+01:00''" by (simp add: lit_def replace_char_def)
  moreover have "map_of early_dict (lit ''timestamp'') = Some (JStr (lit ''0001-01-01T00:00:00+01:00''))"
    by (simp add: early_dict_def map_of_update)
  moreover have "astimezone_utc (DateTime 1 1 1 0 0 0 0 (Some 3600000000))
      = Inl (OverflowError (lit ''date value out of range''))"
    by (simp add: astimezone_utc_def local_us_def time_us_def ymd2ord_def days_before_year_def
        days_before_month_def day_us_def)
  ultimately have "timestamp_field ref_py early_dict = Inl (OverflowError (lit ''date value out of range''))"
    by (simp add: timestamp_field_def ensure_utc_def ref_py_def OverflowError_def)
  then show ?thesis by (simp add: IoTEvent_def Let_def)
qed

theorem validation_fails_in_two_ways_witness:
  "\<exists>off dt. utcoffset dt = Some off \<and> off \<noteq> 0 \<and>
     \<not> (0 < instant dt div day_us \<and> instant dt div day_us \<le> max_ordinal)"
  using validation_fails_in_two_ways [OF early_overflows] by (auto simp: OverflowError_def)

end
