(* ===== verification/Claim_Release.thy ===== *)
theory Claim_Release
  imports Processor Event_Contract
begin

text \<open>
  The two ids of an event. \<open>IdempotencyHandler\<close> claims the id of the raw event, and
  \<open>PersistenceHandler\<close> releases the id of the validated event, which is in upper case. What the
  release means for an event that is delivered again is the property below.
\<close>

lemma idempotency_key_inj:
  "idempotency_key py (JStr s) = idempotency_key py (JStr t) \<longleftrightarrow> s = t"
  by (simp add: idempotency_key_def)

text \<open>A claim of \<open>s\<close> that lasts until \<open>until\<close>.\<close>

definition claim_lasts :: "('r \<Rightarrow> int \<Rightarrow> pystr \<Rightarrow> pystr option) \<Rightarrow> ('r \<Rightarrow> int) \<Rightarrow> pylib \<Rightarrow> int \<Rightarrow> pystr \<Rightarrow>
    'r \<Rightarrow> bool" where
  "claim_lasts value_at clock py until s x \<longleftrightarrow>
     (\<forall>t. clock x \<le> t \<and> t < until \<longrightarrow> value_at x t (idempotency_key py (JStr s)) \<noteq> None)"

context redis_store
begin

lemma release_effect:
  assumes "r_delete A (idempotency_key py (JStr i)) x = (Inr n, y)"
    and "claim_lasts value_at clock py until s x"
    and "r_set_nx A (idempotency_key py (JStr s)) v ttl y = (Inr b, z)" "clock z < until"
  shows "b \<longleftrightarrow> s = i"
proof -
  from delete_ok [OF assms(1)] have del: "clock x \<le> clock y"
    "upd value_at clock x y (idempotency_key py (JStr i)) (\<lambda>t. None)" by simp_all
  from set_ok [OF assms(3)] have step: "clock y \<le> clock z"
    "b \<longleftrightarrow> value_at y (clock z) (idempotency_key py (JStr s)) = None"
    by (auto simp: claim_step_def split: if_splits)
  have "value_at y (clock z) (idempotency_key py (JStr s)) =
      (if s = i then None else value_at x (clock z) (idempotency_key py (JStr s)))"
    using del(2) step(1) by (simp add: upd_def idempotency_key_inj)
  moreover have "value_at x (clock z) (idempotency_key py (JStr s)) \<noteq> None"
    using assms(2,4) del(1) step(1) unfolding claim_lasts_def by fastforce
  ultimately show ?thesis using step(2) by simp
qed

end

section \<open>A new event and Redis\<close>

text \<open>What neither touches Redis nor counts a dead letter, and what does not touch Redis.\<close>

definition still :: "('r, 'p, 'k, 'h) world \<Rightarrow> ('r, 'p, 'k, 'h) world \<Rightarrow> bool" where
  "still w w' \<longleftrightarrow> redis w' = redis w \<and> (\<forall>et. tally (EVENTS_DLQ et) w' = tally (EVENTS_DLQ et) w)"

definition same_redis :: "('r, 'p, 'k, 'h) world \<Rightarrow> ('r, 'p, 'k, 'h) world \<Rightarrow> bool" where
  "same_redis w w' \<longleftrightarrow> redis w' = redis w"

lemma still_leads [leads_intros]:
  "preorder_rel still" "leads still (on_pg mp)" "leads still (on_host mh)" "leads still (ask_host f)"
  "leads still (inc (RETRY_ATTEMPTS i))" "leads still (inc (EVENTS_PROCESSED i))" "leads still (observe h)"
  by (auto simp: still_def preorder_rel_def inc_def observe_def intro!: world_calls_same leads_modify)

lemma same_redis_leads [leads_intros]:
  "preorder_rel same_redis" "leads same_redis (on_pg mp)" "leads same_redis (on_kafka mk)"
  "leads same_redis (on_host mh)" "leads same_redis (ask_host f)" "leads same_redis (inc c)"
  by (auto simp: same_redis_def preorder_rel_def inc_def intro!: world_calls_same leads_modify)

lemma timed_still [leads_intros]: "leads still m \<Longrightarrow> leads still (timed h m)"
  unfolding timed_def by (intro leads_finally leads_intros)

lemma db_still [leads_intros]:
  "leads still (insert_event S i d t v p m ts)" "leads still (upsert_device_state S d i t ts p)"
  unfolding insert_event_def upsert_device_state_def by (intro leads_intros)+

lemma backoff_still [leads_intros]:
  "leads still (bind (compute_delay S cfg n) (\<lambda>delay. on_host (h_sleep (host_of S) delay)))"
  unfolding compute_delay_def Let_def by (intro leads_intros)

lemma with_retry_still: "leads (ctx_kept still) (with_retry S cfg (insert_once S ev))"
  by (rule leads_with_retry) (intro preorder_ctx_kept leads_ctx_eff insert_once_kept leads_intros)+

lemma device_state_still:
  assumes "wc_event c = Some ev" "DeviceStateHandler S (ret ()) (c, w) = (r, (c', w'))" shows "still w w'"
proof -
  have "leads (on_snd still) (andthen
      (eff (try_except
        (upsert_device_state S (device_id ev) (event_id ev) (event_type ev) (timestamp ev) (payload ev))
        (catching ''Exception'' (\<lambda>exc. ret ()))))
      (andthen (eff (inc (EVENTS_PROCESSED (event_type ev))))
      (bind (eff (ask_host (h_monotonic (host_of S)))) (\<lambda>_.
      (andthen (modify (\<lambda>(c, w). (c\<lparr>wc_processed := True\<rparr>, w))) (ret ()))))))"
    by (intro leads_intros preorder_on_snd) (auto simp: on_snd_def still_def)
  from leadsD [OF this] assms show ?thesis
    by (fastforce simp: DeviceStateHandler_def bind_def gets_def on_snd_def)
qed

lemma send_same_redis: "leads (on_snd same_redis) (send_context S cfg et em rc)"
  unfolding send_context_def dlq_send_def record_dlq_event_def Let_def by (intro leads_intros preorder_on_snd)

text \<open>The handlers behind the validation leave Redis as it was, with no dead letter, or as the release of
  the id of the validated event left it.\<close>

lemma give_up_redis:
  assumes "give_up S cfg ev et exc ((n, c), w) = (r, (nc, w'))" "uncancelled S"
  shows "\<exists>u. r_delete (redis_of S) (idempotency_key (py_of S) (JStr (event_id ev))) (redis w) = (u, redis w')"
proof -
  obtain u x where u: "r_delete (redis_of S) (idempotency_key (py_of S) (JStr (event_id ev))) (redis w) = (u, x)"
    by (cases "r_delete (redis_of S) (idempotency_key (py_of S) (JStr (event_id ev))) (redis w)")
  obtain v w1 where rel: "release S (JStr (event_id ev)) w = (Inr v, w1)"
    by (rule quiet_result [OF uncancelled.release_quiet [OF assms(2)]])
  with u have "redis w1 = x"
    by (auto simp: release_def io_defs split: sum.splits if_splits)
  moreover obtain q c' w2 where send: "send_context S cfg et (msg exc) n (c, w1) = (q, (c', w2))" by (metis surj_pair)
  moreover have "w' = w2"
    using assms(1) rel send
    by (auto simp: give_up_def bind_def andthen_def gets_def eff_def up_def split: prod.splits sum.splits)
  ultimately show ?thesis using u leadsD [OF send_same_redis send] by (simp add: on_snd_def same_redis_def)
qed

lemma persistence_redis:
  assumes "PersistenceHandler S cfg (DeviceStateHandler S (ret ())) (c, w) = (r, (c', w'))"
    and "wc_event c = Some ev" "uncancelled S"
  shows "still w w' \<or>
    (\<exists>u. r_delete (redis_of S) (idempotency_key (py_of S) (JStr (event_id ev))) (redis w) = (u, redis w'))"
proof -
  obtain rr n c1 w1 where run: "with_retry S cfg (insert_once S ev) ((0, c), w) = (rr, ((n, c1), w1))"
    by (metis prod.collapse)
  from leadsD [OF with_retry_still run] have w1: "c1 = c" "still w w1" by (simp_all add: ctx_kept_def)
  show ?thesis
  proof (cases rr)
    case (Inr u)
    obtain c2 w2 where ds: "DeviceStateHandler S (ret ()) (c, w1) = (Inr (), (c2, w2))"
      using device_state_outcome [OF assms(3,2)] by blast
    have "still w1 w2" by (rule device_state_still [OF assms(2) ds])
    moreover have "w' = w2"
      using assms(1,2) run ds Inr w1(1)
      by (simp add: PersistenceHandler_def bind_def gets_def with_var_def try_except_def andthen_def up_def)
    ultimately show ?thesis using w1(2) by (simp add: still_def)
  next
    case (Inl e)
    have "ordinary e" using raisesD [OF with_retry_mild [OF assms(3)] run [unfolded Inl]] .
    let ?w2 = "if isinstance e ''PostgresError'' then bump (DB_ERRORS (exn_name e)) w1 else w1"
    let ?et = "if isinstance e ''PostgresError'' then lit ''DB_ERROR'' else exn_name e"
    obtain q nc w3 where up: "give_up S cfg ev ?et e ((n, c), ?w2) = (q, (nc, w3))" by (metis surj_pair)
    have "w' = w3"
      using assms(1,2) run w1(1) up Inl \<open>ordinary e\<close>
      by (auto simp: PersistenceHandler_def bind_def gets_def with_var_def try_except_def andthen_def
          eff_def inc_def modify_def split: if_splits prod.splits)
    moreover have "redis ?w2 = redis w" using w1(2) by (simp add: still_def)
    ultimately show ?thesis using give_up_redis [OF up assms(3)] by simp
  qed
qed

lemma valid_id_nonempty: "IoTEvent py d = Inr ev \<Longrightarrow> map_of d (lit ''event_id'') = Some (JStr s) \<Longrightarrow> s \<noteq> []"
  by (drule IoTEvent_fields(1)) (auto simp: event_id_field_def str_field_def split: if_splits)

lemma claimed_run:
  assumes "well_behaved S" "IoTEvent (py_of S) d = Inr ev" "map_of d (lit ''event_id'') = Some (JStr s)"
    and "r_set_nx (redis_of S) (idempotency_key (py_of S) (JStr s)) (lit ''1'')
      (W_IDEMPOTENCY_TTL_SECONDS cfg) (redis w) = (Inr True, x)"
  shows "\<exists>w'. process S cfg (JObj d) part off w = (Inr (), w') \<and>
    (one_outcome (EVENTS_PROCESSED (event_type ev)) w w' \<and> persisted S cfg ev w w' \<or> (\<exists>et. one_outcome (EVENTS_DLQ et) w w')) \<and>
    (redis w' = x \<and> (\<forall>et. tally (EVENTS_DLQ et) w' = tally (EVENTS_DLQ et) w) \<or>
     (\<exists>u. r_delete (redis_of S) (idempotency_key (py_of S) (JStr (event_id ev))) x = (u, redis w')))"
proof -
  have un: "uncancelled S" using assms(1) by (simp add: well_behaved_def)
  obtain key where key: "dlq_key (dlq_id_of d) = Inr key" using valid_id_key [OF assms(2)] by blast
  note nonempty = valid_id_nonempty [OF assms(2,3)]
  from process_by_handlers [of d w S cfg part off] obtain c w1 where c: "wc_raw_event c = JObj d"
    and w1: "redis w1 = redis w" "kafka w1 = kafka w" "postgres w1 = postgres w" "pool_set w1 = pool_set w"
      "\<And>n. tally n w1 = tally n w"
    and ends: "\<And>r c' w2. dispatch (worker_handlers S cfg) 0 (c, w1) = (r, (c', w2)) \<Longrightarrow>
      \<exists>w'. process S cfg (JObj d) part off w = (r, w') \<and> redis w' = redis w2 \<and> kafka w' = kafka w2 \<and>
        postgres w' = postgres w2 \<and> pool_set w' = pool_set w2 \<and> (\<forall>n. tally n w' = tally n w2)" by blast
  let ?w2 = "tick IDEMPOTENCY_CHECK_LATENCY (w1\<lparr>redis := x\<rparr>)" and ?c = "c\<lparr>wc_event := Some ev\<rparr>"
  have new: "is_new S cfg (JStr s) w1 = (Inr True, ?w2)"
    using is_new_answers [of S "JStr s" cfg w1 True x] assms(4) w1(1) by simp
  from persistence_outcome [OF assms(1) key, of ?c ev cfg ?w2] c obtain c' w3 where
    run: "PersistenceHandler S cfg (DeviceStateHandler S (ret ())) (?c, ?w2) = (Inr (), (c', w3))"
    and late: "late_end S cfg d ev ?w2 w3" by auto
  have "dispatch (worker_handlers S cfg) 0 (c, w1) = (Inr (), (c', w3))"
    using new run assms(2,3) c nonempty
    by (simp add: worker_handlers_list IdempotencyHandler_def WorkerValidationHandler_def bind_def gets_def
        of_result_def eff_def IoTEvent_of_def try_except_def andthen_def modify_def)
  from ends [OF this] obtain w' where w': "process S cfg (JObj d) part off w = (Inr (), w')"
    "redis w' = redis w3" "kafka w' = kafka w3" "postgres w' = postgres w3" "pool_set w' = pool_set w3"
    "\<And>n. tally n w' = tally n w3" by blast
  have out: "one_outcome k ?w2 w3 \<Longrightarrow> one_outcome k w w'" for k by (simp add: one_outcome_def w1(5) w'(6))
  have "persisted S cfg ev ?w2 w3 \<Longrightarrow> persisted S cfg ev w w'" by (simp add: persisted_def w1(3,4) w'(4))
  with late out have "one_outcome (EVENTS_PROCESSED (event_type ev)) w w' \<and> persisted S cfg ev w w' \<or>
      (\<exists>et. one_outcome (EVENTS_DLQ et) w w')"
    unfolding late_end_def processed_end_def dead_end_def by blast
  moreover from persistence_redis [OF run _ un, of ev]
  have "redis w' = x \<and> (\<forall>et. tally (EVENTS_DLQ et) w' = tally (EVENTS_DLQ et) w) \<or>
     (\<exists>u. r_delete (redis_of S) (idempotency_key (py_of S) (JStr (event_id ev))) x = (u, redis w'))"
    by (simp add: still_def w1(5) w'(2,6))
  ultimately show ?thesis using w'(1) by blast
qed

lemma one_outcome_unique: "one_outcome c w w' \<Longrightarrow> one_outcome c' w w' \<Longrightarrow> c = c'"
  unfolding one_outcome_def by (metis add_cancel_left_right zero_neq_one)

text \<open>C14: Releasing a claim allows a replay only for ids in upper case. Take an event that validates and that
  \<open>process\<close> claimed and then counted as a dead letter, so after its insertion failed, with services
  that cancel no call and a Redis that answers deletions. When the same event is delivered again while
  the first claim would last, and Redis answers the check, then \<open>process\<close> returns, and the event is a
  duplicate exactly when its id has a lower case letter, which validation accepts: the check claims
  the id of the raw event, and the release deletes that of the validated event, which is in upper
  case. Neither the database nor Kafka is touched by such a replay.\<close>

theorem release_misses_lowercase_claims:
  assumes "redis_store (redis_of S) value_at clock" "well_behaved S" "\<And>k. quiet (r_delete (redis_of S) k)"
    and "IoTEvent (py_of S) d = Inr ev" "map_of d (lit ''event_id'') = Some (JStr s)"
    and "r_set_nx (redis_of S) (idempotency_key (py_of S) (JStr s)) (lit ''1'')
      (W_IDEMPOTENCY_TTL_SECONDS cfg) (redis w) = (Inr True, x)"
    and "process S cfg (JObj d) part off w = (r, w1)" "one_outcome (EVENTS_DLQ et) w w1"
    and "r_set_nx (redis_of S) (idempotency_key (py_of S) (JStr s)) (lit ''1'')
      (W_IDEMPOTENCY_TTL_SECONDS cfg) (redis w1) = (Inr b, y)"
    and "clock y < clock x + W_IDEMPOTENCY_TTL_SECONDS cfg"
  shows "\<exists>w2. process S cfg (JObj d) part' off' w1 = (Inr (), w2) \<and>
    (one_outcome EVENTS_DUPLICATE w1 w2 \<longleftrightarrow> s \<noteq> map upper_cp s) \<and>
    (s \<noteq> map upper_cp s \<longrightarrow> kafka w2 = kafka w1 \<and> postgres w2 = postgres w1)"
proof -
  let ?ttl = "W_IDEMPOTENCY_TTL_SECONDS cfg" and ?key = "idempotency_key (py_of S) (JStr s)"
  have upper: "event_id ev = map upper_cp s" using IoTEvent_raw_id [OF assms(4)] assms(5) by auto
  note nonempty = valid_id_nonempty [OF assms(4,5)]
  have "\<not> (redis w1 = x \<and> (\<forall>et. tally (EVENTS_DLQ et) w1 = tally (EVENTS_DLQ et) w))"
    using assms(8) by (auto simp: one_outcome_def)
  with claimed_run [OF assms(2,4,5,6), of part off] assms(7) obtain u where
    "r_delete (redis_of S) (idempotency_key (py_of S) (JStr (event_id ev))) x = (u, redis w1)" by auto
  then obtain n where del: "r_delete (redis_of S) (idempotency_key (py_of S) (JStr (event_id ev))) x = (Inr n, redis w1)"
    using quiet_result [OF assms(3)] by (metis Pair_inject)
  have "claim_step value_at clock ?key (lit ''1'') ?ttl True (redis w) x"
    using redis_store.set_ok [OF assms(1,6)] .
  then have "claim_lasts value_at clock (py_of S) (clock x + ?ttl) s x"
    by (auto simp: claim_lasts_def claim_step_def upd_def)
  from redis_store.release_effect [OF assms(1) del this assms(9,10)] upper
  have b: "b \<longleftrightarrow> s = map upper_cp s" by simp
  show ?thesis
  proof (cases b)
    case True
    from claimed_run [OF assms(2,4,5), of cfg w1 y part' off'] assms(9) True obtain w2 where
      "process S cfg (JObj d) part' off' w1 = (Inr (), w2)"
      "(\<exists>t. one_outcome (EVENTS_PROCESSED t) w1 w2) \<or> (\<exists>et. one_outcome (EVENTS_DLQ et) w1 w2)" by auto
    with True b show ?thesis using one_outcome_unique by blast
  next
    case False
    have "\<exists>v2. is_new S cfg (JStr s) v = (Inr False, v2) \<and> redis v2 = y" if "redis v = redis w1" for v
      using is_new_answers [of S "JStr s" cfg v False y] assms(9) that False by simp
    from duplicate_run [where part = part' and off = off', OF assms(5) _ this] nonempty False b show ?thesis by auto
  qed
qed

section \<open>Witness\<close>

text \<open>The sample event with the first letter of its id in lower case.\<close>

definition lower_id :: pystr where
  "lower_id = lit ''01hXYZ9K2PNMQ3RT4VW5AB6CD7''"

definition lower_dict :: dict where
  "lower_dict = AList.update (lit ''event_id'') (JStr lower_id) sample_dict"

lemma lower_upper: "map upper_cp lower_id = lit ''01HXYZ9K2PNMQ3RT4VW5AB6CD7''" "lower_id \<noteq> map upper_cp lower_id"
  by (simp_all add: lower_id_def lit_def upper_cp_def)

lemma lower_id_map: "map_of lower_dict (lit ''event_id'') = Some (JStr lower_id)"
  by (simp add: lower_dict_def map_of_update)

lemma lower_same: "k \<noteq> ''event_id'' \<Longrightarrow> map_of lower_dict (lit k) = map_of sample_dict (lit k)"
  by (simp add: lower_dict_def map_of_update)

lemma lower_IoTEvent: "IoTEvent ref_py lower_dict = Inr sample_event"
proof -
  have "validate_ulid lower_id = Inr (event_id sample_event)"
    by (simp add: validate_ulid_def lower_id_def lit_def fold_case_def upper_cp_def crockford_def
        sample_event_def)
  then have "event_id_field lower_dict = Inr (event_id sample_event)"
    by (simp add: event_id_field_def str_field_def lower_id_map) (simp add: lower_id_def)
  then have "event_id_field lower_dict = event_id_field sample_dict"
    using IoTEvent_fields(1) [OF sample_IoTEvent] by simp
  then have "IoTEvent ref_py lower_dict = IoTEvent ref_py sample_dict"
    by (simp add: IoTEvent_def str_field_def dict_field_def with_default_def timestamp_field_def lower_same)
  then show ?thesis using sample_IoTEvent by simp
qed

text \<open>A worker whose PostgreSQL refuses every statement.\<close>

definition down_worker :: "(ref_redis, ref_pg, ref_kafka, ref_host) services" where
  "down_worker = worker_services 1 (\<lambda>_. None) (\<lambda>_. None) (\<lambda>_. False) (\<lambda>_. Some PostgresError)"

lemma down_parts: "redis_of down_worker = ref_redis 1 (\<lambda>_. None)" "py_of down_worker = ref_py"
  by (simp_all add: down_worker_def worker_services_def)

lemma down_well_behaved: "well_behaved down_worker"
proof -
  have "uncancelled down_worker"
    unfolding down_worker_def by (rule worker_services_uncancelled) (simp_all add: PostgresError_def)
  moreover have "kafka_of down_worker = kafka_of good_worker" by (simp add: down_worker_def good_worker_def worker_services_def)
  ultimately show ?thesis by (simp add: well_behaved_def good_kafka)
qed

lemma down_not_stored: "\<not> persisted down_worker cfg ev w w'"
proof
  assume "persisted down_worker cfg ev w w'"
  then obtain s u s' where "with_retry down_worker cfg (insert_once down_worker ev) s = (Inr u, s')"
    unfolding persisted_def by blast
  from retry_loop_Inr [OF _ _ this [unfolded with_retry_def], of "\<lambda>_ _. True"] obtain s1 where
    "insert_once down_worker ev s1 = (Inr u, s')" by (auto simp: preorder_rel_def leads_def)
  then show False
    by (auto simp: insert_once_def timed_def insert_event_def get_pool_def down_worker_def worker_services_def
        ref_pg_def rp_execute_def Let_def io_defs split: prod.splits sum.splits if_splits)
qed

theorem release_misses_lowercase_claims_witness:
  "\<exists>w1 w2. process down_worker worker_defaults (JObj lower_dict) (Some 0) (Some 7) worker_world = (Inr (), w1) \<and>
     process down_worker worker_defaults (JObj lower_dict) (Some 0) (Some 8) w1 = (Inr (), w2) \<and>
     one_outcome EVENTS_DUPLICATE w1 w2"
proof -
  let ?k = "idempotency_key ref_py (JStr lower_id)"
  let ?k' = "idempotency_key ref_py (JStr (event_id sample_event))"
  let ?r = "redis_of down_worker" and ?ttl = "W_IDEMPOTENCY_TTL_SECONDS worker_defaults"
  let ?x = "\<lparr>rr_now = 1, rr_store = [?k \<mapsto> (lit ''1'', Some 259201)]\<rparr>"
  have store: "redis_store ?r rr_at rr_now" unfolding down_parts by (rule rr.redis_store_axioms)
  have del: "quiet (r_delete ?r k)" for k
    by (auto simp: raises_def down_parts ref_redis_def rr_call_def io_defs)
  have event: "IoTEvent (py_of down_worker) lower_dict = Inr sample_event" by (simp add: lower_IoTEvent down_parts)
  have first: "r_set_nx ?r (idempotency_key (py_of down_worker) (JStr lower_id)) (lit ''1'') ?ttl (redis worker_world) = (Inr True, ?x)"
    by (simp add: down_parts ref_defs worker_defaults_def Let_def)
  from claimed_run [OF down_well_behaved event lower_id_map first, of "Some 0" "Some 7"] down_not_stored obtain w1 et where
    run: "process down_worker worker_defaults (JObj lower_dict) (Some 0) (Some 7) worker_world = (Inr (), w1)"
    and dead: "one_outcome (EVENTS_DLQ et) worker_world w1"
    and "redis w1 = ?x \<and> (\<forall>et. tally (EVENTS_DLQ et) w1 = tally (EVENTS_DLQ et) worker_world) \<or>
      (\<exists>u. r_delete ?r (idempotency_key (py_of down_worker) (JStr (event_id sample_event))) ?x = (u, redis w1))" by blast
  moreover have "\<not> (\<forall>et. tally (EVENTS_DLQ et) w1 = tally (EVENTS_DLQ et) worker_world)"
    using dead by (auto simp: one_outcome_def)
  moreover have "?k \<noteq> ?k'" using lower_upper by (simp add: idempotency_key_inj sample_event_def)
  ultimately have "redis w1 = \<lparr>rr_now = 2, rr_store = [?k \<mapsto> (lit ''1'', Some 259201)]\<rparr>"
    by (auto simp: down_parts ref_redis_def rr_call_def io_defs Let_def fun_upd_idem_iff)
  then have again: "r_set_nx ?r (idempotency_key (py_of down_worker) (JStr lower_id)) (lit ''1'') ?ttl (redis w1) =
      (Inr False, \<lparr>rr_now = 3, rr_store = [?k \<mapsto> (lit ''1'', Some 259201)]\<rparr>)"
    by (simp add: down_parts ref_defs worker_defaults_def Let_def)
  from release_misses_lowercase_claims [OF store down_well_behaved del event lower_id_map first run dead again,
      of "Some 0" "Some 8"] run lower_upper(2) show ?thesis by (auto simp: worker_defaults_def)
qed

end
