(* ===== verification/Worker_Kill.thy ===== *)
theory Worker_Kill
  imports Worker_End Claim_Release
begin

text \<open>
  Tasks that are in flight when the process ends. \<open>asyncio.run\<close> cancels them when \<open>main\<close> has returned:
  each ends where it is (\<open>kill_step\<close>). An event whose claim is in Redis by then, but which has not been
  stored, is lost (\<open>shutdown_loses_claimed_event\<close>), and that a task pauses there, between the claim and
  the insertion, is \<open>claim_before_storing\<close>.
\<close>

section \<open>Two pauses in a row\<close>

text \<open>\<open>pauses p a b\<close>: begun in the state \<open>a\<close>, \<open>p\<close> pauses in \<open>b\<close>. \<open>pauses_twice p a b c d\<close>: resumed in \<open>c\<close> it
  pauses again, in \<open>d\<close>; \<open>then_ends p a b c r d\<close>: it ends, with \<open>r\<close>.\<close>

definition pauses :: "('s, 'a) co \<Rightarrow> 's \<Rightarrow> 's \<Rightarrow> bool" where
  "pauses p a b \<longleftrightarrow> (\<exists>k. p a = (Paused k, b))"

definition pauses_twice :: "('s, 'a) co \<Rightarrow> 's \<Rightarrow> 's \<Rightarrow> 's \<Rightarrow> 's \<Rightarrow> bool" where
  "pauses_twice p a b c d \<longleftrightarrow> (\<exists>k k'. p a = (Paused k, b) \<and> k Proceed c = (Paused k', d))"

definition then_ends :: "('s, 'a) co \<Rightarrow> 's \<Rightarrow> 's \<Rightarrow> 's \<Rightarrow> exn + 'a \<Rightarrow> 's \<Rightarrow> bool" where
  "then_ends p a b c r d \<longleftrightarrow> (\<exists>k. p a = (Paused k, b) \<and> k Proceed c = (Done r, d))"

lemmas path_defs = pauses_def pauses_twice_def then_ends_def co_then_def

named_theorems path_intros \<open>the next pause of a coroutine, by syntax\<close>

lemma path_then:
  "pauses p a b \<Longrightarrow> pauses (co_then p f) a b"
  "pauses_twice p a b c d \<Longrightarrow> pauses_twice (co_then p f) a b c d"
  "then_ends p a b c r d \<Longrightarrow> pauses (f r) d e \<Longrightarrow> pauses_twice (co_then p f) a b c e"
  by (auto simp: path_defs)

lemma path_in [path_intros]:
  "pauses p a b \<Longrightarrow> pauses (co_bind p f) a b" "pauses p a b \<Longrightarrow> pauses (co_andthen p q) a b"
  "pauses p a b \<Longrightarrow> pauses (co_try p h) a b" "pauses p a b \<Longrightarrow> pauses (co_finally p u) a b"
  "pauses_twice p a b c d \<Longrightarrow> pauses_twice (co_bind p f) a b c d"
  "pauses_twice p a b c d \<Longrightarrow> pauses_twice (co_andthen p q) a b c d"
  "pauses_twice p a b c d \<Longrightarrow> pauses_twice (co_try p h) a b c d"
  "pauses_twice p a b c d \<Longrightarrow> pauses_twice (co_finally p u) a b c d"
  unfolding co_bind_def co_andthen_def co_try_def co_finally_def by (rule path_then, assumption)+

lemma path_sync:
  "m a = (Inr x, a') \<Longrightarrow> pauses (f x) a' b \<Longrightarrow> pauses (co_bind (sync m) f) a b"
  "m a = (Inr x, a') \<Longrightarrow> pauses_twice (f x) a' b c d \<Longrightarrow> pauses_twice (co_bind (sync m) f) a b c d"
  "m a = (Inr y, a') \<Longrightarrow> pauses q a' b \<Longrightarrow> pauses (co_andthen (sync m) q) a b"
  "m a = (Inr y, a') \<Longrightarrow> pauses_twice q a' b c d \<Longrightarrow> pauses_twice (co_andthen (sync m) q) a b c d"
  by (auto simp: path_defs co_bind_def co_andthen_def sync_def)

lemma path_await [path_intros]: "pauses (await m) a a"
  by (simp add: path_defs await_def)

lemma path_ends:
  "then_ends p a b c (Inr x) d \<Longrightarrow> pauses (f x) d e \<Longrightarrow> pauses_twice (co_bind p f) a b c e"
  unfolding co_bind_def by (rule path_then(3), assumption, simp)

lemma path_eff [path_intros]:
  "pauses p a b \<Longrightarrow> pauses (co_eff p) (x, a) (x, b)"
  "then_ends p a b c r d \<Longrightarrow> then_ends (co_eff p) (x, a) (x, b) (y, c) r (y, d)"
  by (auto simp: path_defs co_eff_def co_zoom_def)

lemma path_hide [path_intros]:
  "pauses_twice p (l, a) (l', b) (l', c) (l'', d) \<Longrightarrow> pauses_twice (co_hide l p) a b c d"
  by (auto simp: path_defs co_hide_def)

lemma path_with_var [path_intros]: "pauses p ((v, c), a) ((v', c'), b) \<Longrightarrow> pauses (co_with_var v p) (c, a) (c', b)"
  by (auto simp: path_defs co_with_var_def co_hide_def co_zoom_def)

section \<open>Between the claim and the insertion\<close>

lemma is_new_pauses:
  assumes "r_set_nx (redis_of S) (idempotency_key (py_of S) i) (lit ''1'') (W_IDEMPOTENCY_TTL_SECONDS cfg) (redis v)
      = (Inr True, x)"
  shows "then_ends (is_new_co S cfg i) w w v (Inr True) (tick IDEMPOTENCY_CHECK_LATENCY (v\<lparr>redis := x\<rparr>))"
  using assms
  by (simp add: path_defs is_new_co_def timed_co_def co_finally_def co_try_def co_bind_def await_def sync_def io_defs)

lemma insertion_pauses:
  assumes "pool_set v" "1 \<le> W_RETRY_MAX_ATTEMPTS cfg"
  shows "pauses (with_retry_co S cfg (insert_once_co S ev)) ((n, c), v) ((n + 1, c), v)"
proof -
  have "pauses (insert_once_co S ev) ((n, c), v) ((n + 1, c), v)"
    unfolding insert_once_co_def timed_co_def insert_event_co_def
    by (rule path_sync path_intros | simp add: get_pool_def io_defs assms(1))+
  then have "pauses (retry_loop_co S cfg (insert_once_co S ev) None (1 # ns)) ((n, c), v) ((n + 1, c), v)" for ns
    by (simp add: retry_attempt_co_def) (intro path_intros)
  then show ?thesis using assms(2) by (simp add: with_retry_co_def upto_rec1)
qed

lemma storing_pauses:
  assumes "wc_raw_event c = JObj d" "IoTEvent (py_of S) d = Inr ev" "pool_set v" "1 \<le> W_RETRY_MAX_ATTEMPTS cfg"
  shows "pauses (WorkerValidationHandler_co S cfg (PersistenceHandler_co S cfg next_call)) (c, v)
    (c\<lparr>wc_event := Some ev\<rparr>, v)"
proof -
  let ?c = "c\<lparr>wc_event := Some ev\<rparr>"
  have "pauses (PersistenceHandler_co S cfg next_call) (?c, v) (?c, v)"
    unfolding PersistenceHandler_co_def
    by (rule path_sync(1) [where x = "Some ev" and a' = "(?c, v)"], simp add: gets_def, simp,
        (rule path_intros insertion_pauses [OF assms(3,4)])+)
  then show ?thesis
    unfolding WorkerValidationHandler_co_def
    by (intro path_sync(1) [where x = "JObj d" and a' = "(c, v)"] path_sync(1) [where x = "map_of d (lit ''event_id'')" and a' = "(c, v)"]
        path_sync(1) [where x = ev and a' = "(c, v)"] path_sync(3) [where a' = "(?c, v)"] path_intros)
       (simp_all add: gets_def of_result_def modify_def IoTEvent_of_def assms)
qed

lemma claim_pauses:
  assumes "wc_raw_event c = JObj d" "map_of d (lit ''event_id'') = Some (JStr s)" "s \<noteq> []"
    and "IoTEvent (py_of S) d = Inr ev" "pool_set v" "1 \<le> W_RETRY_MAX_ATTEMPTS cfg"
    and "r_set_nx (redis_of S) (idempotency_key (py_of S) (JStr s)) (lit ''1'') (W_IDEMPOTENCY_TTL_SECONDS cfg) (redis v)
      = (Inr True, x)"
  shows "pauses_twice (dispatch_co (worker_co_handlers S cfg) 0) (c, w) (c, w) (c, v)
    (c\<lparr>wc_event := Some ev\<rparr>, tick IDEMPOTENCY_CHECK_LATENCY (v\<lparr>redis := x\<rparr>))"
proof -
  let ?v = "tick IDEMPOTENCY_CHECK_LATENCY (v\<lparr>redis := x\<rparr>)"
  note stored = storing_pauses [OF assms(1,4) _ assms(6), of ?v, simplified, OF assms(5)]
  show ?thesis
    unfolding worker_co_handlers_def dispatch_co_Cons dispatch_co_Nil IdempotencyHandler_co_def
    by (rule path_sync(2) [where x = "JObj d" and a' = "(c, w)"], simp add: gets_def assms(1),
        rule path_sync(2) [where x = "Some (JStr s)" and a' = "(c, w)"], simp add: of_result_def assms(2),
        simp add: assms(3), rule path_ends, rule path_eff, rule is_new_pauses [OF assms(7)], simp, rule stored)
qed

text \<open>The task of an event that is new: it pauses for the check; when Redis has set the claim, it pauses
  again, and nothing has been stored yet.\<close>

lemma claim_before_storing:
  assumes "map_of d (lit ''event_id'') = Some (JStr s)" "s \<noteq> []"
    and "IoTEvent (py_of S) d = Inr ev" "1 \<le> W_RETRY_MAX_ATTEMPTS cfg"
  shows "\<exists>b. untouched w b \<and> pool_set b = pool_set w \<and>
    (\<forall>v x. pool_set v \<longrightarrow>
      r_set_nx (redis_of S) (idempotency_key (py_of S) (JStr s)) (lit ''1'') (W_IDEMPOTENCY_TTL_SECONDS cfg) (redis v)
        = (Inr True, x) \<longrightarrow>
      pauses_twice (process_co S cfg (JObj d) part off) w b v (tick IDEMPOTENCY_CHECK_LATENCY (v\<lparr>redis := x\<rparr>)))"
proof -
  let ?w0 = "w\<lparr>met := (met w)\<lparr>gauges := (gauges (met w))(ACTIVE_TASKS := gauges (met w) ACTIVE_TASKS + 1)\<rparr>\<rparr>"
  obtain t0 h where h: "h_monotonic (host_of S) (host w) = (t0, h)" by (cases "h_monotonic (host_of S) (host w)")
  let ?t = "get_default (map_of d (lit ''_trace_id'')) (JStr [])"
  let ?c = "new_worker_context (JObj d) ?t part off t0"
  have "\<exists>c h'. ensure_trace wc_get_id wc_set_id (ask_host (h_uuid4 (host_of S))) (?c, ?w0\<lparr>host := h\<rparr>)
      = (Inr (), (c, ?w0\<lparr>host := h'\<rparr>)) \<and> wc_raw_event c = JObj d"
  proof (cases "truthy (wc_get_id ?c)")
    case True
    then show ?thesis
      by (intro exI [of _ ?c] exI [of _ h]) (simp add: wc.ensure_trace_keeps, simp add: new_worker_context_def)
  next
    case False
    obtain u h' where u: "h_uuid4 (host_of S) h = (u, h')" by (cases "h_uuid4 (host_of S) h")
    have "ensure_trace wc_get_id wc_set_id (ask_host (h_uuid4 (host_of S))) (?c, ?w0\<lparr>host := h\<rparr>)
        = (Inr (), (wc_set_id u ?c, ?w0\<lparr>host := h'\<rparr>))"
      by (rule wc.ensure_trace_draws [OF False]) (simp add: ask_host_def u)
    moreover have "wc_raw_event (wc_set_id u ?c) = JObj d" by (simp add: new_worker_context_def wc_set_id_def)
    ultimately show ?thesis by blast
  qed
  then obtain c h' where trace: "ensure_trace wc_get_id wc_set_id (ask_host (h_uuid4 (host_of S))) (?c, ?w0\<lparr>host := h\<rparr>)
      = (Inr (), (c, ?w0\<lparr>host := h'\<rparr>))" and c: "wc_raw_event c = JObj d" by blast
  let ?b = "?w0\<lparr>host := h'\<rparr>"
  have "pauses_twice (process_co S cfg (JObj d) part off) w ?b v (tick IDEMPOTENCY_CHECK_LATENCY (v\<lparr>redis := x\<rparr>))"
    if v: "pool_set v" "r_set_nx (redis_of S) (idempotency_key (py_of S) (JStr s)) (lit ''1'')
      (W_IDEMPOTENCY_TTL_SECONDS cfg) (redis v) = (Inr True, x)" for v x
  proof -
    have handlers: "worker_co_handlers S cfg \<noteq> []" by (simp add: worker_co_handlers_def)
    note claim = claim_pauses [OF c assms(1-3) v(1) assms(4) v(2), of ?b]
    have ex: "pauses_twice (execute_co wc_get_id wc_set_id (ask_host (h_uuid4 (host_of S))) (worker_co_handlers S cfg))
        (?c, ?w0\<lparr>host := h\<rparr>) (c, ?b) (c, v) (c\<lparr>wc_event := Some ev\<rparr>, tick IDEMPOTENCY_CHECK_LATENCY (v\<lparr>redis := x\<rparr>))"
      unfolding execute_co_def if_not_P [OF handlers] by (rule path_sync(4), rule trace, rule claim)
    show ?thesis
      unfolding process_co_def timed_co_def
      by (rule path_sync(4) [where a' = ?w0], simp add: add_gauge_def modify_def, rule path_in(8), rule path_in(8),
          rule path_sync(2) [where x = "map_of d (lit ''_trace_id'')" and a' = ?w0], simp add: of_result_def,
          rule path_sync(2) [where x = t0 and a' = "?w0\<lparr>host := h\<rparr>"], simp add: ask_host_def h,
          rule path_hide, rule ex)
  qed
  moreover have "untouched w ?b" "pool_set ?b = pool_set w" by (simp_all add: untouched_def)
  ultimately show ?thesis by blast
qed

section \<open>A killed task\<close>

lemma tasks_die:
  assumes "worker_run S C cfg (worker_init cfg w0) n s" shows "tasks_all (\<lambda>m. pause_dies untouched) s"
proof (rule tasks_all_run [where P = "\<lambda>m. pause_dies untouched", OF assms])
  show "pause_dies untouched (fst (task_co S cfg m w))" for m w
    using dies_process [of S cfg] by (auto simp: task_co_def co_dies_def sync_def raise_def
        intro: dies_Done split: sum.split)
  fix k :: "signal \<Rightarrow> ('a, 'b, 'c, 'd) world \<Rightarrow> (('a, 'b, 'c, 'd) world, unit) pause \<times> ('a, 'b, 'c, 'd) world"
    and sig w
  assume "pause_dies untouched (Paused k)"
  then show "pause_dies untouched (fst (k sig w))"
    by (cases "sig = Proceed") (auto elim!: dies_PausedE intro: dies_Done)
qed

lemma kill_step:
  assumes "worker_run S C cfg (worker_init cfg w0) n s" "main_returned s" "ws_tasks s = pre @ (m, Running k) # post"
  shows "\<exists>s'. worker_step S C cfg s s' \<and> ws_failed s' = ws_failed s @ [(m, CancelledError)] \<and>
    ws_tasks s' = pre @ post \<and> ws_processed s' = ws_processed s \<and> ws_commits s' = ws_commits s \<and>
    untouched (ws_world s) (ws_world s')"
proof -
  have "pause_dies untouched (Paused k)" using tasks_die [OF assms(1)] assms(3) by (simp add: tasks_all_def)
  then have "fst (k Abort_unsent (ws_world s)) = Done (Inl CancelledError)"
    "untouched (ws_world s) (snd (k Abort_unsent (ws_world s)))" by (auto elim!: dies_PausedE)
  then obtain w where w: "k Abort_unsent (ws_world s) = (Done (Inl CancelledError), w)" "untouched (ws_world s) w"
    by (metis prod.collapse)
  from worker_step.kill [OF assms(2,3) _ w(1), of S C cfg] show ?thesis
    using w(2)
    by (intro exI [of _ "settle m (Done (Inl CancelledError)) pre post (s\<lparr>ws_world := w\<rparr>)"])
       (simp add: settle_def release_task_def)
qed

section \<open>The lost event\<close>

lemma claimed_is_duplicate:
  assumes "redis_store (redis_of S) value_at clock"
    and "map_of d (lit ''event_id'') = Some (JStr s)" "s \<noteq> []"
    and "claim_lasts value_at clock (py_of S) until s (redis w)"
    and "r_set_nx (redis_of S) (idempotency_key (py_of S) (JStr s)) (lit ''1'')
      (W_IDEMPOTENCY_TTL_SECONDS cfg) (redis w) = (Inr b, x)" "clock x < until"
  shows "\<exists>w'. process S cfg (JObj d) part off w = (Inr (), w') \<and> one_outcome EVENTS_DUPLICATE w w' \<and>
    kafka w' = kafka w \<and> postgres w' = postgres w"
proof -
  have "\<not> b"
    using redis_store.set_claimed [OF assms(1) _ assms(5,6)] assms(4) unfolding claim_lasts_def by blast
  then have "\<exists>w2. is_new S cfg (JStr s) w1 = (Inr False, w2) \<and> redis w2 = x"
    if "redis w1 = redis w" for w1
    using is_new_answers [of S "JStr s" cfg w1 b x] assms(5) that by simp
  from duplicate_run [where part = part and off = off, OF assms(2) _ this] assms(3) show ?thesis by auto
qed

text \<open>C5: A shutdown may lose events. When \<open>main\<close> has returned, a task that is still in flight is cancelled
  where it is, and it can end there by a CancelledError before the call that it awaits has been sent:
  its offset is not committed, and nothing is sent or stored in its stead; nor is its claim released.
  If the event was claimed by then, the next worker, to which
  the record is delivered again, takes it for a duplicate while the claim lasts: \<open>process\<close> returns, so
  that the offset is committed, and neither the database nor Kafka has been touched.\<close>

theorem shutdown_loses_claimed_event:
  assumes "redis_store (redis_of S) value_at clock"
    and "worker_run S C cfg (worker_init cfg w0) n s" "main_returned s"
    and "ws_tasks s = pre @ (m, Running k) # post" "cr_value m = Inr (JObj d)"
    and "map_of d (lit ''event_id'') = Some (JStr i)" "i \<noteq> []"
    and "claim_lasts value_at clock (py_of S) until i (redis (ws_world s))"
  shows "\<exists>s'. worker_step S C cfg s s' \<and> ws_failed s' = ws_failed s @ [(m, CancelledError)] \<and>
    ws_commits s' = ws_commits s \<and> untouched (ws_world s) (ws_world s') \<and>
    (\<forall>cfg' part off v b x. redis v = redis (ws_world s') \<and>
      r_set_nx (redis_of S) (idempotency_key (py_of S) (JStr i)) (lit ''1'')
        (W_IDEMPOTENCY_TTL_SECONDS cfg') (redis v) = (Inr b, x) \<and> clock x < until \<longrightarrow>
      (\<exists>v'. process S cfg' (JObj d) part off v = (Inr (), v') \<and> one_outcome EVENTS_DUPLICATE v v' \<and>
        kafka v' = kafka v \<and> postgres v' = postgres v))"
proof -
  from kill_step [OF assms(2-4)] obtain s' where step: "worker_step S C cfg s s'"
    "ws_failed s' = ws_failed s @ [(m, CancelledError)]" "ws_commits s' = ws_commits s"
    "untouched (ws_world s) (ws_world s')" by blast
  then have same: "redis (ws_world s') = redis (ws_world s)" by (simp add: untouched_def)
  have "\<exists>v'. process S cfg' (JObj d) part off v = (Inr (), v') \<and> one_outcome EVENTS_DUPLICATE v v' \<and>
      kafka v' = kafka v \<and> postgres v' = postgres v"
    if "redis v = redis (ws_world s') \<and> r_set_nx (redis_of S) (idempotency_key (py_of S) (JStr i)) (lit ''1'')
        (W_IDEMPOTENCY_TTL_SECONDS cfg') (redis v) = (Inr b, x) \<and> clock x < until" for cfg' part off v b x
    using that assms(8) same by (intro claimed_is_duplicate [OF assms(1,6,7)]) auto
  with step show ?thesis by blast
qed

section \<open>A run\<close>

text \<open>The closing goes on to its end, whatever the tasks do.\<close>

lemma closing_completes:
  assumes "preorder_rel R" "pause_leads R q" "ws_loop s = Closing q"
  shows "\<exists>n s'. worker_run S C cfg s n s' \<and> main_returned s' \<and> ws_tasks s' = ws_tasks s \<and>
    ws_failed s' = ws_failed s \<and> ws_commits s' = ws_commits s \<and> R (ws_world s) (ws_world s')"
  using assms(2,3)
proof (induction q arbitrary: s rule: pause_induct)
  case (Done r)
  then show ?case using run_stop preorder_relD(1) [OF assms(1)] by fastforce
next
  case (Paused k)
  let ?q = "fst (k Proceed (ws_world s))" and ?w = "snd (k Proceed (ws_world s))"
  let ?s = "s\<lparr>ws_loop := Closing ?q, ws_world := ?w\<rparr>"
  have step: "worker_step S C cfg s ?s" by (rule worker_step.close [OF Paused.prems(2)]) simp
  have q: "pause_leads R ?q" "R (ws_world s) ?w" using Paused.prems(1) by (auto elim!: leads_PausedE)
  from Paused.IH [OF q(1), of ?s] obtain n s' where run: "worker_run S C cfg ?s n s'" "main_returned s'"
    "ws_tasks s' = ws_tasks s" "ws_failed s' = ws_failed s" "ws_commits s' = ws_commits s" "R ?w (ws_world s')" by auto
  have "worker_run S C cfg s (Suc 0 + n) s'"
    by (rule worker_run_append [OF run(1) run_step [OF run_stop step]])
  with run(2-5) preorder_relD(2) [OF assms(1) q(2) run(6)] show ?case by blast
qed

lemma ending_completes:
  assumes "preorder_rel R" "pause_leads R q" "ws_loop s = Ending c q" "co_leads R (main_end_co S)"
  shows "\<exists>n s'. worker_run S C cfg s n s' \<and> main_returned s' \<and> ws_tasks s' = ws_tasks s \<and>
    ws_failed s' = ws_failed s \<and> ws_commits s' = ws_commits s \<and> R (ws_world s) (ws_world s')"
  using assms(2,3)
proof (induction q arbitrary: s rule: pause_induct)
  case (Done r)
  obtain q w where q: "main_end_co S (ws_world s) = (q, w)" by (metis surj_pair)
  let ?s = "s\<lparr>ws_loop := Closing q, ws_world := w\<rparr>"
  have step: "worker_step S C cfg s ?s" by (rule worker_step.wake_main [OF Done.prems(2) q])
  have lead: "R (ws_world s) w" "pause_leads R q"
    using assms(4)[unfolded co_leads_def, rule_format, of "ws_world s"] q by simp_all
  from closing_completes [OF assms(1) lead(2), of ?s S C cfg] obtain n s' where run: "worker_run S C cfg ?s n s'" "main_returned s'"
    "ws_tasks s' = ws_tasks s" "ws_failed s' = ws_failed s" "ws_commits s' = ws_commits s" "R w (ws_world s')" by auto
  from worker_run_append [OF run(1) run_step [OF run_stop step]] run(2-5) preorder_relD(2) [OF assms(1) lead(1) run(6)]
  show ?case by blast
next
  case (Paused k)
  let ?q = "fst (k Proceed (ws_world s))" and ?w = "snd (k Proceed (ws_world s))"
  let ?s = "s\<lparr>ws_loop := Ending c ?q, ws_world := ?w\<rparr>"
  have step: "worker_step S C cfg s ?s" by (rule worker_step.end' [OF Paused.prems(2)]) simp
  have q: "pause_leads R ?q" "R (ws_world s) ?w" using Paused.prems(1) by (auto elim!: leads_PausedE)
  from Paused.IH [OF q(1), of ?s] obtain n s' where run: "worker_run S C cfg ?s n s'" "main_returned s'"
    "ws_tasks s' = ws_tasks s" "ws_failed s' = ws_failed s" "ws_commits s' = ws_commits s" "R ?w (ws_world s')" by auto
  from worker_run_append [OF run(1) run_step [OF run_stop step]] run(2-5) preorder_relD(2) [OF assms(1) q(2) run(6)]
  show ?case by blast
qed

section \<open>A stop signal while the clients are stopped\<close>

lemma ending_runs:
  assumes "ws_loop s = Ending c q" "pause_run q (ws_world s) = (r, w)"
  shows "\<exists>n. worker_run S C cfg s n (s\<lparr>ws_loop := Ending c (Done r), ws_world := w\<rparr>)"
  using assms
proof (induction q arbitrary: s rule: pause_induct)
  case (Done r')
  then have "s\<lparr>ws_loop := Ending c (Done r), ws_world := w\<rparr> = s" by (cases s) simp
  then show ?case using run_stop by metis
next
  case (Paused k)
  let ?q = "fst (k Proceed (ws_world s))" and ?w = "snd (k Proceed (ws_world s))"
  let ?s = "s\<lparr>ws_loop := Ending c ?q, ws_world := ?w\<rparr>"
  have step: "worker_step S C cfg s ?s" by (rule worker_step.end' [OF Paused.prems(1)]) simp
  have "pause_run ?q (ws_world ?s) = (r, w)" using Paused.prems(2) by (simp split: prod.splits)
  with Paused.IH [of ?s Proceed "ws_world s"] obtain n where
    "worker_run S C cfg ?s n (s\<lparr>ws_loop := Ending c (Done r), ws_world := w\<rparr>)" by auto
  from worker_run_append [OF this run_step [OF run_stop step]] show ?case by blast
qed

lemma main_end_same_kafka: "co_leads (\<lambda>w w'. kafka w' = kafka w) (main_end_co S)"
  unfolding main_end_co_def close_pool_co_def
  by (intro leads_intros world_calls_same) (auto simp: preorder_rel_def intro!: leads_intros world_calls_same)

lemma main_returns:
  assumes "ws_loop s = Ending c (Done r)"
  shows "\<exists>n t. worker_run S C cfg s n t \<and> main_returned t \<and> ws_tasks t = ws_tasks s \<and>
    kafka (ws_world t) = kafka (ws_world s)"
  using ending_completes [of "\<lambda>w w'. kafka w' = kafka w", OF _ leads_Done assms main_end_same_kafka]
  by (fastforce simp: preorder_rel_def)

lemma loop_end_stops:
  assumes "c_stop C (kafka w) = (Inr u, x)" "k_stop (kafka_of S) x = (r, y)"
  shows "\<exists>r'. run (loop_end_co S C e) w = (r', w\<lparr>kafka := y\<rparr>)"
proof -
  have "run (loop_end_co S C e) = try_finally (catching ''CancelledError'' (\<lambda>exc. ret ()) e)
      (andthen (on_kafka (c_stop C)) (on_kafka (k_stop (kafka_of S))))"
    by (simp add: loop_end_co_def run_simps)
  moreover have "\<exists>r0. catching ''CancelledError'' (\<lambda>exc. ret ()) e w = (r0, w)"
    by (simp add: catching_def ret_def raise_def)
  ultimately show ?thesis
    using assms by (auto simp: try_finally_def andthen_def bind_def on_kafka_def split: sum.split)
qed

text \<open>C11: The end of the consumer does not survive a stop signal. When the loop meets a record that does not
  decode, it ends with that error, and if no stop signal comes then, the process can run to the end of
  \<open>main\<close> with the consumer and the producer of the dead letters stopped. But if the stop signal comes
  while the stop of the consumer is awaited, before the call has taken effect, the process can run to
  the end of \<open>main\<close> with neither of them stopped: Kafka is as it was when the loop met the record, and
  the tasks in flight are those of that moment.\<close>

theorem late_stop_leaves_clients_open:
  fixes m :: consumer_record
  assumes "ws_loop s = Polling" "cr_value m = Inl e" "\<not> isinstance e ''CancelledError''"
    and "c_stop C (kafka (ws_world s)) = (Inr u, x)" "k_stop (kafka_of S) x = (r, y)"
  shows "(\<exists>n t. worker_run S C cfg s n t \<and> main_returned t \<and> kafka (ws_world t) = y) \<and>
    (\<exists>n t. worker_run S C cfg s n t \<and> main_returned t \<and> ws_tasks t = ws_tasks s \<and>
       kafka (ws_world t) = kafka (ws_world s))"
proof
  let ?s1 = "end_loop S C False e s"
  have one: "worker_run S C cfg s 1 ?s1"
    using run_step [OF run_stop worker_step.undecodable [OF assms(1,2)]] by simp
  obtain q w where q: "loop_end_co S C e (ws_world s) = (q, w)" by (metis surj_pair)
  then have s1: "ws_loop ?s1 = Ending False q" "ws_world ?s1 = w" by (simp_all add: end_loop_def)
  from loop_end_stops [where e = e, OF assms(4,5)] obtain r' where
    "pause_run q w = (r', (ws_world s)\<lparr>kafka := y\<rparr>)" by (auto simp: run_def q)
  with ending_runs [OF s1(1), of r' "(ws_world s)\<lparr>kafka := y\<rparr>" S C cfg] s1(2) obtain n where
    "worker_run S C cfg ?s1 n (?s1\<lparr>ws_loop := Ending False (Done r'), ws_world := (ws_world s)\<lparr>kafka := y\<rparr>\<rparr>)" by auto
  note two = worker_run_append [OF this one]
  from main_returns [of "?s1\<lparr>ws_loop := Ending False (Done r'), ws_world := (ws_world s)\<lparr>kafka := y\<rparr>\<rparr>" False r' S C cfg]
  obtain n' t where "worker_run S C cfg (?s1\<lparr>ws_loop := Ending False (Done r'), ws_world := (ws_world s)\<lparr>kafka := y\<rparr>\<rparr>) n' t"
    "main_returned t" "kafka (ws_world t) = y" by auto
  from worker_run_append [OF this(1) two] this(2,3)
  show "\<exists>n t. worker_run S C cfg s n t \<and> main_returned t \<and> kafka (ws_world t) = y" by blast
  from late_stop_skips_the_end [OF assms(3), of S C cfg s] obtain t where
    t: "worker_step S C cfg ?s1 t" "ws_loop t = Ending True (Done (Inl CancelledError))" "ws_world t = ws_world s"
      "ws_tasks t = ws_tasks s" by blast
  from main_returns [OF t(2), of S C cfg] obtain n' t' where
    "worker_run S C cfg t n' t'" "main_returned t'" "ws_tasks t' = ws_tasks s" "kafka (ws_world t') = kafka (ws_world s)"
    using t(3,4) by auto
  with worker_run_append [OF this(1) run_step [OF one t(1)]]
  show "\<exists>n t. worker_run S C cfg s n t \<and> main_returned t \<and> ws_tasks t = ws_tasks s \<and>
       kafka (ws_world t) = kafka (ws_world s)" by blast
qed

theorem late_stop_leaves_clients_open_witness:
  "\<exists>s n t n' t'. worker_run good_worker ref_consumer worker_defaults (worker_init worker_defaults worker_world) 2 s \<and>
     worker_run good_worker ref_consumer worker_defaults s n t \<and> main_returned t \<and>
     rk_calls (kafka (ws_world t)) = rk_calls (kafka (ws_world s)) + 1 \<and>
     worker_run good_worker ref_consumer worker_defaults s n' t' \<and> main_returned t' \<and>
     kafka (ws_world t') = kafka (ws_world s)"
proof -
  obtain x where start: "worker_run good_worker ref_consumer worker_defaults (worker_init worker_defaults worker_world) 2
      (worker_started worker_defaults (worker_world\<lparr>kafka := x\<rparr>))"
    using good_start [of worker_defaults worker_world] by (metis numeral_2_eq_2)
  let ?s = "worker_started worker_defaults (worker_world\<lparr>kafka := x\<rparr>)"
  have s: "ws_loop ?s = Polling" "ws_world ?s = worker_world\<lparr>kafka := x\<rparr>"
    by (simp_all add: worker_started_def worker_init_def)
  obtain e where bad: "cr_value bad_record = Inl e" "\<not> isinstance e ''CancelledError''"
    by (simp add: bad_record_def exn_defs)
  have "c_stop ref_consumer (kafka (ws_world ?s)) = (Inr (), x)" by (simp add: s(2) ref_consumer_def ret_def)
  moreover have "k_stop (kafka_of good_worker) x = (Inr (), x\<lparr>rk_calls := rk_calls x + 1\<rparr>)"
    by (simp add: good_worker_def worker_services_def ref_kafka_def rk_call_def io_defs)
  ultimately show ?thesis
    using late_stop_leaves_clients_open [OF s(1) bad, of ref_consumer "()" x good_worker "Inr ()"
        "x\<lparr>rk_calls := rk_calls x + 1\<rparr>" worker_defaults] start s(2) by fastforce
qed

section \<open>A run in which an event is lost\<close>

interpretation closing_good: loop_frame good_worker "\<lambda>w w'. redis w' = redis w \<and> postgres w' = postgres w" ref_consumer
  by unfold_locales
     (auto simp: preorder_rel_def good_worker_def worker_services_def ref_pg_def ref_redis_def
       io_defs leads_def split: prod.splits)

lemma ref_sampling_co:
  "\<exists>l' w'. maybe_sample_lag_co good_worker ref_consumer (l, w) = (Done (Inr ()), (l', w')) \<and>
     redis w' = redis w \<and> postgres w' = postgres w \<and> pool_set w' = pool_set w"
  by (simp add: maybe_sample_lag_co_def co_bind_gets co_bind_def co_then_def co_andthen_def sync_def
      co_eff_def co_zoom_def co_try_def ref_consumer_def io_defs split: prod.split)

abbreviation sample_claim :: ref_redis where
  "sample_claim \<equiv> \<lparr>rr_now = 1, rr_store =
     [idempotency_key ref_py (JStr (event_id sample_event)) \<mapsto> (lit ''1'', Some 259201)]\<rparr>"

lemma sample_id:
  "map_of sample_dict (lit ''event_id'') = Some (JStr (event_id sample_event))" "event_id sample_event \<noteq> []"
  by (simp_all add: sample_dict_def sample_event_def)

lemma sample_claims:
  assumes "redis w = empty_redis" "pool_set w"
  shows "\<exists>b. untouched w b \<and> pauses_twice (task_co good_worker worker_defaults (sample_record 7)) w b b
    (tick IDEMPOTENCY_CHECK_LATENCY (b\<lparr>redis := sample_claim\<rparr>))"
proof -
  have ev: "IoTEvent (py_of good_worker) sample_dict = Inr sample_event"
    using sample_IoTEvent by (simp add: good_worker_def worker_services_def)
  obtain b where b: "untouched w b" "pool_set b" and v: "pool_set v \<Longrightarrow>
      r_set_nx (redis_of good_worker) (idempotency_key (py_of good_worker) (JStr (event_id sample_event)))
        (lit ''1'') (W_IDEMPOTENCY_TTL_SECONDS worker_defaults) (redis v) = (Inr True, x) \<Longrightarrow>
      pauses_twice (process_co good_worker worker_defaults (JObj sample_dict) (Some 0) (Some 7)) w b v
        (tick IDEMPOTENCY_CHECK_LATENCY (v\<lparr>redis := x\<rparr>))" for v x
    using claim_before_storing [OF sample_id ev, of worker_defaults w "Some 0" "Some 7"] assms(2)
    by (auto simp: worker_defaults_def)
  have "redis b = empty_redis" using b(1) assms(1) by (simp add: untouched_def)
  then have "r_set_nx (redis_of good_worker) (idempotency_key (py_of good_worker) (JStr (event_id sample_event)))
      (lit ''1'') (W_IDEMPOTENCY_TTL_SECONDS worker_defaults) (redis b) = (Inr True, sample_claim)"
    by (simp add: good_worker_def worker_services_def ref_redis_def rr_call_def rr_set_nx_def rr_at_def
        empty_redis_def worker_defaults_def)
  from v [OF b(2) this] b(1) show ?thesis by (auto simp: task_co_def sample_record_def)
qed

text \<open>The task of the sample event has claimed it when the stop signal comes, and the process is closed
  before the insertion is sent.\<close>

lemma sample_shutdown:
  "\<exists>n s k. worker_run good_worker ref_consumer worker_defaults (worker_init worker_defaults worker_world) n s \<and>
     main_returned s \<and> ws_tasks s = [] @ (sample_record 7, Running k) # [] \<and> ws_failed s = [] \<and>
     ws_commits s = [] \<and> redis (ws_world s) = sample_claim \<and> postgres (ws_world s) = fresh_pg"
proof -
  let ?run = "worker_run good_worker ref_consumer worker_defaults" and ?i = "worker_init worker_defaults worker_world"
  obtain x where start: "?run ?i (Suc (Suc 0)) (worker_started worker_defaults (worker_world\<lparr>kafka := x\<rparr>))"
    by (rule good_start)
  let ?s0 = "worker_started worker_defaults (worker_world\<lparr>kafka := x\<rparr>)"
  let ?step = "worker_step good_worker ref_consumer worker_defaults"
  obtain l w where sampled: "maybe_sample_lag_co good_worker ref_consumer (0, bump EVENTS_CONSUMED (worker_world\<lparr>kafka := x\<rparr>))
      = (Done (Inr ()), (l, w))" and w: "redis w = empty_redis" "postgres w = fresh_pg" "pool_set w"
    using ref_sampling_co [of 0 "bump EVENTS_CONSUMED (worker_world\<lparr>kafka := x\<rparr>)"] by (auto simp: worker_world_def)
  let ?s1 = "?s0\<lparr>ws_loop := Sampling (sample_record 7) (Done (Inr ())), ws_last_sample := l, ws_world := w,
    ws_received := [sample_record 7]\<rparr>"
  have 1: "?step ?s0 ?s1"
    using worker_step.receive [of ?s0 "sample_record 7" "JObj sample_dict" good_worker ref_consumer, OF _ sample_value] sampled
    by (simp add: worker_started_def worker_init_def)
  let ?s2 = "?s1\<lparr>ws_loop := Polling, ws_semaphore := 49, ws_tasks := [(sample_record 7, Created)]\<rparr>"
  have 2: "?step ?s1 ?s2"
    using worker_step.spawn [of ?s1 "sample_record 7" "()" good_worker ref_consumer worker_defaults]
    by (simp add: worker_started_def worker_init_def worker_defaults_def)
  from sample_claims [OF w(1,3)] obtain b k k' where b: "untouched w b"
    and k: "task_co good_worker worker_defaults (sample_record 7) w = (Paused k, b)"
    "k Proceed b = (Paused k', tick IDEMPOTENCY_CHECK_LATENCY (b\<lparr>redis := sample_claim\<rparr>))"
    by (auto simp: pauses_twice_def)
  let ?s3 = "?s2\<lparr>ws_world := b, ws_tasks := [(sample_record 7, Running k)]\<rparr>"
  have 3: "?step ?s2 ?s3"
    using worker_step.begin' [of ?s2 "[]" "sample_record 7" "[]" good_worker worker_defaults _ _ ref_consumer, simplified, OF k(1)]
    by (simp add: settle_def)
  let ?s4 = "?s3\<lparr>ws_world := tick IDEMPOTENCY_CHECK_LATENCY (b\<lparr>redis := sample_claim\<rparr>),
    ws_tasks := [(sample_record 7, Running k')]\<rparr>"
  have 4: "?step ?s3 ?s4"
    using worker_step.resume [of ?s3 "[]" "sample_record 7" k "[]" _ _ good_worker ref_consumer worker_defaults, simplified, OF k(2)]
    by (simp add: settle_def)
  obtain q v where q: "loop_end_co good_worker ref_consumer CancelledError (ws_world ?s4) = (q, v)" by (metis surj_pair)
  let ?s5 = "?s4\<lparr>ws_loop := Ending True q, ws_world := v\<rparr>"
  have 5: "?step ?s4 ?s5"
    using worker_step.cancel [of ?s4 _ good_worker ref_consumer worker_defaults] q
    by (simp add: end_loop_def held_record_def worker_started_def worker_init_def)
  have lead: "pause_leads (\<lambda>w w'. redis w' = redis w \<and> postgres w' = postgres w) q"
    "redis v = sample_claim \<and> postgres v = fresh_pg"
    using closing_good.ends_lead(1) [of CancelledError, unfolded co_leads_def, rule_format, of "ws_world ?s4"]
      q b w by (simp_all add: untouched_def)
  have run': "?run ?s0 (Suc (Suc (Suc (Suc (Suc 0))))) ?s5"
    by (intro run_step [OF _ 5] run_step [OF _ 4] run_step [OF _ 3] run_step [OF _ 2] run_step [OF _ 1] run_stop)
  note run = worker_run_append [OF run' start]
  obtain n s where "?run ?s5 n s" "main_returned s" "ws_tasks s = ws_tasks ?s5" "ws_failed s = ws_failed ?s5"
    "ws_commits s = ws_commits ?s5" "redis (ws_world s) = redis v" "postgres (ws_world s) = postgres v"
    using ending_completes [OF closing_good.loop_pre lead(1) _ closing_good.ends_lead(2), of ?s5 True ref_consumer worker_defaults] by auto
  with worker_run_append [OF this(1) run] lead(2) show ?thesis
    by (intro exI conjI) (assumption | simp add: worker_started_def worker_init_def)+
qed

theorem shutdown_loses_claimed_event_witness:
  "\<exists>n s s' v'. worker_run good_worker ref_consumer worker_defaults (worker_init worker_defaults worker_world) n s \<and>
     worker_step good_worker ref_consumer worker_defaults s s' \<and>
     ws_failed s' = [(sample_record 7, CancelledError)] \<and> ws_commits s' = [] \<and>
     process good_worker worker_defaults (JObj sample_dict) (Some 0) (Some 7) (ws_world s') = (Inr (), v') \<and>
     d_events (rp_tables (postgres v')) = []"
proof -
  obtain n s k where s: "worker_run good_worker ref_consumer worker_defaults (worker_init worker_defaults worker_world) n s"
    "main_returned s" "ws_tasks s = [] @ (sample_record 7, Running k) # []" "ws_failed s = []" "ws_commits s = []"
    and claim: "redis (ws_world s) = sample_claim" "postgres (ws_world s) = fresh_pg"
    using sample_shutdown by blast
  have store: "redis_store (redis_of good_worker) rr_at rr_now"
    unfolding good_worker_def worker_services_def by (simp add: rr.redis_store_axioms)
  have lasts: "claim_lasts rr_at rr_now (py_of good_worker) 259201 (event_id sample_event) (redis (ws_world s))"
    by (simp add: claim(1) claim_lasts_def rr_at_def good_worker_def worker_services_def)
  have again: "r_set_nx (redis_of good_worker) (idempotency_key (py_of good_worker) (JStr (event_id sample_event)))
      (lit ''1'') (W_IDEMPOTENCY_TTL_SECONDS worker_defaults) sample_claim = (Inr False, sample_claim\<lparr>rr_now := 2\<rparr>)"
    by (simp add: good_worker_def worker_services_def ref_redis_def rr_call_def rr_set_nx_def rr_at_def)
  from shutdown_loses_claimed_event [OF store s(1-3) sample_value sample_id lasts]
  obtain s' where s': "worker_step good_worker ref_consumer worker_defaults s s'"
    "ws_failed s' = ws_failed s @ [(sample_record 7, CancelledError)]" "ws_commits s' = ws_commits s"
    "untouched (ws_world s) (ws_world s')"
    and dup: "\<forall>cfg' part off v b x. redis v = redis (ws_world s') \<and>
      r_set_nx (redis_of good_worker) (idempotency_key (py_of good_worker) (JStr (event_id sample_event)))
        (lit ''1'') (W_IDEMPOTENCY_TTL_SECONDS cfg') (redis v) = (Inr b, x) \<and> rr_now x < 259201 \<longrightarrow>
      (\<exists>v'. process good_worker cfg' (JObj sample_dict) part off v = (Inr (), v') \<and> one_outcome EVENTS_DUPLICATE v v' \<and>
        kafka v' = kafka v \<and> postgres v' = postgres v)" by blast
  from s'(4) claim have world: "redis (ws_world s') = sample_claim" "postgres (ws_world s') = fresh_pg"
    by (simp_all add: untouched_def)
  from dup [rule_format, of "ws_world s'" worker_defaults False "sample_claim\<lparr>rr_now := 2\<rparr>" "Some 0" "Some 7"] again world
  obtain v' where "process good_worker worker_defaults (JObj sample_dict) (Some 0) (Some 7) (ws_world s') = (Inr (), v')"
    "postgres v' = fresh_pg" by auto
  with s s' show ?thesis by (intro exI conjI) (assumption | simp add: fresh_pg_def migrated_def)+
qed

section \<open>What is stored\<close>

text \<open>C10: The constraints of the schema hold in every state that the worker process can reach, however
  its tasks interleave at their awaits, whatever the calls answer, and also when it is stopped and its
  tasks are killed: keys are distinct, every row is in a partition and no state is without a device;
  and no row is ever lost.\<close>

theorem all_runs_keep_schema:
  assumes "pg_server (pg_of S) tables now_of" "worker_run S C cfg (worker_init cfg w0) n s"
  shows "(let db = tables (postgres w0); db' = tables (postgres (ws_world s))
    in grows db db' \<and> (wf_database db \<longrightarrow> wf_database db'))"
proof -
  have "process_frame S (pg_evolves tables) C" by (rule schema_process_frame [OF assms(1)])
  from process_frame.frame_run [OF this assms(2)] show ?thesis by (simp add: pg_rel_def evolves_def Let_def)
qed

theorem all_runs_keep_schema_witness:
  "\<exists>n s. worker_run good_worker ref_consumer worker_defaults (worker_init worker_defaults worker_world) n s \<and>
     ws_tasks s \<noteq> [] \<and> main_returned s \<and> wf_database (rp_tables (postgres (ws_world s)))"
proof -
  obtain n s where s: "worker_run good_worker ref_consumer worker_defaults (worker_init worker_defaults worker_world) n s"
    "main_returned s" "ws_tasks s \<noteq> []" using sample_shutdown by force
  with all_runs_keep_schema [OF good_worker_pg s(1)] show ?thesis
    by (auto simp: Let_def worker_world_def fresh_pg_def migrated_def wf_database_def)
qed

end
