(* ===== verification/Worker_Refines.thy ===== *)
theory Worker_Refines
  imports Worker_End
begin

text \<open>
  The two step relations of the worker. A step of \<open>consume_step\<close> (\<open>Consumer\<close>) takes a whole call of
  \<open>process\<close>, or of the sampling, at once; \<open>worker_step\<close> takes it from await to await. A coroutine whose
  turn does not end before it does makes the steps of the former out of steps of the latter
  (\<open>sampling_completes\<close>, \<open>task_completes\<close>), so that every run of the one is a run of the other
  (\<open>consume_runs_are_worker_runs\<close>), and what \<open>Consumer\<close> shows to be possible is possible here.
\<close>

section \<open>A coroutine goes on to its end\<close>

lemma sampling_completes:
  assumes "ws_loop s = Sampling m q" "pause_run q (ws_last_sample s, ws_world s) = (r, (l, w))"
  shows "\<exists>n. worker_run S C cfg s n (s\<lparr>ws_loop := Sampling m (Done r), ws_last_sample := l, ws_world := w\<rparr>)"
  using assms
proof (induction q arbitrary: s rule: pause_induct)
  case (Done r')
  then have "s\<lparr>ws_loop := Sampling m (Done r), ws_last_sample := l, ws_world := w\<rparr> = s" by (cases s) simp
  then show ?case using run_stop by metis
next
  case (Paused k)
  obtain q l' w' where q: "k Proceed (ws_last_sample s, ws_world s) = (q, (l', w'))" by (metis surj_pair)
  let ?s = "s\<lparr>ws_loop := Sampling m q, ws_last_sample := l', ws_world := w'\<rparr>"
  have "pause_run q (l', w') = (r, (l, w))" using Paused.prems(2) q by simp
  with Paused.IH [of ?s Proceed "(ws_last_sample s, ws_world s)"] q
  obtain n where n: "worker_run S C cfg ?s n (s\<lparr>ws_loop := Sampling m (Done r), ws_last_sample := l, ws_world := w\<rparr>)"
    by auto
  have "worker_step S C cfg s ?s" by (rule worker_step.sample [OF Paused.prems(1) q])
  from worker_run_append [OF n run_step [OF run_stop this]] show ?case by blast
qed

lemma task_completes:
  assumes "\<not> main_returned s" "ws_tasks s = pre @ (m, Running k) # post"
    and "pause_run (Paused k) (ws_world s) = (r, w)"
  shows "\<exists>n. worker_run S C cfg s n (settle m (Done r) pre post (s\<lparr>ws_world := w\<rparr>))"
proof -
  have "\<exists>n. worker_run S C cfg (settle m q pre post (t\<lparr>ws_world := v\<rparr>)) n (settle m (Done r) pre post (t\<lparr>ws_world := w\<rparr>))"
    if "\<not> main_returned t" "pause_run q v = (r, w)" for q t v
    using that
  proof (induction q arbitrary: v rule: pause_induct)
    case (Done r')
    then show ?case using run_stop by fastforce
  next
    case (Paused k)
    obtain q v' where q: "k Proceed v = (q, v')" by (metis surj_pair)
    let ?t = "settle m (Paused k) pre post (t\<lparr>ws_world := v\<rparr>)"
    have "worker_step S C cfg ?t (settle m q pre post (?t\<lparr>ws_world := v'\<rparr>))"
      using worker_step.resume [of ?t pre m k post q v' S C cfg] Paused.prems(1) q
      by (simp add: settle_def main_returned_def)
    moreover have "settle m q pre post (?t\<lparr>ws_world := v'\<rparr>) = settle m q pre post (t\<lparr>ws_world := v'\<rparr>)"
      by (simp add: settle_def release_task_def split: pause.split sum.split)
    ultimately have step: "worker_step S C cfg ?t (settle m q pre post (t\<lparr>ws_world := v'\<rparr>))" by simp
    obtain n where "worker_run S C cfg (settle m q pre post (t\<lparr>ws_world := v'\<rparr>)) n
        (settle m (Done r) pre post (t\<lparr>ws_world := w\<rparr>))"
      using Paused.IH [of Proceed v v'] Paused.prems q by auto
    from worker_run_append [OF this run_step [OF run_stop step]] show ?case by blast
  qed
  from this [OF assms(1,3)] obtain n
    where "worker_run S C cfg (settle m (Paused k) pre post s) n (settle m (Done r) pre post (s\<lparr>ws_world := w\<rparr>))" by auto
  moreover have "settle m (Paused k) pre post s = s" using assms(2) by (simp add: settle_def)
  ultimately show ?thesis by auto
qed

text \<open>Run alone, a task does what \<open>run_process\<close> does.\<close>

lemma run_task: "run (task_co S cfg m) = run_process S cfg m"
  by (cases "cr_value m") (simp_all add: task_co_def run_process_def run_simps run_process_co of_result_def
    bind_def raise_def fun_eq_iff)

lemma created_task_completes:
  assumes "\<not> main_returned s" "ws_tasks s = pre @ (m, Created) # post" "run_process S cfg m (ws_world s) = (r, w)"
  shows "\<exists>n. worker_run S C cfg s n (settle m (Done r) pre post (s\<lparr>ws_world := w\<rparr>))"
proof -
  obtain q v where q: "task_co S cfg m (ws_world s) = (q, v)" by (metis surj_pair)
  have res: "pause_run q v = (r, w)" using assms(3) run_task [of S cfg m] q by (metis case_prod_conv run_def)
  have step: "worker_step S C cfg s (settle m q pre post (s\<lparr>ws_world := v\<rparr>))"
    by (rule worker_step.begin' [OF assms(1,2) q])
  show ?thesis
  proof (cases q)
    case (Done r')
    with res have "r' = r" "v = w" by simp_all
    with step Done show ?thesis using run_step [OF run_stop] by metis
  next
    case (Paused k)
    let ?t = "settle m (Paused k) pre post (s\<lparr>ws_world := v\<rparr>)"
    have t: "ws_tasks ?t = pre @ (m, Running k) # post" "\<not> main_returned ?t" and w: "ws_world ?t = v"
      using assms(1) by (simp_all add: settle_def main_returned_def)
    have "pause_run (Paused k) (ws_world ?t) = (r, w)" using res unfolding Paused w .
    from task_completes [OF t(2,1) this]
    obtain n where "worker_run S C cfg ?t n (settle m (Done r) pre post (?t\<lparr>ws_world := w\<rparr>))" by blast
    moreover have "settle m (Done r) pre post (?t\<lparr>ws_world := w\<rparr>) = settle m (Done r) pre post (s\<lparr>ws_world := w\<rparr>)"
      by (simp add: settle_def release_task_def split: sum.split)
    ultimately have "worker_run S C cfg ?t n (settle m (Done r) pre post (s\<lparr>ws_world := w\<rparr>))" by simp
    from worker_run_append [OF this run_step [OF run_stop step [unfolded Paused]]] show ?thesis by blast
  qed
qed

section \<open>The simulation\<close>

fun phase_of :: "stage \<Rightarrow> ('r, 'p, 'k, 'h) task_phase" where
  "phase_of Processing = Created"
| "phase_of Committing = Commit_pending"

definition loop_of :: "('r, 'p, 'k, 'h) consumer_state \<Rightarrow> ('r, 'p, 'k, 'h) loop_phase \<Rightarrow> bool" where
  "loop_of c L \<longleftrightarrow> (case cs_ended c of
       Some e \<Rightarrow> \<exists>b q. L = Ending b q
     | None \<Rightarrow> L = (case cs_holding c of None \<Rightarrow> Polling | Some m \<Rightarrow> Sampling m (Done (Inr ()))))"

lemma loop_of_updates [simp]:
  "loop_of (c\<lparr>cs_tasks := ts\<rparr>) L = loop_of c L" "loop_of (c\<lparr>cs_world := w\<rparr>) L = loop_of c L"
  "loop_of (c\<lparr>cs_semaphore := n\<rparr>) L = loop_of c L" "loop_of (c\<lparr>cs_commits := cm\<rparr>) L = loop_of c L"
  by (simp_all add: loop_of_def cong: option.case_cong)

definition simulates :: "clabel list \<Rightarrow> ('r, 'p, 'k, 'h) consumer_state \<Rightarrow> ('r, 'p, 'k, 'h) worker_state \<Rightarrow> bool" where
  "simulates ls c t \<longleftrightarrow> ws_semaphore t = cs_semaphore c \<and> ws_last_sample t = cs_last_sample c \<and>
     ws_world t = cs_world c \<and> ws_tasks t = map (map_prod id phase_of) (cs_tasks c) \<and>
     ws_commits t = cs_commits c \<and> ws_received t = received ls \<and> ws_processed t = worked ls \<and>
     map fst (ws_failed t) = failed ls \<and> loop_of c (ws_loop t)"

lemma end_loop_simulates:
  assumes "simulates ls c t" "received [l] = []" "worked [l] = []" "failed [l] = []"
  shows "simulates (ls @ [l]) (c\<lparr>cs_ended := Some e\<rparr>) (end_loop S C b e t)"
proof -
  have "snd (loop_end_co S C e (ws_world t)) = ws_world t"
    by (simp add: loop_end_co_def co_finally_def co_then_def co_bind_def co_andthen_def co_catching_def
        sync_def await_def ret_def raise_def)
  then obtain q where "loop_end_co S C e (ws_world t) = (q, ws_world t)" by (metis prod.collapse)
  with assms show ?thesis by (simp add: simulates_def loop_of_def end_loop_def label_append del: received.simps worked.simps failed.simps)
qed

lemma simulates_runs: "simulates ls c t \<Longrightarrow> \<not> main_returned t"
  by (auto simp: simulates_def loop_of_def split: option.splits)

lemma simulates_task:
  assumes "simulates ls c t" "cs_tasks c = pre @ (m, st) # post"
  shows "ws_tasks t = map (map_prod id phase_of) pre @ (m, phase_of st) # map (map_prod id phase_of) post"
  using assms by (simp add: simulates_def)

lemma simulation_step:
  assumes "consume_step S C cfg c l c'" "simulates ls c t"
  shows "\<exists>n t'. worker_run S C cfg t n t' \<and> simulates (ls @ [l]) c' t'"
  using assms(1)
proof (cases rule: consume_step.cases)
  case (receive m event u lag w)
  obtain q l' w' where q: "maybe_sample_lag_co S C (ws_last_sample t, bump EVENTS_CONSUMED (ws_world t)) = (q, (l', w'))"
    by (metis surj_pair)
  have loop: "ws_loop t = Polling" using assms(2) receive(3,4) by (simp add: simulates_def loop_of_def)
  let ?t = "t\<lparr>ws_loop := Sampling m q, ws_last_sample := l', ws_world := w', ws_received := ws_received t @ [m]\<rparr>"
  have "run (maybe_sample_lag_co S C) (ws_last_sample t, bump EVENTS_CONSUMED (ws_world t)) = (Inr u, (lag, w))"
    using receive(6) assms(2) by (simp add: run_maybe_sample_lag simulates_def)
  then have "pause_run q (ws_last_sample ?t, ws_world ?t) = (Inr u, (lag, w))" using q by (simp add: run_def)
  from sampling_completes [OF _ this, of m S C cfg] obtain n where
    "worker_run S C cfg ?t n (?t\<lparr>ws_loop := Sampling m (Done (Inr u)), ws_last_sample := lag, ws_world := w\<rparr>)" by auto
  from worker_run_append [OF this run_step [OF run_stop worker_step.receive [OF loop receive(5) q]]] assms(2) receive
  show ?thesis by (intro exI conjI) (assumption, simp add: simulates_def loop_of_def label_append)
next
  case (undecodable m e)
  have "ws_loop t = Polling" using assms(2) undecodable(3,4) by (simp add: simulates_def loop_of_def)
  from worker_step.undecodable [OF this undecodable(5)] end_loop_simulates [OF assms(2), of l e S C False] undecodable(1,2)
  show ?thesis using run_step [OF run_stop] by fastforce
next
  case cancel
  have "ws_loop t = Polling \<or> ws_loop t = Sampling (the (cs_holding c)) (Done (Inr ()))"
    using assms(2) cancel(3) by (auto simp: simulates_def loop_of_def split: option.splits)
  from worker_step.cancel [OF this] end_loop_simulates [OF assms(2), of l CancelledError S C True] cancel(1,2)
  show ?thesis using run_step [OF run_stop] by fastforce
next
  case (spawn m)
  have loop: "ws_loop t = Sampling m (Done (Inr ()))" "0 < ws_semaphore t"
    using assms(2) spawn(3-5) by (simp_all add: simulates_def loop_of_def)
  from run_step [OF run_stop worker_step.spawn [OF loop]] show ?thesis
    by (intro exI conjI) (assumption, use assms(2) spawn in \<open>simp add: simulates_def loop_of_def label_append\<close>)
next
  case (work pre m post u w)
  note ts = simulates_task [OF assms(2) work(3), simplified]
  have "run_process S cfg m (ws_world t) = (Inr u, w)" using work(4) assms(2) by (simp add: simulates_def)
  from created_task_completes [where C = C, OF simulates_runs [OF assms(2)] ts this]
  show ?thesis
    by (elim exE, intro exI conjI) (assumption, use assms(2) work in \<open>simp add: simulates_def label_append settle_def\<close>)
next
  case (work_failed pre m post e w)
  note ts = simulates_task [OF assms(2) work_failed(3), simplified]
  have "run_process S cfg m (ws_world t) = (Inl e, w)" using work_failed(4) assms(2) by (simp add: simulates_def)
  from created_task_completes [where C = C, OF simulates_runs [OF assms(2)] ts this]
  show ?thesis
    by (elim exE, intro exI conjI) (assumption,
      use assms(2) work_failed in \<open>simp add: simulates_def label_append settle_def release_task_def end_task_def\<close>)
next
  case (commit pre m post u k)
  note ts = simulates_task [OF assms(2) commit(3), simplified]
  have "c_commit C (tp_of m) (cr_offset m + 1) (kafka (ws_world t)) = (Inr u, k)"
    using commit(4) assms(2) by (simp add: simulates_def)
  from run_step [OF run_stop worker_step.commit [OF simulates_runs [OF assms(2)] ts this]] show ?thesis
    by (intro exI conjI) (assumption,
      use assms(2) commit in \<open>simp add: simulates_def label_append release_task_def end_task_def\<close>)
next
  case (commit_failed pre m post e k)
  note ts = simulates_task [OF assms(2) commit_failed(3), simplified]
  have "c_commit C (tp_of m) (cr_offset m + 1) (kafka (ws_world t)) = (Inl e, k)"
    using commit_failed(4) assms(2) by (simp add: simulates_def)
  from run_step [OF run_stop worker_step.commit_failed [OF simulates_runs [OF assms(2)] ts this]] show ?thesis
    by (intro exI conjI) (assumption,
      use assms(2) commit_failed in \<open>simp add: simulates_def label_append release_task_def end_task_def\<close>)
qed

lemma simulation_run:
  assumes "consume_run S C cfg (consumer_init cfg w0) ls c"
  shows "\<exists>n t. worker_run S C cfg (worker_started cfg w0) n t \<and> simulates ls c t"
  using assms
proof (induction "consumer_init cfg w0" ls c rule: consume_run.induct)
  case stay
  have "simulates [] (consumer_init cfg w0) (worker_started cfg w0)"
    by (simp add: simulates_def consumer_init_def worker_init_def worker_started_def loop_of_def)
  then show ?case using run_stop by blast
next
  case (go ls c1 l c2)
  then obtain n t where t: "worker_run S C cfg (worker_started cfg w0) n t" "simulates ls c1 t" by blast
  from simulation_step [OF go(3) t(2)] obtain n' t' where "worker_run S C cfg t n' t'" "simulates (ls @ [l]) c2 t'" by blast
  with worker_run_append [OF _ t(1)] show ?case by blast
qed

text \<open>The two models of the worker agree: when the producer and the consumer have been started, every
  run of the consume loop in which a call of \<open>process\<close> is one step is, with the start before it, a run of
  the process in which the coroutines alternate at their awaits. The world, the
  commits and the tasks are the same at its end, and so are the records that were received, processed
  and failed on.\<close>

lemma consume_runs_are_worker_runs:
  assumes "k_start (kafka_of S) (dlq_producer_config cfg) (kafka w0) = (Inr u, x)" "c_start C (raw_consumer_config cfg) x = (Inr v, y)"
    and "consume_run S C cfg (consumer_init cfg (w0\<lparr>kafka := y\<rparr>)) ls s"
  shows "\<exists>n t. worker_run S C cfg (worker_init cfg w0) n t \<and> ws_world t = cs_world s \<and>
    ws_semaphore t = cs_semaphore s \<and> map fst (ws_tasks t) = map fst (cs_tasks s) \<and>
    ws_commits t = cs_commits s \<and> ws_received t = received ls \<and> ws_processed t = worked ls \<and>
    map fst (ws_failed t) = failed ls"
proof -
  from simulation_run [OF assms(3)] obtain n t where
    "worker_run S C cfg (worker_started cfg (w0\<lparr>kafka := y\<rparr>)) n t" "simulates ls s t" by blast
  from worker_run_append [OF this(1) start_run [OF assms(1,2)]] this(2) show ?thesis
    by (intro exI conjI) (assumption, simp_all add: simulates_def)
qed

text \<open>The run in which a later record is committed first.\<close>

lemma consume_runs_are_worker_runs_example:
  "\<exists>n t. worker_run good_worker ref_consumer worker_defaults (worker_init worker_defaults worker_world) n t \<and>
     ws_received t = [sample_record 0, sample_record 1] \<and> ws_processed t = [sample_record 1] \<and>
     map fst (ws_tasks t) = [sample_record 0] \<and> ws_commits t = [((lit ''iot.events.raw'', 0), 2)]"
proof -
  have two: "2 \<le> W_MAX_CONCURRENT_TASKS worker_defaults" by (simp add: worker_defaults_def)
  obtain x where x: "k_start (kafka_of good_worker) (dlq_producer_config worker_defaults) (kafka worker_world) = (Inr (), x)"
    "c_start ref_consumer (raw_consumer_config worker_defaults) x = (Inr (), x)" by (rule good_starts)
  from overtaking_run [OF two, of "worker_world\<lparr>kafka := x\<rparr>"] obtain s where
    run: "consume_run good_worker ref_consumer worker_defaults (consumer_init worker_defaults (worker_world\<lparr>kafka := x\<rparr>))
      (((((([] @ [Receive (sample_record 0)]) @ [Spawn]) @ [Receive (sample_record 1)]) @ [Spawn])
        @ [Work (sample_record 1)]) @ [Commit (sample_record 1)]) s"
    and s: "cs_tasks s = [(sample_record 0, Processing)]" "cs_commits s = [((lit ''iot.events.raw'', 0), 2)]" by blast
  from consume_runs_are_worker_runs [OF x run] s show ?thesis
    by (elim exE conjE, intro exI conjI) (assumption | simp)+
qed

end
