(* ===== verification/Ledger.thy ===== *)
theory Ledger
  imports Worker_End Task_Outcome
begin

text \<open>
  The accounts of the worker with all its tasks interleaved. The locale \<open>ledger\<close> is the contract between
  a task and the process: begun, the task is on its course (\<open>course\<close>), on which it has counted no
  outcome or one so far; what the other coroutines do to the world (\<open>R\<close>) leaves it there; when it ends,
  it has counted one outcome, and that is as it should be (\<open>fine\<close>), and stays so. From this follows
  once that the counters of the outcomes are what they were, and one more for each record that has
  been processed (\<open>accounts_run\<close>).
\<close>

fun task_account :: "(consumer_record \<Rightarrow> counter option \<Rightarrow> (('r, 'p, 'k, 'h) world, unit) pause \<Rightarrow>
    ('r, 'p, 'k, 'h) world \<Rightarrow> bool) \<Rightarrow> ('r, 'p, 'k, 'h) world \<Rightarrow>
    consumer_record \<times> ('r, 'p, 'k, 'h) task_phase \<Rightarrow> counter option \<Rightarrow> bool" where
  "task_account course w (m, Created) g \<longleftrightarrow> g = None"
| "task_account course w (m, Running k) g \<longleftrightarrow> course m g (Paused k) w"
| "task_account course w (m, Commit_pending) g \<longleftrightarrow> g = None"

definition in_all :: "counter option list \<Rightarrow> counter \<Rightarrow> nat" where
  "in_all gs c = sum_list (map (\<lambda>g. if g = Some c then 1 else 0) gs)"

lemma in_all_simps [simp]:
  "in_all [] c = 0" "in_all (g # gs) c = (if g = Some c then 1 else 0) + in_all gs c"
  "in_all (gs @ hs) c = in_all gs c + in_all hs c"
  by (simp_all add: in_all_def)

text \<open>The counters are what they were, the outcomes of the processed records, and those which the tasks
  in flight have counted.\<close>

definition accounts :: "(consumer_record \<Rightarrow> counter option \<Rightarrow> (('r, 'p, 'k, 'h) world, unit) pause \<Rightarrow>
    ('r, 'p, 'k, 'h) world \<Rightarrow> bool) \<Rightarrow> (consumer_record \<Rightarrow> counter \<Rightarrow> ('r, 'p, 'k, 'h) world \<Rightarrow> bool) \<Rightarrow>
    ('r, 'p, 'k, 'h) world \<Rightarrow> ('r, 'p, 'k, 'h) worker_state \<Rightarrow> bool" where
  "accounts course fine w0 s \<longleftrightarrow> ws_failed s = [] \<and> (\<exists>gs cs.
     list_all2 (task_account course (ws_world s)) (ws_tasks s) gs \<and>
     list_all2 (\<lambda>m c. fine m c (ws_world s)) (ws_processed s) cs \<and>
     (\<forall>c. outcome_counter c \<longrightarrow> tally c (ws_world s) = tally c w0 + count_list cs c + in_all gs c))"

lemma counted_tally:
  assumes "counted g w w' g'" "outcome_counter c"
  shows "tally c w' + (if g = Some c then 1 else 0) = tally c w + (if g' = Some c then 1 else 0)"
  using assms by (auto simp: counted_def one_outcome_def split: if_splits)

lemma counted_by_tasks:
  "list_all2 (task_account course w) ts gs \<Longrightarrow>
     \<exists>xs. length xs \<le> length (filter unsettled ts) \<and> (\<forall>c. in_all gs c = count_list xs c)"
proof (induction ts gs rule: list_all2_induct)
  case Nil
  show ?case by (intro exI [of _ "[]"]) simp
next
  case (Cons t ts g gs)
  then obtain xs where xs: "length xs \<le> length (filter unsettled ts)" "\<And>c. in_all gs c = count_list xs c" by blast
  show ?case
  proof (cases g)
    case None
    with xs show ?thesis by (intro exI [of _ xs]) auto
  next
    case (Some c)
    with Cons.hyps(1) have "unsettled t" by (cases t rule: unsettled.cases) simp_all
    with Some xs show ?thesis by (intro exI [of _ "c # xs"]) auto
  qed
qed

text \<open>The loop counts no outcome.\<close>

interpretation uncounted: loop_frame S same_outcomes C for S C
  by unfold_locales
     (auto simp: same_outcomes_def preorder_rel_def inc_def set_gauge_def bump_def intro!: world_calls_same leads_modify)

section \<open>Runs\<close>

lemma main_returned_stays: "worker_step S C cfg s s' \<Longrightarrow> main_returned s \<Longrightarrow> main_returned s'"
  by (erule worker_step.cases) (auto simp: main_returned_def release_task_def)

lemma created_received:
  assumes "worker_inv cfg s" "(m, t) \<in> set (ws_tasks s)" "t \<noteq> Commit_pending" shows "m \<in> set (ws_received s)"
proof -
  have "unsettled (m, t)" using assms(3) by (cases t) simp_all
  then have "m \<in> set (in_flight s)" using assms(2) by (force simp: in_flight_def)
  then have "m \<in># mset (ws_received s)" using assms(1) by (simp add: worker_inv_def)
  then show ?thesis by simp
qed

lemma received_stays: "worker_step S C cfg s s' \<Longrightarrow> set (ws_received s) \<subseteq> set (ws_received s')"
  by (erule worker_step.cases)
     (auto simp: settle_def release_task_def end_loop_def split: pause.split sum.split prod.split)

section \<open>The contract\<close>

locale ledger =
  fixes S :: "('r, 'p, 'k, 'h) services" and C :: "'k consumer_api" and cfg :: worker_settings
    and R :: "('r, 'p, 'k, 'h) world \<Rightarrow> ('r, 'p, 'k, 'h) world \<Rightarrow> bool"
    and due :: "consumer_record \<Rightarrow> bool"
    and course :: "consumer_record \<Rightarrow> counter option \<Rightarrow> (('r, 'p, 'k, 'h) world, unit) pause \<Rightarrow>
      ('r, 'p, 'k, 'h) world \<Rightarrow> bool"
    and fine :: "consumer_record \<Rightarrow> counter \<Rightarrow> ('r, 'p, 'k, 'h) world \<Rightarrow> bool"
  assumes related: "worker_run S C cfg (worker_init cfg w0) n s \<Longrightarrow> worker_step S C cfg s s' \<Longrightarrow>
      R (ws_world s) (ws_world s')"
    and course_begins: "due m \<Longrightarrow> \<exists>g. counted None w (snd (task_co S cfg m w)) g \<and>
      course m g (fst (task_co S cfg m w)) (snd (task_co S cfg m w))"
    and course_resumes: "course m g (Paused k) w \<Longrightarrow> \<exists>g'. counted g w (snd (k Proceed w)) g' \<and>
      course m g' (fst (k Proceed w)) (snd (k Proceed w))"
    and course_ends: "course m g (Done r) w \<Longrightarrow> r = Inr () \<and> (\<exists>c. g = Some c \<and> fine m c w)"
    and course_kept: "R w w' \<Longrightarrow> course m g q w \<Longrightarrow> course m g q w'"
    and fine_kept: "R w w' \<Longrightarrow> fine m c w \<Longrightarrow> fine m c w'"
begin

abbreviation "balanced \<equiv> accounts course fine"

text \<open>What other steps do to the world does no harm.\<close>

lemma accounts_kept:
  assumes "R w w'"
  shows "list_all2 (task_account course w) ts gs \<Longrightarrow> list_all2 (task_account course w') ts gs"
    "list_all2 (\<lambda>m c. fine m c w) ms cs \<Longrightarrow> list_all2 (\<lambda>m c. fine m c w') ms cs"
proof -
  have "task_account course w t g \<Longrightarrow> task_account course w' t g" for t g
    using course_kept [OF assms] by (cases t rule: unsettled.cases) auto
  then show "list_all2 (task_account course w) ts gs \<Longrightarrow> list_all2 (task_account course w') ts gs"
    by (auto elim: list_all2_mono)
  show "list_all2 (\<lambda>m c. fine m c w) ms cs \<Longrightarrow> list_all2 (\<lambda>m c. fine m c w') ms cs"
    using fine_kept [OF assms] by (auto elim: list_all2_mono)
qed

text \<open>One stretch of a task.\<close>

lemma settle_accounts:
  assumes "balanced w0 s" "ws_tasks s = pre @ (m, t) # post" "R (ws_world s) w"
    and "\<And>g. task_account course (ws_world s) (m, t) g \<Longrightarrow>
      \<exists>g'. counted g (ws_world s) w g' \<and> course m g' q w"
  shows "balanced w0 (settle m q pre post (s\<lparr>ws_world := w\<rparr>))"
proof -
  let ?T = "task_account course" and ?A = "\<lambda>w m c. fine m c w"
  from assms(1,2) obtain gs1 g gs2 cs where acc: "ws_failed s = []" "list_all2 (?T (ws_world s)) pre gs1"
    "?T (ws_world s) (m, t) g" "list_all2 (?T (ws_world s)) post gs2" "list_all2 (?A (ws_world s)) (ws_processed s) cs"
    and tally: "\<And>c. outcome_counter c \<Longrightarrow> tally c (ws_world s) = tally c w0 + count_list cs c + in_all (gs1 @ g # gs2) c"
    unfolding accounts_def by (auto simp: list_all2_append1 list_all2_Cons1)
  note kept = accounts_kept [OF assms(3)]
  from acc kept have acc': "list_all2 (?T w) pre gs1" "list_all2 (?T w) post gs2" "list_all2 (?A w) (ws_processed s) cs"
    by blast+
  from assms(4) [OF acc(3)] obtain g' where g': "counted g (ws_world s) w g'" "course m g' q w" by blast
  have now: "tally c w = tally c w0 + count_list cs c + in_all (gs1 @ g' # gs2) c" if "outcome_counter c" for c
    using counted_tally [OF g'(1) that] tally [OF that] by (auto split: if_splits)
  show ?thesis
  proof (cases q)
    case (Paused k)
    with acc(1) acc' g'(2) now show ?thesis
      unfolding accounts_def
      by (intro conjI exI [of _ "gs1 @ g' # gs2"] exI [of _ cs]) (auto simp: settle_def list_all2_appendI)
  next
    case (Done r)
    with g'(2) course_ends obtain c where c: "r = Inr ()" "g' = Some c" "fine m c w" by blast
    with Done acc(1) acc' now show ?thesis
      unfolding accounts_def
      by (intro conjI exI [of _ "gs1 @ None # gs2"] exI [of _ "cs @ [c]"])
         (auto simp: settle_def list_all2_appendI)
  qed
qed

lemma accounts_same:
  assumes "balanced w0 s" "R (ws_world s) (ws_world s')"
    and "same_outcomes (ws_world s) (ws_world s')" "ws_failed s' = ws_failed s"
    "ws_tasks s' = ws_tasks s" "ws_processed s' = ws_processed s"
  shows "balanced w0 s'"
  using assms accounts_kept [OF assms(2)] unfolding accounts_def same_outcomes_def by (simp, blast)

lemma accounts_released:
  assumes "balanced w0 s" "ws_tasks s = pre @ (m, Commit_pending) # post"
    and "R (ws_world s) (ws_world s')" "same_outcomes (ws_world s) (ws_world s')"
    "ws_failed s' = ws_failed s" "ws_tasks s' = pre @ post" "ws_processed s' = ws_processed s"
  shows "balanced w0 s'"
proof -
  from assms(1,2) obtain gs1 gs2 cs where "ws_failed s = []" "list_all2 (task_account course (ws_world s)) pre gs1"
    "list_all2 (task_account course (ws_world s)) post gs2"
    "list_all2 (\<lambda>m c. fine m c (ws_world s)) (ws_processed s) cs"
    "\<And>c. outcome_counter c \<Longrightarrow> tally c (ws_world s) = tally c w0 + count_list cs c + in_all (gs1 @ gs2) c"
    unfolding accounts_def by (auto simp: list_all2_append1 list_all2_Cons1)
  with assms(4-7) accounts_kept [OF assms(3)] show ?thesis
    unfolding accounts_def same_outcomes_def
    by (intro conjI exI [of _ "gs1 @ gs2"] exI [of _ cs]) (auto simp: list_all2_appendI)
qed

lemma accounts_end_loop:
  "balanced w0 s \<Longrightarrow> R (ws_world s) (ws_world (end_loop S C c e s)) \<Longrightarrow> balanced w0 (end_loop S C c e s)"
  by (rule accounts_same, assumption, assumption, rule uncounted.end_loop_leads)
     (simp_all add: end_loop_def split: prod.split)

text \<open>Every step.\<close>

lemma accounts_step:
  assumes "worker_step S C cfg s s'"
    and "balanced w0 s" "uncounted.loop_kept s" "R (ws_world s) (ws_world s')"
    and "\<not> main_returned s'" "\<And>m. (m, Created) \<in> set (ws_tasks s) \<Longrightarrow> due m"
  shows "balanced w0 s'"
  using assms(1)
proof (cases rule: worker_step.cases)
  case (receive m event q l w)
  then show ?thesis
    using uncounted.receive_leads [OF receive(4)] by (intro accounts_same [OF assms(2,4)]) simp_all
next
  case (sample m k q l w)
  then show ?thesis
    using uncounted.sample_leads [OF assms(3)] by (intro accounts_same [OF assms(2,4)]) simp_all
next
  case (spawn m u)
  from assms(2) obtain gs cs where "ws_failed s = []" "list_all2 (task_account course (ws_world s)) (ws_tasks s) gs"
    "list_all2 (\<lambda>m c. fine m c (ws_world s)) (ws_processed s) cs"
    "\<And>c. outcome_counter c \<Longrightarrow> tally c (ws_world s) = tally c w0 + count_list cs c + in_all gs c"
    unfolding accounts_def by auto
  then show ?thesis
    unfolding accounts_def spawn(1)
    by (intro conjI exI [of _ "gs @ [None]"] exI [of _ cs]) (auto simp: list_all2_appendI)
next
  case (cancel_sampling m k sig e l w)
  have "same_outcomes (ws_world s) (ws_world s')"
    using uncounted.loop_trans [OF uncounted.sample_leads [OF assms(3) cancel_sampling(2,4)]
        uncounted.end_loop_leads [of "s\<lparr>ws_last_sample := l, ws_world := w\<rparr>" S C True e, simplified]] cancel_sampling(1) by simp
  then show ?thesis
    using cancel_sampling(1) by (intro accounts_same [OF assms(2,4)]) (simp_all add: end_loop_def split: prod.split)
next
  case (close k q w)
  then show ?thesis
    using uncounted.close_leads [OF assms(3)] by (intro accounts_same [OF assms(2,4)]) simp_all
next
  case (end' c k q w)
  then show ?thesis
    using uncounted.close_leads [OF assms(3)] by (intro accounts_same [OF assms(2,4)]) simp_all
next
  case (cancel_ending k sig q w)
  then show ?thesis
    using uncounted.close_leads [OF assms(3)] by (intro accounts_same [OF assms(2,4)]) simp_all
next
  case (wake_main c r q w)
  then show ?thesis
    using uncounted.wake_leads [of S "ws_world s" q w] by (intro accounts_same [OF assms(2,4)]) simp_all
next
  case (started u x)
  then show ?thesis by (intro accounts_same [OF assms(2,4)]) (simp_all add: same_outcomes_def)
next
  case (start_failed e x)
  then show ?thesis by (intro accounts_same [OF assms(2,4)]) (simp_all add: same_outcomes_def)
next
  case (cancel_start r x sent')
  then show ?thesis by (intro accounts_same [OF assms(2,4)]) (simp_all add: same_outcomes_def)
next
  case (joined u x)
  then show ?thesis by (intro accounts_same [OF assms(2,4)]) (simp_all add: same_outcomes_def)
next
  case (join_failed e x)
  then show ?thesis
    using uncounted.join_leads(1) [OF join_failed(3), where c = False and e = e and S = S]
    by (intro accounts_same [OF assms(2,4)]) (simp_all add: end_loop_def split: prod.split)
next
  case (cancel_join r x sent')
  then show ?thesis
    using uncounted.join_leads(2) [OF cancel_join(3), where c = True and e = CancelledError and S = S and sent' = sent']
    by (intro accounts_same [OF assms(2,4)]) (simp_all add: end_loop_def split: prod.split)
next
  case (begin' pre m post q w)
  then have "due m" using assms(6) by simp
  from course_begins [OF this, of "ws_world s"] obtain g' where
    "counted None (ws_world s) w g'" "course m g' q w" using begin'(4) by auto
  then show ?thesis
    using assms(4) unfolding begin'(1) by (intro settle_accounts [OF assms(2) begin'(3)]) auto
next
  case (resume pre m k post q w)
  have "\<exists>g'. counted g (ws_world s) w g' \<and> course m g' q w"
    if "task_account course (ws_world s) (m, Running k) g" for g
    using course_resumes [of m g k "ws_world s"] that resume(4) by simp
  then show ?thesis
    using assms(4) unfolding resume(1) by (intro settle_accounts [OF assms(2) resume(3)]) simp_all
next
  case (commit pre m post x)
  then show ?thesis
    using uncounted.commit_leads [OF commit(4)]
    by (intro accounts_released [OF assms(2) commit(3) assms(4)]) (simp_all add: release_task_def)
next
  case (commit_failed pre m post e x)
  then show ?thesis
    using uncounted.commit_leads [OF commit_failed(4)]
    by (intro accounts_released [OF assms(2) commit_failed(3) assms(4)]) (simp_all add: release_task_def)
qed (use assms(2,4,5) accounts_end_loop in \<open>auto simp: main_returned_def release_task_def\<close>)

lemma accounts_run:
  assumes "0 \<le> W_MAX_CONCURRENT_TASKS cfg" "worker_run S C cfg (worker_init cfg w0) n s"
    and "\<not> main_returned s" "\<forall>m\<in>set (ws_received s). due m"
  shows "balanced w0 s"
  using assms(2-4)
proof (induction "worker_init cfg w0" n s rule: worker_run.induct)
  case run_stop
  show ?case by (auto simp: accounts_def worker_init_def intro: exI [of _ "[]"])
next
  case (run_step n s1 s2)
  have before: "\<not> main_returned s1" "\<forall>m\<in>set (ws_received s1). due m"
    using run_step(4,5) main_returned_stays [OF run_step(3)] received_stays [OF run_step(3)] by auto
  then have acc: "balanced w0 s1" by (rule run_step(2))
  have keys: "due m" if "(m, Created) \<in> set (ws_tasks s1)" for m
    using created_received [OF worker_run_inv [OF assms(1) run_step(1)] that] before(2) by simp
  from accounts_step [OF run_step(3) acc uncounted.loop_kept_run [OF run_step(1)]
      related [OF run_step(1,3)] run_step(4) keys]
  show ?case .
qed

text \<open>In the terms of the properties: what is in flight has counted at most one outcome each.\<close>

lemma accounts_balance:
  assumes "0 \<le> W_MAX_CONCURRENT_TASKS cfg" "worker_run S C cfg (worker_init cfg w0) n s"
    and "\<not> main_returned s" "\<forall>m\<in>set (ws_received s). due m"
  shows "ws_failed s = [] \<and> (\<exists>cs xs. list_all2 (\<lambda>m c. fine m c (ws_world s)) (ws_processed s) cs \<and>
    length xs \<le> length (in_flight s) \<and>
    (\<forall>c. outcome_counter c \<longrightarrow> tally c (ws_world s) = tally c w0 + count_list (cs @ xs) c))"
proof -
  from accounts_run [OF assms] obtain gs cs where acc: "ws_failed s = []"
    "list_all2 (task_account course (ws_world s)) (ws_tasks s) gs"
    "list_all2 (\<lambda>m c. fine m c (ws_world s)) (ws_processed s) cs"
    "\<And>c. outcome_counter c \<Longrightarrow> tally c (ws_world s) = tally c w0 + count_list cs c + in_all gs c"
    unfolding accounts_def by auto
  from counted_by_tasks [OF acc(2)] obtain xs where
    "length xs \<le> length (in_flight s)" "\<And>c. in_all gs c = count_list xs c" by (auto simp: in_flight_def)
  with acc(1,3,4) show ?thesis
    by (intro conjI exI [of _ cs] exI [of _ xs]) (simp_all add: add.assoc)
qed

end

end
