(* ===== verification/Task_Stored.thy ===== *)
theory Task_Stored
  imports Task_Outcome
begin

text \<open>
  An event is stored before it is counted as processed, also in a task among other tasks. The ghost
  value says whether a row with the id of the event is known to be in the table of events (\<open>stored_fits\<close>):
  once it is, it stays, as no statement of any task removes a row, and as long as it is not, the task
  counts no event as processed (\<open>stored_step\<close>).
\<close>

definition has_row :: "('p \<Rightarrow> database) \<Rightarrow> pystr \<Rightarrow> ('r, 'p, 'k, 'h) world \<Rightarrow> bool" where
  "has_row tables i w \<longleftrightarrow> rows_with_id i (tables (postgres w)) \<noteq> []"

definition none_processed :: "('r, 'p, 'k, 'h) world \<Rightarrow> ('r, 'p, 'k, 'h) world \<Rightarrow> bool" where
  "none_processed w w' \<longleftrightarrow> (\<forall>t. tally (EVENTS_PROCESSED t) w' = tally (EVENTS_PROCESSED t) w)"

definition stored_fits :: "('p \<Rightarrow> database) \<Rightarrow> pystr \<Rightarrow> bool \<Rightarrow> ('r, 'p, 'k, 'h) world \<Rightarrow> bool" where
  "stored_fits tables i b w \<longleftrightarrow> (b \<longrightarrow> has_row tables i w)"

definition stored_step :: "(bool, ('r, 'p, 'k, 'h) world) step_rel" where
  "stored_step b w w' b' \<longleftrightarrow> (b \<longrightarrow> b') \<and> (b' \<or> none_processed w w')"

lemma ghost_stored: "ghost_rel (stored_fits tables i) stored_step"
  unfolding ghost_rel_def stored_step_def none_processed_def by auto

lemmas ghost_stored_ctx = ghost_rel_ctx [OF ghost_stored]

lemma has_row_evolves: "pg_evolves tables w w' \<Longrightarrow> has_row tables i w \<Longrightarrow> has_row tables i w'"
  by (auto simp: pg_rel_def evolves_def grows_def has_row_def rows_with_id_def)

text \<open>What is done before the event is stored.\<close>

definition unstored :: "('p \<Rightarrow> database) \<Rightarrow> ('r, 'p, 'k, 'h) world \<Rightarrow> ('r, 'p, 'k, 'h) world \<Rightarrow> bool" where
  "unstored tables w w' \<longleftrightarrow> pg_evolves tables w w' \<and> none_processed w w'"

lemma preorder_unstored: "preorder_rel (unstored tables)"
  using preorder_pg_evolves [of tables] unfolding preorder_rel_def unstored_def none_processed_def by auto

lemma leads_unstored:
  "leads (pg_evolves tables) m \<Longrightarrow> leads none_processed m \<Longrightarrow> leads (unstored tables) m"
  by (auto simp: leads_def unstored_def)

lemma none_processed_calls:
  "leads none_processed (on_redis mr)" "leads none_processed (on_pg mp)" "leads none_processed (on_kafka mk)"
  "leads none_processed (on_host mh)" "leads none_processed (ask_host f)" "leads none_processed (observe h)"
  "leads none_processed (add_gauge g v)"
  by (auto simp: none_processed_def observe_def add_gauge_def intro!: world_calls_same leads_modify)

lemma none_processed_inc: "(\<And>t. EVENTS_PROCESSED t \<noteq> c) \<Longrightarrow> leads none_processed (inc c)"
  by (auto simp: none_processed_def inc_def bump_def intro!: leads_modify)

lemma unstored_calls:
  assumes "pg_server (pg_of S) tables now_of" shows "worker_calls S (unstored tables)"
  by unfold_locales
     (intro preorder_unstored leads_unstored none_processed_calls none_processed_inc leads_pg_elsewhere preorder_evolves leads_on_pg
        pg_server.execute_evolves [OF assms]; simp)+

section \<open>Two rules\<close>

lemma co_raises_any:
  fixes p :: "('s, 'a) co" shows "co_raises (\<lambda>_. True) p"
proof -
  have "pause_spec (\<lambda>_ _. True) (\<lambda>_ _ _ _. True) (\<lambda>_ r. \<forall>e. r = Inl e \<longrightarrow> True) () q" for q :: "('s, 'a) pause"
    by (induction q) (auto intro: pause_spec.intros)
  then show ?thesis by (auto simp: co_raises_def co_spec_def)
qed

lemma spec_unstored:
  assumes "co_leads (unstored tables) p" shows "co_spec (stored_fits tables i) stored_step (\<lambda>b' r. b' = b) b p"
  by (rule co_spec_mono, rule co_spec_keep [OF _ assms co_raises_any])
     (auto simp: stored_fits_def stored_step_def unstored_def intro: has_row_evolves)

text \<open>A handler whose coroutine keeps the value \<open>b\<close>, whatever it does to the context, which is \<open>\<pi>\<close> of the
  first component of the state.\<close>

lemma pause_spec_ctx:
  assumes "\<And>w w'. I b w \<Longrightarrow> R w w' \<Longrightarrow> I b w' \<and> G b w w' b"
    and "\<And>g s. J g s \<longleftrightarrow> snd g = \<pi> (fst s) \<and> I (fst g) (snd s)" "pause_leads (on_snd R) q"
  shows "pause_spec J (ctx_step G) (\<lambda>g r. fst g = b) (b, c) q"
  using assms(3)
proof (induction q arbitrary: c rule: pause_leads.induct)
  case (leads_Done r)
  show ?case by (simp add: pause_spec.spec_Done)
next
  case (leads_Paused k)
  show ?case
  proof (rule pause_spec.spec_Paused)
    fix s assume s: "J (b, c) s"
    have "I b (snd (snd (k Proceed s))) \<and> G b (snd s) (snd (snd (k Proceed s))) b"
      using assms(1) [of "snd s" "snd (snd (k Proceed s))"] leads_Paused(1) [of s Proceed] s
      by (simp add: on_snd_def assms(2))
    then have "J (b, \<pi> (fst (snd (k Proceed s)))) (snd (k Proceed s))"
      "ctx_step G (b, c) s (snd (k Proceed s)) (b, \<pi> (fst (snd (k Proceed s))))"
      by (simp_all add: ctx_step_def assms(2))
    with leads_Paused.IH [of "\<pi> (fst (snd (k Proceed s)))" Proceed s]
    show "\<exists>g'. J g' (snd (k Proceed s)) \<and> ctx_step G (b, c) s (snd (k Proceed s)) g' \<and>
        pause_spec J (ctx_step G) (\<lambda>g r. fst g = b) g' (fst (k Proceed s))"
      by blast
  qed
qed

lemma co_spec_ctx:
  assumes "\<And>w w'. I b w \<Longrightarrow> R w w' \<Longrightarrow> I b w' \<and> G b w w' b"
    and "\<And>g s. J g s \<longleftrightarrow> snd g = \<pi> (fst s) \<and> I (fst g) (snd s)" "co_leads (on_snd R) p"
  shows "co_spec J (ctx_step G) (\<lambda>g r. fst g = b) (b, c) p"
proof (rule co_specI)
  fix s assume s: "J (b, c) s"
  have p: "on_snd R s (snd (p s))" "pause_leads (on_snd R) (fst (p s))"
    using assms(3) unfolding co_leads_def by blast+
  have "I b (snd (snd (p s))) \<and> G b (snd s) (snd (snd (p s))) b"
    using assms(1) [of "snd s" "snd (snd (p s))"] p(1) s by (simp add: on_snd_def assms(2))
  then have "J (b, \<pi> (fst (snd (p s)))) (snd (p s))" "ctx_step G (b, c) s (snd (p s)) (b, \<pi> (fst (snd (p s))))"
    by (simp_all add: ctx_step_def assms(2))
  with pause_spec_ctx [where I = I and R = R and G = G and J = J and \<pi> = \<pi> and b = b, OF assms(1,2) p(2)]
  show "\<exists>g'. J g' (snd (p s)) \<and> ctx_step G (b, c) s (snd (p s)) g' \<and>
      pause_spec J (ctx_step G) (\<lambda>g r. fst g = b) g' (fst (p s))"
    by blast
qed

text \<open>Before the event is stored, and afterwards.\<close>

lemma spec_unstored_ctx:
  assumes "co_leads (on_snd (unstored tables)) p"
  shows "co_spec (ctx_fits (stored_fits tables i)) (ctx_step stored_step) (\<lambda>g r. fst g = b) (b, c) p"
  by (rule co_spec_ctx [where \<pi> = "\<lambda>c. c" and I = "stored_fits tables i", OF _ _ assms])
     (auto simp: stored_fits_def stored_step_def unstored_def ctx_fits_def intro: has_row_evolves)

lemma spec_unstored_var:
  assumes "co_leads (on_snd (unstored tables)) p"
  shows "co_spec (var_fits (stored_fits tables i)) (ctx_step stored_step) (\<lambda>g r. fst g = b) (b, c) p"
  by (rule co_spec_ctx [where \<pi> = snd and I = "stored_fits tables i", OF _ _ assms])
     (auto simp: stored_fits_def stored_step_def unstored_def var_fits_def intro: has_row_evolves)

lemma spec_stored_var:
  assumes "co_leads (on_snd (pg_evolves tables)) p"
  shows "co_spec (var_fits (stored_fits tables i)) (ctx_step stored_step) (\<lambda>g r. fst g) (True, c) p"
  by (rule co_spec_mono [OF co_spec_ctx [where \<pi> = snd and I = "stored_fits tables i" and b = True, OF _ _ assms]])
     (auto simp: stored_fits_def stored_step_def var_fits_def intro: has_row_evolves)

section \<open>The parts\<close>

lemma insert_has_row:
  "exec_sql now (InsertEvent i d t v p m ts) db = Some (tag, db') \<Longrightarrow> rows_with_id i db' \<noteq> []"
  by (auto simp: rows_with_id_def filter_empty_conv split: if_splits option.splits)

lemma leads_unstored_metrics:
  "(\<And>t. EVENTS_PROCESSED t \<noteq> c) \<Longrightarrow> leads (unstored tables) (inc c)" "leads (unstored tables) (observe h)"
  "leads (unstored tables) (add_gauge g v)" "leads (unstored tables) (on_kafka mk)"
  by (intro leads_unstored leads_pg_elsewhere preorder_evolves none_processed_calls none_processed_inc; simp)+

sublocale worker_database \<subseteq> unstored: worker_calls S "unstored tables"
  by (rule unstored_calls, unfold_locales)

context worker_database
begin

abbreviation "row_fits \<equiv> stored_fits tables"

lemma unstored_dlq: "co_leads (unstored tables) (dlq_send_co S cfg ev et em rc tp pa off)"
  unfolding dlq_send_co_def Let_def by (intro leads_intros leads_unstored_metrics; simp)

lemma unstored_handlers:
  "co_leads (unstored tables) (is_new_co S cfg i)"
  "co_leads (on_snd (unstored tables)) (send_context_co S cfg et em rc)"
  "co_leads (on_snd (unstored tables)) (give_up_co S cfg ev et exc)"
proof -
  show "co_leads (unstored tables) (is_new_co S cfg i)"
    unfolding is_new_co_def by (intro leads_intros leads_unstored_metrics; simp)
  show ctx: "co_leads (on_snd (unstored tables)) (send_context_co S cfg et em rc)" for et em rc
    unfolding send_context_co_def by (intro leads_intros unstored_dlq)
  show "co_leads (on_snd (unstored tables)) (give_up_co S cfg ev et exc)"
    unfolding give_up_co_def by (intro leads_intros ctx)
qed

lemma insert_stores:
  "co_spec (row_fits i) stored_step (\<lambda>b r. \<forall>x. r = Inr x \<longrightarrow> b) b (insert_event_co S i d t v p m ts)"
proof -
  let ?q = "InsertEvent i d t v (JObj p) (JObj m) ts"
  have call: "co_spec (row_fits i) stored_step (\<lambda>b r. \<forall>x. r = Inr x \<longrightarrow> b) b (await (on_pg (pg_execute (pg_of S) ?q)))" for b
  proof (rule co_spec_await [OF ghost_stored])
    fix s r s' assume s: "row_fits i b s" and run: "on_pg (pg_execute (pg_of S) ?q) s = (r, s')"
    from run obtain x' where x': "pg_execute (pg_of S) ?q (postgres s) = (r, x')" "s' = s\<lparr>postgres := x'\<rparr>"
      by (auto simp: on_pg_def split: prod.splits)
    have kept: "none_processed s s'" by (simp add: none_processed_def x'(2))
    show "\<exists>b'. row_fits i b' s' \<and> stored_step b s s' b' \<and> (\<forall>x. r = Inr x \<longrightarrow> b')"
    proof (cases r)
      case (Inl e)
      have "pg_evolves tables s s'"
        using leadsD [OF execute_evolves x'(1)] x'(2) by (simp add: pg_rel_def)
      with s kept Inl show ?thesis
        by (intro exI [of _ b]) (auto simp: stored_fits_def stored_step_def intro: has_row_evolves)
    next
      case (Inr tag)
      have "exec_sql (now_of x') ?q (tables (postgres s)) = Some (tag, tables x')"
        using execute_ok [of ?q "postgres s" tag x'] x'(1) by (simp only: Inr)
      from insert_has_row [OF this] have "has_row tables i s'" by (simp add: has_row_def x'(2))
      then show ?thesis by (intro exI [of _ True]) (simp add: stored_fits_def stored_step_def)
    qed
  qed
  have keep: "co_spec (row_fits i) stored_step (\<lambda>b' r. b' = b) b (sync mm)" if "leads (unstored tables) mm" for b mm
    by (rule spec_unstored) (rule co_leads_sync [OF that])
  show ?thesis
    unfolding insert_event_co_def get_pool_def
    apply (rule co_spec_andthen [OF ghost_stored keep])
      apply (intro leads_intros)
     apply (rule co_spec_bind [OF ghost_stored call])
      apply (rule co_spec_mono [OF keep])
       apply (intro leads_intros)
      apply simp_all
    done
qed

text \<open>Whatever the context: the retried insertion.\<close>

lemma insert_once_stores:
  "co_spec (var_fits (row_fits (event_id ev))) (ctx_step stored_step) (\<lambda>g r. \<forall>x. r = Inr x \<longrightarrow> fst g) g
    (insert_once_co S ev)"
proof -
  let ?ins = "insert_event_co S (event_id ev) (device_id ev) (event_type ev) (schema_version ev)
      (payload ev) (metadata ev) (timestamp ev)"
  let ?Q = "\<lambda>b (r :: exn + unit). \<forall>x. r = Inr x \<longrightarrow> b"
  have "co_spec (row_fits (event_id ev)) stored_step ?Q b (co_andthen ?ins (sync (ret ())))" for b
    by (rule co_spec_andthen [OF ghost_stored insert_stores]) (auto intro: co_spec_ret [OF ghost_stored])
  then have timed: "co_spec (row_fits (event_id ev)) stored_step ?Q b (timed_co DB_WRITE_LATENCY (co_andthen ?ins (sync (ret ()))))" for b
    unfolding timed_co_def
    by (rule co_spec_finally [OF ghost_stored])
       (rule co_spec_mono [OF spec_unstored [OF co_leads_sync [OF leads_unstored_metrics(2)]]], auto split: sum.split)
  have count: "co_spec (var_fits (row_fits (event_id ev))) (ctx_step stored_step) (\<lambda>g r. True) g
      (sync (modify (\<lambda>((n, c), w). ((n + 1, c), w))))" for g
    by (cases g, simp only:, rule co_spec_mono [OF spec_unstored_var])
       (auto simp: on_snd_def preorder_relD [OF preorder_unstored] intro!: co_leads_sync leads_modify)
  have ins: "co_spec (var_fits (row_fits (event_id ev))) (ctx_step stored_step) (\<lambda>g r. \<forall>x. r = Inr x \<longrightarrow> fst g) g
      (co_eff (timed_co DB_WRITE_LATENCY (co_andthen ?ins (sync (ret ())))))" for g
    by (cases g, simp only:, rule co_spec_mono [OF co_spec_eff(2) [OF timed]]) auto
  show ?thesis
    unfolding insert_once_co_def by (rule co_spec_andthen [OF ghost_stored_ctx(2) count]) (rule ins, simp)
qed

lemma retry_stores:
  "co_spec (var_fits (row_fits (event_id ev))) (ctx_step stored_step) (\<lambda>g r. \<forall>x. r = Inr x \<longrightarrow> fst g) g
    (with_retry_co S cfg (insert_once_co S ev))"
proof -
  have attempt: "co_spec (var_fits (row_fits (event_id ev))) (ctx_step stored_step)
      (\<lambda>g r. \<forall>x. r = Inr (Inr x) \<longrightarrow> fst g) g (retry_attempt_co S cfg (insert_once_co S ev) n)" for g n
    unfolding retry_attempt_co_def
  proof (rule co_spec_try [OF ghost_stored_ctx(2)])
    show "co_spec (var_fits (row_fits (event_id ev))) (ctx_step stored_step) (\<lambda>g r. \<forall>x. r = Inr (Inr x) \<longrightarrow> fst g) g
        (co_bind (insert_once_co S ev) (\<lambda>x. sync (ret (Inr x))))"
      by (rule co_spec_bind [OF ghost_stored_ctx(2) insert_once_stores]) (auto intro: co_spec_ret [OF ghost_stored_ctx(2)])
  next
    fix g :: "bool \<times> worker_context" and exc
    have keep: "co_spec (var_fits (row_fits (event_id ev))) (ctx_step stored_step) (\<lambda>g r. True) g p"
      if "co_leads (on_snd (unstored tables)) p" for g and p :: "((int \<times> worker_context) \<times> ('r, 'p, 'k, 'h) world, unit) co"
      by (cases g, simp only:, rule co_spec_mono [OF spec_unstored_var [OF that]]) simp
    have count: "co_leads (on_snd (unstored tables))
        (sync (eff (inc (RETRY_ATTEMPTS ty))) :: ((int \<times> worker_context) \<times> ('r, 'p, 'k, 'h) world, unit) co)" for ty
      by (intro leads_intros)
    have sleep: "co_leads (on_snd (unstored tables)) (co_eff (co_bind (sync (compute_delay S cfg n))
        (\<lambda>delay. await (on_host (h_sleep (host_of S) delay)))))"
      by (intro leads_intros)
    let ?Q = "\<lambda>g (r :: exn + exn + unit). \<forall>x. r = Inr (Inr x) \<longrightarrow> fst g"
    have one: "co_spec (var_fits (row_fits (event_id ev))) (ctx_step stored_step) ?Q g (co_andthen p (sync (ret (Inl exc))))"
      if "co_leads (on_snd (unstored tables)) p" for g and p :: "((int \<times> worker_context) \<times> ('r, 'p, 'k, 'h) world, unit) co"
      by (rule co_spec_andthen [OF ghost_stored_ctx(2) keep [OF that]]) (auto intro: co_spec_ret [OF ghost_stored_ctx(2)])
    have two: "co_spec (var_fits (row_fits (event_id ev))) (ctx_step stored_step) ?Q g
        (co_andthen (sync (eff (inc (RETRY_ATTEMPTS ty)))) (co_andthen p (sync (ret (Inl exc)))))"
      if "co_leads (on_snd (unstored tables)) p" for g ty and p :: "((int \<times> worker_context) \<times> ('r, 'p, 'k, 'h) world, unit) co"
      by (rule co_spec_andthen [OF ghost_stored_ctx(2) keep [OF count]]) (rule one [OF that], simp)
    show "co_spec (var_fits (row_fits (event_id ev))) (ctx_step stored_step) ?Q g
        (if non_retryable exc
         then (sync (raise exc) :: ((int \<times> worker_context) \<times> ('r, 'p, 'k, 'h) world, exn + unit) co)
         else if ordinary exc then co_andthen (sync (eff (inc (RETRY_ATTEMPTS (int_str n)))))
           (if n < W_RETRY_MAX_ATTEMPTS cfg
            then co_andthen (co_eff (co_bind (sync (compute_delay S cfg n)) (\<lambda>delay. await (on_host (h_sleep (host_of S) delay)))))
              (sync (ret (Inl exc)))
            else sync (ret (Inl exc)))
         else sync (raise exc))"
      using one [OF count] two [OF sleep] by (simp add: co_spec_raise [OF ghost_stored_ctx(2)])
  qed simp
  have "co_spec (var_fits (row_fits (event_id ev))) (ctx_step stored_step) (\<lambda>g r. \<forall>x. r = Inr x \<longrightarrow> fst g) g
      (retry_loop_co S cfg (insert_once_co S ev) e ns)" for e ns g
  proof (induction ns arbitrary: e g)
    case Nil
    then show ?case by (auto intro: co_spec_raise [OF ghost_stored_ctx(2)] split: option.split)
  next
    case (Cons n ns)
    show ?case
      unfolding retry_loop_co.simps
      by (rule co_spec_bind [OF ghost_stored_ctx(2) attempt])
         (auto intro!: Cons.IH [simplified] co_spec_ret [OF ghost_stored_ctx(2)] split: sum.split)
  qed
  then show ?thesis by (simp add: with_retry_co_def)
qed

section \<open>The handlers, from the last\<close>

lemma stores_PersistenceHandler:
  assumes "wc_event c = Some ev"
  shows "co_spec (ctx_fits (row_fits (event_id ev))) (ctx_step stored_step) (\<lambda>_ _. True) (b, c)
    (PersistenceHandler_co S cfg (DeviceStateHandler_co S (sync (ret ()))))"
  unfolding PersistenceHandler_co_def
proof (rule co_spec_gets [where x = "Some ev"], goal_cases)
  case 2
  have dev: "co_leads (on_snd (pg_evolves tables)) (co_up (DeviceStateHandler_co S (sync (ret ()))))"
    by (intro leads_intros schema.handler_co_leads)
  have body: "co_spec (var_fits (row_fits (event_id ev))) (ctx_step stored_step) (\<lambda>_ _. True) (b, c)
      (co_andthen (with_retry_co S cfg (insert_once_co S ev)) (co_up (DeviceStateHandler_co S (sync (ret ())))))"
  proof (rule co_spec_andthen [OF ghost_stored_ctx(2) retry_stores])
    fix g :: "bool \<times> worker_context" and x :: unit assume "\<forall>y. (Inr x :: exn + unit) = Inr y \<longrightarrow> fst g"
    then have "g = (True, snd g)" by (cases g) auto
    then show "co_spec (var_fits (row_fits (event_id ev))) (ctx_step stored_step) (\<lambda>_ _. True) g
        (co_up (DeviceStateHandler_co S (sync (ret ()))))"
      using co_spec_mono [OF spec_stored_var [OF dev]] by metis
  qed simp
  have keep: "co_spec (var_fits (row_fits (event_id ev))) (ctx_step stored_step) (\<lambda>_ _. True) g p"
    if "co_leads (on_snd (unstored tables)) p" for g and p :: "((int \<times> worker_context) \<times> ('r, 'p, 'k, 'h) world, unit) co"
    by (cases g, simp only:, rule co_spec_mono [OF spec_unstored_var [OF that]]) simp
  have handler: "co_leads (on_snd (unstored tables))
      (if isinstance exc ''PostgresError'' then
         co_andthen (sync (eff (inc (DB_ERRORS (exn_name exc))))) (give_up_co S cfg ev (lit ''DB_ERROR'') exc)
       else if isinstance exc ''Exception'' then give_up_co S cfg ev (exn_name exc) exc
       else sync (raise exc))" for exc
    by (intro leads_intros unstored_handlers)
  show ?case
    unfolding option.case
    by (rule co_spec_with_var, rule co_spec_try [OF ghost_stored_ctx(2) body], rule keep [OF handler], simp)
qed (use assms in \<open>auto simp: ctx_fits_def\<close>)

lemma stores_WorkerValidationHandler:
  assumes "wc_raw_event c = JObj d" "\<And>ev. IoTEvent (py_of S) d = Inr ev \<Longrightarrow> i = event_id ev"
  shows "co_spec (ctx_fits (row_fits i)) (ctx_step stored_step) (\<lambda>_ _. True) (b, c)
    (WorkerValidationHandler_co S cfg (PersistenceHandler_co S cfg (DeviceStateHandler_co S (sync (ret ())))))"
  unfolding WorkerValidationHandler_co_def
proof (rule co_spec_gets [where x = "JObj d"], goal_cases)
  case 2
  let ?next = "PersistenceHandler_co S cfg (DeviceStateHandler_co S (sync (ret ())))"
  have dead: "co_spec (ctx_fits (row_fits i)) (ctx_step stored_step) (\<lambda>_ _. True) g
      (co_catching ''Exception'' (\<lambda>exc. send_context_co S cfg (lit ''VALIDATION_ERROR'') (msg exc) 0) e)" for g e
  proof -
    have "co_leads (on_snd (unstored tables))
        (co_catching ''Exception'' (\<lambda>exc. send_context_co S cfg (lit ''VALIDATION_ERROR'') (msg exc) 0) e)"
      by (intro leads_intros unstored_handlers)
    from spec_unstored_ctx [OF this] show ?thesis by (cases g, simp only:, rule co_spec_mono) simp
  qed
  show ?case
  proof (cases "IoTEvent (py_of S) d")
    case (Inl e)
    then show ?thesis
      using dead by (auto simp: IoTEvent_of_def intro!: co_spec_try [OF ghost_stored_ctx(1)]
          co_spec_raise [OF ghost_stored_ctx(1), where Q = "\<lambda>_ _. True"])
  next
    case (Inr ev)
    let ?c = "c\<lparr>wc_event := Some ev\<rparr>"
    have store: "co_spec (ctx_fits (row_fits i)) (ctx_step stored_step) (\<lambda>g r. g = (b, ?c) \<and> r = Inr ()) (b, c)
        (sync (modify (\<lambda>(c, w). (c\<lparr>wc_event := Some ev\<rparr>, w))))"
      by (rule co_spec_sync)
         (auto simp: fits_defs modify_def stored_step_def none_processed_def split: prod.splits)
    have "co_spec (ctx_fits (row_fits i)) (ctx_step stored_step) (\<lambda>_ _. True) (b, ?c) ?next"
      using stores_PersistenceHandler [of ?c ev b cfg] assms(2) [OF Inr] by simp
    then have "co_spec (ctx_fits (row_fits i)) (ctx_step stored_step) (\<lambda>_ _. True) (b, c)
        (co_andthen (sync (modify (\<lambda>(c, w). (c\<lparr>wc_event := Some ev\<rparr>, w)))) ?next)"
      by (intro co_spec_andthen [OF ghost_stored_ctx(1) store]) auto
    then show ?thesis
      using Inr dead by (auto simp: IoTEvent_of_def intro!: co_spec_try [OF ghost_stored_ctx(1)])
  qed
qed (use assms(1) in \<open>auto simp: ctx_fits_def\<close>)

lemma stores_IdempotencyHandler:
  assumes "wc_raw_event c = JObj d" "\<And>ev. IoTEvent (py_of S) d = Inr ev \<Longrightarrow> i = event_id ev"
  shows "co_spec (ctx_fits (row_fits i)) (ctx_step stored_step) (\<lambda>_ _. True) (b, c)
    (dispatch_co (worker_co_handlers S cfg) 0)"
proof -
  let ?next = "WorkerValidationHandler_co S cfg (PersistenceHandler_co S cfg (DeviceStateHandler_co S (sync (ret ()))))"
  have next': "co_spec (ctx_fits (row_fits i)) (ctx_step stored_step) (\<lambda>_ _. True) (b, c) ?next" for b
    by (rule stores_WorkerValidationHandler [OF assms])
  have check: "co_spec (ctx_fits (row_fits i)) (ctx_step stored_step) (\<lambda>_ _. True) (b, c)
      (co_bind (co_eff (is_new_co S cfg k)) (\<lambda>new. if \<not> new then sync (ret ()) else ?next))" for k
    by (rule co_spec_bind [OF ghost_stored_ctx(1) co_spec_eff(1) [OF spec_unstored [OF unstored_handlers(1)]]])
       (auto intro!: next' co_spec_ret [OF ghost_stored_ctx(1)])
  have "co_spec (ctx_fits (row_fits i)) (ctx_step stored_step) (\<lambda>_ _. True) (b, c) (IdempotencyHandler_co S cfg ?next)"
    unfolding IdempotencyHandler_co_def
    by (rule co_spec_gets [where x = "JObj d"])
       (use assms(1) next' check in \<open>auto simp: ctx_fits_def split: option.split\<close>)
  then show ?thesis by (simp add: worker_co_handlers_def)
qed

lemma stores_process:
  assumes "\<And>ev. IoTEvent (py_of S) d = Inr ev \<Longrightarrow> i = event_id ev"
  shows "co_spec (row_fits i) stored_step (\<lambda>_ _. True) b (process_co S cfg (JObj d) part off)"
proof -
  have keep: "co_spec (row_fits i) stored_step (\<lambda>_ _. True) b (sync m)"
    if "leads (unstored tables) m" for b and m :: "(('r, 'p, 'k, 'h) world, 'a) io"
    by (rule co_spec_mono [OF spec_unstored [OF co_leads_sync [OF that]]]) simp
  have fin: "co_spec (row_fits i) stored_step (\<lambda>g' u. case u of Inl e \<Rightarrow> True | Inr _ \<Rightarrow> True) b (sync m)"
    if "leads (unstored tables) m" for b and m :: "(('r, 'p, 'k, 'h) world, unit) io"
    by (rule co_spec_mono [OF spec_unstored [OF co_leads_sync [OF that]]]) (simp split: sum.split)
  have inner: "co_spec (row_fits i) stored_step (\<lambda>_ _. True) b
      (co_hide (new_worker_context (JObj d) t part off t0)
        (execute_co wc_get_id wc_set_id (ask_host (h_uuid4 (host_of S))) (worker_co_handlers S cfg)))" for t t0 b
  proof (rule co_spec_in_context)
    let ?c = "new_worker_context (JObj d) t part off t0"
    have trace: "co_spec (ctx_fits (row_fits i)) (ctx_step stored_step)
        (\<lambda>g r. wc_raw_event (snd g) = JObj d) (b, ?c)
        (sync (ensure_trace wc_get_id wc_set_id (ask_host (h_uuid4 (host_of S)))))"
    proof (rule co_spec_sync)
      fix s r s' assume s: "ctx_fits (row_fits i) (b, ?c) s"
        and run: "ensure_trace wc_get_id wc_set_id (ask_host (h_uuid4 (host_of S))) s = (r, s')"
      have "wc_raw_event (fst s) = JObj d" using s by (metis ctx_fits_def snd_conv new_worker_context_def worker_context.select_convs(1))
      moreover have "wc_raw_event (fst s') = wc_raw_event (fst s) \<and> postgres (snd s') = postgres (snd s) \<and> met (snd s') = met (snd s)"
        using run by (cases s) (auto simp: ensure_trace_def io_defs wc_set_id_def split: prod.splits if_splits)
      ultimately have "ctx_fits (row_fits i) (b, fst s') s' \<and> ctx_step stored_step (b, ?c) s s' (b, fst s') \<and>
          wc_raw_event (snd (b, fst s')) = JObj d"
        using s by (auto simp: fits_defs stored_step_def none_processed_def stored_fits_def has_row_def)
      then show "\<exists>g'. ctx_fits (row_fits i) g' s' \<and> ctx_step stored_step (b, ?c) s s' g' \<and> wc_raw_event (snd g') = JObj d"
        by blast
    qed
    have "co_spec (ctx_fits (row_fits i)) (ctx_step stored_step) (\<lambda>_ _. True) g (dispatch_co (worker_co_handlers S cfg) 0)"
      if "wc_raw_event (snd g) = JObj d" for g
      using stores_IdempotencyHandler [OF that assms, of "fst g" cfg] by simp
    then have "co_spec (ctx_fits (row_fits i)) (ctx_step stored_step) (\<lambda>_ _. True) (b, ?c)
        (co_andthen (sync (ensure_trace wc_get_id wc_set_id (ask_host (h_uuid4 (host_of S)))))
          (dispatch_co (worker_co_handlers S cfg) 0))"
      by (intro co_spec_andthen [OF ghost_stored_ctx(1) trace]) auto
    then show "co_spec (ctx_fits (row_fits i)) (ctx_step stored_step) (\<lambda>g r. True) (b, ?c)
        (execute_co wc_get_id wc_set_id (ask_host (h_uuid4 (host_of S))) (worker_co_handlers S cfg))"
      by (simp add: execute_co_def worker_co_handlers_def)
  qed
  have clock: "leads (unstored tables) (ask_host (h_monotonic (host_of S)) :: (('r, 'p, 'k, 'h) world, rat) io)"
    by (intro leads_intros)
  have body: "co_spec (row_fits i) stored_step (\<lambda>_ _. True) b (co_bind (sync (ask_host (h_monotonic (host_of S)))) (\<lambda>t0.
      co_hide (new_worker_context (JObj d) t part off t0)
        (execute_co wc_get_id wc_set_id (ask_host (h_uuid4 (host_of S))) (worker_co_handlers S cfg))))" for t b
    by (rule co_spec_bind [OF ghost_stored keep [OF clock]]) (simp_all add: inner)
  have "co_spec (row_fits i) stored_step (\<lambda>_ _. True) b (timed_co PROCESSING_LATENCY
      (co_bind (sync (of_result (dict_get (JObj d) (lit ''_trace_id'')))) (\<lambda>t.
       co_bind (sync (ask_host (h_monotonic (host_of S)))) (\<lambda>t0.
         co_hide (new_worker_context (JObj d) (get_default t (JStr [])) part off t0)
           (execute_co wc_get_id wc_set_id (ask_host (h_uuid4 (host_of S))) (worker_co_handlers S cfg))))))" for b
    unfolding timed_co_def dict_get.simps co_bind_result
    by (rule co_spec_finally [OF ghost_stored body]) (rule fin [OF leads_unstored_metrics(2)])
  then have all: "co_spec (row_fits i) stored_step (\<lambda>_ _. True) b (co_finally (timed_co PROCESSING_LATENCY
      (co_bind (sync (of_result (dict_get (JObj d) (lit ''_trace_id'')))) (\<lambda>t.
       co_bind (sync (ask_host (h_monotonic (host_of S)))) (\<lambda>t0.
         co_hide (new_worker_context (JObj d) (get_default t (JStr [])) part off t0)
           (execute_co wc_get_id wc_set_id (ask_host (h_uuid4 (host_of S))) (worker_co_handlers S cfg))))))
      (sync (add_gauge ACTIVE_TASKS (- 1))))" for b
    by (rule co_spec_finally [OF ghost_stored]) (rule fin [OF leads_unstored_metrics(3)])
  show ?thesis
    unfolding process_co_def
    by (rule co_spec_andthen [OF ghost_stored keep [OF leads_unstored_metrics(3)]], rule all, simp)
qed

end

text \<open>A task counts its event as processed only when a row with its id is in the table, whatever the other
  tasks do.\<close>

lemma spec_stored:
  assumes "pg_server (pg_of S) tables now_of" "\<And>ev. IoTEvent (py_of S) d = Inr ev \<Longrightarrow> i = event_id ev"
  shows "co_spec (stored_fits tables i) stored_step (\<lambda>_ _. True) b (process_co S cfg (JObj d) part off)"
  by (rule worker_database.stores_process [OF worker_database.intro [OF assms(1)] assms(2)])

lemma stored_unless_uncounted:
  assumes "counted g w w' g'" "stored_step b w w' b'" "b \<or> (\<forall>t. g \<noteq> Some (EVENTS_PROCESSED t))"
  shows "b' \<or> (\<forall>t. g' \<noteq> Some (EVENTS_PROCESSED t))"
proof (rule disjCI)
  assume "\<not> (\<forall>t. g' \<noteq> Some (EVENTS_PROCESSED t))"
  then obtain t where t: "g' = Some (EVENTS_PROCESSED t)" by blast
  show b'
  proof (rule ccontr)
    assume "\<not> b'"
    with assms(2) have b: "\<not> b" "none_processed w w'" by (auto simp: stored_step_def)
    with assms(3) have "g \<noteq> Some (EVENTS_PROCESSED t)" by blast
    with assms(1) t have "one_outcome (EVENTS_PROCESSED t) w w'" by (auto simp: counted_def)
    with b(2) show False by (simp add: one_outcome_def none_processed_def) (metis zero_neq_one)
  qed
qed

end
