(* ===== verification/Worker_Accounts.thy ===== *)
theory Worker_Accounts
  imports Worker_Kill Worker_Refines Ledger Task_Stored
begin

text \<open>
  The accounts of the worker with all its tasks interleaved: what becomes of the records
  (\<open>worker_invariant\<close>) and that each record that has been processed was counted once, as what may become
  of it (\<open>interleaved_accounts\<close>). The latter rests on the locale \<open>ledger\<close>, whose contract the tasks keep
  (\<open>stored_ledger\<close>) by \<open>spec_process\<close> and \<open>spec_stored\<close>.
\<close>

section \<open>What a task has counted\<close>

definition may_count :: "('r, 'p, 'k, 'h) services \<Rightarrow> consumer_record \<Rightarrow> counter \<Rightarrow> bool" where
  "may_count S m c \<longleftrightarrow>
     (\<exists>d. cr_value m = Inr (JObj d) \<and> (c = EVENTS_DUPLICATE \<or> may_end (py_of S) d c))"

text \<open>A record whose dead letter can be keyed.\<close>

definition keyed :: "consumer_record \<Rightarrow> bool" where
  "keyed m \<longleftrightarrow> (\<exists>d key. cr_value m = Inr (JObj d) \<and> dlq_key (dlq_id_of d) = Inr key)"

text \<open>The id of its event, and that what is counted as processed has a row.\<close>

definition row_id :: "('r, 'p, 'k, 'h) services \<Rightarrow> consumer_record \<Rightarrow> pystr" where
  "row_id S m = (case cr_value m of
       Inr (JObj d) \<Rightarrow> (case IoTEvent (py_of S) d of Inr ev \<Rightarrow> event_id ev | Inl e \<Rightarrow> [])
     | _ \<Rightarrow> [])"

definition accounted :: "('p \<Rightarrow> database) \<Rightarrow> ('r, 'p, 'k, 'h) services \<Rightarrow> consumer_record \<Rightarrow> counter \<Rightarrow>
    ('r, 'p, 'k, 'h) world \<Rightarrow> bool" where
  "accounted tables S m c w \<longleftrightarrow> may_count S m c \<and> (\<forall>t. c = EVENTS_PROCESSED t \<longrightarrow> has_row tables (row_id S m) w)"

abbreviation ends_counted :: "('r, 'p, 'k, 'h) services \<Rightarrow> consumer_record \<Rightarrow> counter option \<Rightarrow> exn + unit \<Rightarrow> bool" where
  "ends_counted S m \<equiv> \<lambda>g r. r = Inr () \<and> (\<exists>c. g = Some c \<and> may_count S m c)"

text \<open>A task that has counted \<open>g\<close> so far goes on as it should: it counts one outcome, and an event is
  stored before it is counted as processed.\<close>

definition on_course :: "('p \<Rightarrow> database) \<Rightarrow> ('r, 'p, 'k, 'h) services \<Rightarrow> consumer_record \<Rightarrow> counter option \<Rightarrow>
    (('r, 'p, 'k, 'h) world, unit) pause \<Rightarrow> ('r, 'p, 'k, 'h) world \<Rightarrow> bool" where
  "on_course tables S m g q w \<longleftrightarrow> pause_spec anywhere counted (ends_counted S m) g q \<and>
     (\<exists>b. pause_spec (stored_fits tables (row_id S m)) stored_step (\<lambda>_ _. True) b q \<and>
        stored_fits tables (row_id S m) b w \<and> (b \<or> (\<forall>t. g \<noteq> Some (EVENTS_PROCESSED t))))"

lemma begin_on_course:
  assumes "well_behaved S" "pg_server (pg_of S) tables now_of" "keyed m"
  shows "\<exists>g'. counted None w (snd (task_co S cfg m w)) g' \<and>
    on_course tables S m g' (fst (task_co S cfg m w)) (snd (task_co S cfg m w))"
proof -
  from assms(3) obtain d key where d: "cr_value m = Inr (JObj d)" "dlq_key (dlq_id_of d) = Inr key"
    by (auto simp: keyed_def)
  let ?p = "process_co S cfg (JObj d) (Some (cr_partition m)) (Some (cr_offset m))"
  have "co_spec anywhere counted (ends_counted S m) None ?p"
    by (rule co_spec_mono [OF spec_process [OF assms(1) d(2)]]) (auto simp: may_count_def d(1))
  then obtain g' where g': "counted None w (snd (?p w)) g'" "pause_spec anywhere counted (ends_counted S m) g' (fst (?p w))"
    by (rule co_specD) simp
  have "co_spec (stored_fits tables (row_id S m)) stored_step (\<lambda>_ _. True) False ?p"
    by (rule spec_stored [OF assms(2)]) (simp add: row_id_def d(1))
  then obtain b where b: "stored_fits tables (row_id S m) b (snd (?p w))" "stored_step False w (snd (?p w)) b"
    "pause_spec (stored_fits tables (row_id S m)) stored_step (\<lambda>_ _. True) b (fst (?p w))"
    by (rule co_specD) (simp add: stored_fits_def)
  from stored_unless_uncounted [OF g'(1) b(2)] have "b \<or> (\<forall>t. g' \<noteq> Some (EVENTS_PROCESSED t))" by simp
  with g' b show ?thesis by (auto simp: task_co_def d(1) on_course_def)
qed

lemma resume_on_course:
  assumes "on_course tables S m g (Paused k) w"
  shows "\<exists>g'. counted g w (snd (k Proceed w)) g' \<and> on_course tables S m g' (fst (k Proceed w)) (snd (k Proceed w))"
proof -
  from assms obtain b where c: "pause_spec anywhere counted (ends_counted S m) g (Paused k)"
    and b: "pause_spec (stored_fits tables (row_id S m)) stored_step (\<lambda>_ _. True) b (Paused k)"
      "stored_fits tables (row_id S m) b w" "b \<or> (\<forall>t. g \<noteq> Some (EVENTS_PROCESSED t))"
    by (auto simp: on_course_def)
  from c obtain g' where g': "counted g w (snd (k Proceed w)) g'"
    "pause_spec anywhere counted (ends_counted S m) g' (fst (k Proceed w))"
    by (rule spec_PausedE) blast
  from b(1,2) obtain b' where b': "stored_fits tables (row_id S m) b' (snd (k Proceed w))"
    "stored_step b w (snd (k Proceed w)) b'"
    "pause_spec (stored_fits tables (row_id S m)) stored_step (\<lambda>_ _. True) b' (fst (k Proceed w))"
    by (elim spec_PausedE) blast
  from stored_unless_uncounted [OF g'(1) b'(2) b(3)] g' b' show ?thesis by (auto simp: on_course_def)
qed

text \<open>What the others do to the database leaves the task on its course.\<close>

lemma on_course_evolves:
  "pg_evolves tables w w' \<Longrightarrow> on_course tables S m g q w \<Longrightarrow> on_course tables S m g q w'"
  unfolding on_course_def stored_fits_def using has_row_evolves by blast

lemma accounted_evolves:
  "pg_evolves tables w w' \<Longrightarrow> accounted tables S m c w \<Longrightarrow> accounted tables S m c w'"
  unfolding accounted_def using has_row_evolves by blast

text \<open>So the tasks keep the contract.\<close>

lemma stored_ledger:
  assumes "well_behaved S" "pg_server (pg_of S) tables now_of"
  shows "ledger S C cfg (pg_evolves tables) keyed (on_course tables S) (accounted tables S)"
proof
  show "pg_evolves tables (ws_world s) (ws_world s')"
    if "worker_run S C cfg (worker_init cfg w0) n s" "worker_step S C cfg s s'" for w0 n s s'
    by (rule process_frame.frame_run_step [OF schema_process_frame [OF assms(2)] that])
  show "\<exists>g. counted None w (snd (task_co S cfg m w)) g \<and>
      on_course tables S m g (fst (task_co S cfg m w)) (snd (task_co S cfg m w))" if "keyed m" for m w
    by (rule begin_on_course [OF assms that])
  show "r = Inr () \<and> (\<exists>c. g = Some c \<and> accounted tables S m c w)"
    if "on_course tables S m g (Done r) w" for m g r w
    using that by (auto simp: on_course_def accounted_def stored_fits_def elim!: spec_DoneE)
qed (fact resume_on_course on_course_evolves accounted_evolves)+

interpretation good_ledger: ledger good_worker ref_consumer worker_defaults "pg_evolves rp_tables" keyed
  "on_course rp_tables good_worker" "accounted rp_tables good_worker"
  by (rule stored_ledger [OF good_well_behaved good_worker_pg])

section \<open>The properties\<close>

text \<open>C6: The accounts of the worker balance under every interleaving. If no service call is cancelled,
  Kafka fails with a KafkaError only, the database does what its statements say or nothing, and the
  records received are dicts whose ids can be made keys, then in every state before \<open>main\<close> has
  returned no call of \<open>process\<close> has ended by an exception (a task may end by the exception of its commit,
  but then its record has been processed), and the counters of the outcomes are what they were at the start, and one more for each record that has been processed, and
  at most one for each that is in flight: a record is a duplicate, or what its validation allows, dead
  or processed under its own type. And none is processed on paper only: the table of events holds a
  row with the id of each that was counted as processed.\<close>

theorem interleaved_accounts:
  assumes "well_behaved S" "pg_server (pg_of S) tables now_of" "0 \<le> W_MAX_CONCURRENT_TASKS cfg"
    and "worker_run S C cfg (worker_init cfg w0) n s" "\<not> main_returned s"
    and "\<forall>m\<in>set (ws_received s). \<exists>d key. cr_value m = Inr (JObj d) \<and> dlq_key (dlq_id_of d) = Inr key"
  shows "ws_failed s = [] \<and> (\<exists>cs xs.
    list_all2 (\<lambda>m c. \<exists>d. cr_value m = Inr (JObj d) \<and> (c = EVENTS_DUPLICATE \<or> may_end (py_of S) d c) \<and>
      (\<forall>t. c = EVENTS_PROCESSED t \<longrightarrow> (\<exists>ev. IoTEvent (py_of S) d = Inr ev \<and>
        rows_with_id (event_id ev) (tables (postgres (ws_world s))) \<noteq> []))) (ws_processed s) cs \<and>
    length xs \<le> length (in_flight s) \<and>
    (\<forall>c. outcome_counter c \<longrightarrow> tally c (ws_world s) = tally c w0 + count_list (cs @ xs) c))"
proof -
  let ?ok = "\<lambda>m c. \<exists>d. cr_value m = Inr (JObj d) \<and> (c = EVENTS_DUPLICATE \<or> may_end (py_of S) d c) \<and>
      (\<forall>t. c = EVENTS_PROCESSED t \<longrightarrow> (\<exists>ev. IoTEvent (py_of S) d = Inr ev \<and>
        rows_with_id (event_id ev) (tables (postgres (ws_world s))) \<noteq> []))"
  have "?ok m c" if "accounted tables S m c (ws_world s)" for m c
    using that by (auto simp: accounted_def may_count_def may_end_def has_row_def row_id_def split: sum.splits)
  then have ok: "list_all2 (\<lambda>m c. accounted tables S m c (ws_world s)) ms cs \<Longrightarrow> list_all2 ?ok ms cs" for ms cs
    by (elim list_all2_mono)
  from ledger.accounts_balance [OF stored_ledger [OF assms(1,2)] assms(3-5)] assms(6)
  have "ws_failed s = [] \<and> (\<exists>cs xs. list_all2 (\<lambda>m c. accounted tables S m c (ws_world s)) (ws_processed s) cs \<and>
      length xs \<le> length (in_flight s) \<and>
      (\<forall>c. outcome_counter c \<longrightarrow> tally c (ws_world s) = tally c w0 + count_list (cs @ xs) c))"
    unfolding keyed_def .
  with ok show ?thesis by (elim conjE exE) (rule conjI, assumption, intro exI conjI; assumption?; blast)
qed

text \<open>C7: In every state of the worker process, however its coroutines interleave, whatever fails and
  also while it is shut down: the semaphore is never negative, the tasks in flight are at most
  \<open>MAX_CONCURRENT_TASKS\<close>, and until \<open>main\<close> has returned the permits and the tasks account for each
  other; an offset is committed only for a record whose processing has returned; and every record
  received has been processed, or its task has failed, or is in flight, or the loop holds it or held it
  when it ended, once each.\<close>

theorem worker_invariant:
  assumes "0 \<le> W_MAX_CONCURRENT_TASKS cfg" "worker_run S C cfg (worker_init cfg w0) n s"
  shows "0 \<le> ws_semaphore s \<and> ws_semaphore s + int (length (ws_tasks s)) \<le> W_MAX_CONCURRENT_TASKS cfg \<and>
    (\<not> main_returned s \<longrightarrow> ws_semaphore s + int (length (ws_tasks s)) = W_MAX_CONCURRENT_TASKS cfg) \<and>
    set (ws_commits s) \<subseteq> commit_of ` set (ws_processed s) \<and>
    mset (ws_received s) = mset (ws_processed s) + mset (map fst (ws_failed s)) + mset (in_flight s)
      + mset (held_record s) + mset (ws_dropped s)"
  using worker_run_inv [OF assms] unfolding worker_inv_def by blast

section \<open>Witnesses\<close>

lemma overtaking_worker_run:
  "\<exists>n t. worker_run good_worker ref_consumer worker_defaults (worker_init worker_defaults worker_world) n t \<and>
     \<not> main_returned t \<and> ws_received t = [sample_record 0, sample_record 1] \<and>
     ws_processed t = [sample_record 1] \<and> in_flight t = [sample_record 0]"
proof -
  have two: "2 \<le> W_MAX_CONCURRENT_TASKS worker_defaults" by (simp add: worker_defaults_def)
  obtain x where start: "worker_run good_worker ref_consumer worker_defaults (worker_init worker_defaults worker_world)
      (Suc (Suc 0)) (worker_started worker_defaults (worker_world\<lparr>kafka := x\<rparr>))" by (rule good_start)
  from overtaking_run [OF two, of "worker_world\<lparr>kafka := x\<rparr>"] obtain s where
    run: "consume_run good_worker ref_consumer worker_defaults (consumer_init worker_defaults (worker_world\<lparr>kafka := x\<rparr>))
      (((((([] @ [Receive (sample_record 0)]) @ [Spawn]) @ [Receive (sample_record 1)]) @ [Spawn])
        @ [Work (sample_record 1)]) @ [Commit (sample_record 1)]) s"
    and s: "cs_tasks s = [(sample_record 0, Processing)]" by blast
  from simulation_run [OF run] obtain n t where
    steps: "worker_run good_worker ref_consumer worker_defaults (worker_started worker_defaults (worker_world\<lparr>kafka := x\<rparr>)) n t"
    and t: "simulates (((((([] @ [Receive (sample_record 0)]) @ [Spawn]) @ [Receive (sample_record 1)]) @ [Spawn])
        @ [Work (sample_record 1)]) @ [Commit (sample_record 1)]) s t" by blast
  from worker_run_append [OF steps start] simulates_runs [OF t] s t show ?thesis
    by (intro exI conjI) (assumption | simp add: simulates_def in_flight_def)+
qed

theorem worker_invariant_witness:
  "\<exists>n s. worker_run good_worker ref_consumer worker_defaults (worker_init worker_defaults worker_world) n s \<and>
     main_returned s \<and> length (ws_tasks s) = 1 \<and> 0 \<le> ws_semaphore s \<and> ws_semaphore s \<le> 49 \<and> ws_received s \<noteq> []"
proof -
  obtain n s k where s: "worker_run good_worker ref_consumer worker_defaults (worker_init worker_defaults worker_world) n s"
    "main_returned s" "ws_tasks s = [(sample_record 7, Running k)]" using sample_shutdown by auto
  have "0 \<le> W_MAX_CONCURRENT_TASKS worker_defaults" by (simp add: worker_defaults_def)
  from worker_invariant [OF this s(1)] s show ?thesis
    by (intro exI [of _ n] exI [of _ s]) (auto simp: in_flight_def worker_defaults_def)
qed

theorem interleaved_accounts_witness:
  "\<exists>n s c xs. worker_run good_worker ref_consumer worker_defaults (worker_init worker_defaults worker_world) n s \<and>
     ws_processed s = [sample_record 1] \<and> in_flight s = [sample_record 0] \<and> ws_failed s = [] \<and> length xs \<le> 1 \<and>
     tally EVENTS_DUPLICATE (ws_world s) = count_list (c # xs) EVENTS_DUPLICATE"
proof -
  obtain n s where s: "worker_run good_worker ref_consumer worker_defaults (worker_init worker_defaults worker_world) n s"
    "\<not> main_returned s" "ws_received s = [sample_record 0, sample_record 1]" "ws_processed s = [sample_record 1]"
    "in_flight s = [sample_record 0]" using overtaking_worker_run by blast
  obtain key where key: "dlq_key (dlq_id_of sample_dict) = Inr key" using sample_key by blast
  have "0 \<le> W_MAX_CONCURRENT_TASKS worker_defaults" by (simp add: worker_defaults_def)
  from interleaved_accounts [OF good_well_behaved good_worker_pg this s(1,2)] s(3) key obtain cs xs where
    acc: "ws_failed s = []" "length (ws_processed s) = length cs" "length xs \<le> length (in_flight s)"
    and tally: "\<And>c. outcome_counter c \<Longrightarrow> tally c (ws_world s) = tally c worker_world + count_list (cs @ xs) c"
    by (auto dest: list_all2_lengthD)
  from acc(2) s(4) obtain c where "cs = [c]" by (cases cs) auto
  with tally [of EVENTS_DUPLICATE] have
    "tally EVENTS_DUPLICATE (ws_world s) = count_list (c # xs) EVENTS_DUPLICATE"
    by (simp add: worker_world_def no_metrics_def)
  with s acc show ?thesis by (intro exI conjI) (assumption | simp)+
qed

end
