(* ===== verification/Task_Dead.thy ===== *)
theory Task_Dead
  imports Task_Stored
begin

text \<open>
  An event that is counted as dead is in the topic of the dead letters when its task ends, also in a
  task among other tasks, as long as Kafka accepts the letters. \<open>dlq_send\<close> counts first and sends
  afterwards, so that the ghost value has three stages: no dead letter was counted (\<open>Unneeded\<close>), one
  was counted (\<open>Owed\<close>), and the topic holds it (\<open>Sent\<close>). No handler that it enters without a debt leaves
  one, as no record is taken from the topic.
\<close>

datatype letter = Unneeded | Owed | Sent

text \<open>The envelope with the event as it came, whatever it says of the error.\<close>

definition dead_letter :: "('k \<Rightarrow> krecord multiset) \<Rightarrow> worker_settings \<Rightarrow> dict \<Rightarrow> ('r, 'p, 'k, 'h) world \<Rightarrow> bool" where
  "dead_letter durable cfg d w \<longleftrightarrow> (\<exists>key u n et em rc pa off. dlq_key (dlq_id_of d) = Inr key \<and>
     (W_KAFKA_TOPIC_DLQ cfg, JObj (dlq_envelope cfg u n (JObj d) et em rc dlq_topic_default pa off), Some key)
       \<in># durable (kafka w))"

definition none_dead :: "('r, 'p, 'k, 'h) world \<Rightarrow> ('r, 'p, 'k, 'h) world \<Rightarrow> bool" where
  "none_dead w w' \<longleftrightarrow> (\<forall>t. tally (EVENTS_DLQ t) w' = tally (EVENTS_DLQ t) w)"

definition letter_fits :: "('k \<Rightarrow> krecord multiset) \<Rightarrow> worker_settings \<Rightarrow> dict \<Rightarrow> letter \<Rightarrow>
    ('r, 'p, 'k, 'h) world \<Rightarrow> bool" where
  "letter_fits durable cfg d x w \<longleftrightarrow> (x = Sent \<longrightarrow> dead_letter durable cfg d w)"

definition letter_step :: "(letter, ('r, 'p, 'k, 'h) world) step_rel" where
  "letter_step x w w' x' \<longleftrightarrow> (x' = Unneeded \<longrightarrow> x = Unneeded \<and> none_dead w w')"

lemma ghost_letter: "ghost_rel (letter_fits durable cfg d) letter_step"
  unfolding ghost_rel_def letter_step_def none_dead_def by auto

lemmas ghost_letter_ctx = ghost_rel_ctx [OF ghost_letter]

text \<open>Kafka keeps its records.\<close>

definition log_kept :: "('k \<Rightarrow> krecord multiset) \<Rightarrow> ('r, 'p, 'k, 'h) world \<Rightarrow> ('r, 'p, 'k, 'h) world \<Rightarrow> bool" where
  "log_kept durable w w' \<longleftrightarrow> durable (kafka w) \<subseteq># durable (kafka w')"

lemma dead_letter_kept: "log_kept durable w w' \<Longrightarrow> dead_letter durable cfg d w \<Longrightarrow> dead_letter durable cfg d w'"
  unfolding log_kept_def dead_letter_def by (meson mset_subset_eqD)

text \<open>What is done while no letter is counted.\<close>

definition undead :: "('k \<Rightarrow> krecord multiset) \<Rightarrow> ('r, 'p, 'k, 'h) world \<Rightarrow> ('r, 'p, 'k, 'h) world \<Rightarrow> bool" where
  "undead durable w w' \<longleftrightarrow> durable (kafka w') = durable (kafka w) \<and> none_dead w w'"

lemma leads_undead_inc [leads_intros]: "(\<And>t. EVENTS_DLQ t \<noteq> c) \<Longrightarrow> leads (undead durable) (inc c)"
  by (auto simp: undead_def none_dead_def inc_def bump_def intro!: leads_modify)

lemma leads_undead_gauge [leads_intros]: "leads (undead durable) (add_gauge g v)"
  by (auto simp: undead_def none_dead_def add_gauge_def intro!: leads_modify)

interpretation undead_calls: worker_calls S "undead durable" for S durable
  by unfold_locales
     (auto simp: undead_def none_dead_def preorder_rel_def inc_def observe_def bump_def
       intro!: world_calls_same leads_modify)

lemmas undead_intros = leads_intros undead_calls.pre undead_calls.calls undead_calls.metrics undead_calls.ctx_pre

lemma undead_stays:
  "letter_fits durable cfg d x w \<Longrightarrow> undead durable w w' \<Longrightarrow>
   letter_fits durable cfg d x w' \<and> letter_step x w w' x"
  by (auto simp: letter_fits_def letter_step_def undead_def log_kept_def intro: dead_letter_kept)

lemma spec_undead_raises:
  assumes "co_leads (undead durable) p" "co_raises P p"
  shows "co_spec (letter_fits durable cfg d) letter_step (\<lambda>x' r. x' = x \<and> (\<forall>e. r = Inl e \<longrightarrow> P e)) x p"
  by (rule co_spec_keep [OF _ assms]) (rule undead_stays)

lemma spec_undead:
  assumes "co_leads (undead durable) p"
  shows "co_spec (letter_fits durable cfg d) letter_step (\<lambda>x' r. x' = x) x p"
  by (rule co_spec_mono [OF spec_undead_raises [OF assms co_raises_any]]) simp

text \<open>The context keeps the event as it came.\<close>

abbreviation clear :: "dict \<Rightarrow> letter \<times> worker_context \<Rightarrow> bool" where
  "clear d g \<equiv> fst g \<noteq> Owed \<and> wc_raw_event (snd g) = JObj d"

text \<open>A part that leaves no letter owed.\<close>

definition owes_none :: "(letter \<times> worker_context \<Rightarrow> 'x \<times> ('r, 'p, 'k, 'h) world \<Rightarrow> bool) \<Rightarrow> dict \<Rightarrow>
    ('x \<times> ('r, 'p, 'k, 'h) world, 'a) co \<Rightarrow> bool" where
  "owes_none J d p \<longleftrightarrow> (\<forall>g. clear d g \<longrightarrow> co_spec J (ctx_step letter_step) (\<lambda>g r. clear d g) g p)"

lemma owes_none_result:
  assumes "ghost_rel J (ctx_step letter_step)"
  shows "owes_none J d (sync (ret x))" "owes_none J d (sync (raise e))"
  by (simp_all add: owes_none_def co_spec_ret [OF assms] co_spec_raise [OF assms])

lemma owes_none_bind:
  assumes "ghost_rel J (ctx_step letter_step)" "owes_none J d p"
  shows "(\<And>x. owes_none J d (f x)) \<Longrightarrow> owes_none J d (co_bind p f)"
    "owes_none J d q \<Longrightarrow> owes_none J d (co_andthen p q)"
    "(\<And>e. owes_none J d (h e)) \<Longrightarrow> owes_none J d (co_try p h)"
  using assms(2) unfolding owes_none_def
  by (blast intro: co_spec_bind [OF assms(1)] co_spec_andthen [OF assms(1)] co_spec_try [OF assms(1)])+

lemma owes_none_gets: "(\<And>x. owes_none J d (f x)) \<Longrightarrow> owes_none J d (co_bind (sync (gets h)) f)"
  unfolding owes_none_def by (blast intro: co_spec_gets_any)

lemma owes_none_sync:
  assumes "\<And>c w r c' w'. wc_raw_event c = JObj d \<Longrightarrow> m (c, w) = (r, (c', w')) \<Longrightarrow>
    undead durable w w' \<and> wc_raw_event c' = JObj d"
  shows "owes_none (ctx_fits (letter_fits durable cfg d)) d (sync m)"
  unfolding owes_none_def
proof (intro allI impI, rule co_spec_sync)
  fix g s r s' assume g: "clear d g" and s: "ctx_fits (letter_fits durable cfg d) g s" and m: "m s = (r, s')"
  obtain c w where cw: "s = (c, w)" by (cases s)
  obtain c' w' where cw': "s' = (c', w')" by (cases s')
  from s g have fits: "letter_fits durable cfg d (fst g) w" "wc_raw_event c = JObj d"
    by (auto simp: ctx_fits_def cw)
  from assms [OF fits(2) m [unfolded cw cw']] undead_stays [OF fits(1)] g
  show "\<exists>g'. ctx_fits (letter_fits durable cfg d) g' s' \<and> ctx_step letter_step g s s' g' \<and> clear d g'"
    by (intro exI [of _ "(fst g, c')"]) (simp add: fits_defs cw cw')
qed

section \<open>The parts\<close>

locale dead_letters = kafka_log "kafka_of S" durable pending
  for S :: "('r, 'p, 'k, 'h) services"
    and durable :: "'k \<Rightarrow> krecord multiset"
    and pending :: "'k \<Rightarrow> krecord multiset" +
  fixes cfg :: worker_settings and d :: dict
  assumes letters_accepted: "kafka_up (kafka_of S)"
    and letter_keyed: "\<exists>key. dlq_key (dlq_id_of d) = Inr key"
begin

abbreviation "fits \<equiv> letter_fits durable cfg d"

lemma send_pays:
  assumes "dlq_key (dlq_id_of d) = Inr key"
  shows "co_spec fits letter_step (\<lambda>x r. x = Sent \<and> r = Inr ()) x
    (await (on_kafka (k_send_and_wait (kafka_of S) (W_KAFKA_TOPIC_DLQ cfg)
       (JObj (dlq_envelope cfg u n (JObj d) et em rc dlq_topic_default pa off)) (Some key))))"
proof (rule co_spec_await [OF ghost_letter])
  fix w r w'
  let ?v = "JObj (dlq_envelope cfg u n (JObj d) et em rc dlq_topic_default pa off)"
  assume run: "on_kafka (k_send_and_wait (kafka_of S) (W_KAFKA_TOPIC_DLQ cfg) ?v (Some key)) w = (r, w')"
  from letters_accepted obtain x' where
    x': "k_send_and_wait (kafka_of S) (W_KAFKA_TOPIC_DLQ cfg) ?v (Some key) (kafka w) = (Inr (), x')"
    unfolding kafka_up_def by blast
  with run have w': "r = Inr ()" "kafka w' = x'" by (auto simp: on_kafka_def)
  have "(W_KAFKA_TOPIC_DLQ cfg, ?v, Some key) \<in># durable x'"
    using send_and_wait_ok [OF x'] by (auto dest: mset_subset_eqD)
  with w' assms have "dead_letter durable cfg d w'" unfolding dead_letter_def by blast
  with w' show "\<exists>g'. fits g' w' \<and> letter_step x w w' g' \<and> g' = Sent \<and> r = Inr ()"
    by (intro exI [of _ Sent]) (simp add: letter_fits_def letter_step_def)
qed

lemma dlq_send_pays:
  "co_spec fits letter_step (\<lambda>x r. x \<noteq> Owed) x (dlq_send_co S cfg (JObj d) et em rc dlq_topic_default pa off)"
proof -
  from letter_keyed obtain key where key: "dlq_key (dlq_id_of d) = Inr key" by blast
  have count: "co_spec fits letter_step (\<lambda>x r. r = Inr ()) x (sync (inc (EVENTS_DLQ et)))" for x
    by (rule co_spec_sync) (auto simp: letter_fits_def letter_step_def inc_def modify_def intro!: exI [of _ Owed])
  have clock: "co_spec fits letter_step (\<lambda>x r. \<exists>t. r = Inr t) x (sync (ask_host f))" for x
    and f :: "'h \<Rightarrow> pystr \<times> 'h"
  proof (rule co_spec_sync)
    fix w r w' assume "fits x w" "ask_host f w = (r, w')"
    then show "\<exists>x'. fits x' w' \<and> letter_step x w w' x' \<and> (\<exists>t. r = Inr t)"
      using undead_stays [of durable cfg d x w w']
      by (intro exI [of _ x]) (auto simp: ask_host_def undead_def none_dead_def split: prod.splits)
  qed
  have audit: "co_leads (undead durable) (co_try (record_dlq_event_co S i d' tp raw em rc)
      (co_catching ''Exception'' (\<lambda>exc. sync (ret ()))))" for i d' tp raw em rc
    by (intro undead_intros undead_calls.database_co_leads)
  have send: "co_spec fits letter_step (\<lambda>x r. x = Sent) x (co_try
      (co_bind (sync (of_result (dlq_key (dlq_id_of d)))) (\<lambda>key.
         await (on_kafka (k_send_and_wait (kafka_of S) (W_KAFKA_TOPIC_DLQ cfg)
           (JObj (dlq_envelope cfg u n (JObj d) et em rc dlq_topic_default pa off)) (Some key)))))
      (co_catching ''KafkaError'' (\<lambda>exc. sync (ret ()))))" for x u n
    unfolding key co_bind_result by (rule co_spec_try [OF ghost_letter send_pays [OF key]]) auto
  have rest: "co_spec fits letter_step (\<lambda>x r. x \<noteq> Owed) x (co_andthen (co_try
      (co_bind (sync (of_result (dlq_key (dlq_id_of d)))) (\<lambda>key.
         await (on_kafka (k_send_and_wait (kafka_of S) (W_KAFKA_TOPIC_DLQ cfg)
           (JObj (dlq_envelope cfg u n (JObj d) et em rc dlq_topic_default pa off)) (Some key)))))
      (co_catching ''KafkaError'' (\<lambda>exc. sync (ret ()))))
      (co_try (record_dlq_event_co S i d' tp raw m rc) (co_catching ''Exception'' (\<lambda>exc. sync (ret ())))))"
    for x u n i d' tp raw m
    by (rule co_spec_andthen [OF ghost_letter send], simp only:, rule co_spec_mono [OF spec_undead [OF audit]]) auto
  show ?thesis
    unfolding dlq_send_co_def Let_def dict_get.simps co_bind_result dlq_id_of_def [symmetric]
    by (rule co_spec_andthen [OF ghost_letter count], rule co_spec_bind [OF ghost_letter clock],
        rule co_spec_bind [OF ghost_letter clock], rule rest) auto
qed

section \<open>The handlers, from the last\<close>

abbreviation "none_owed \<equiv> owes_none (ctx_fits fits) d"
abbreviation "var_none_owed \<equiv> owes_none (var_fits fits) d"

lemmas clear_intros = owes_none_result [OF ghost_letter_ctx(1)] owes_none_result [OF ghost_letter_ctx(2)]
  owes_none_bind(2,3) [OF ghost_letter_ctx(1)] owes_none_bind(2,3) [OF ghost_letter_ctx(2)]

lemmas clear_bind = owes_none_bind(1) [OF ghost_letter_ctx(1)]

lemma clear_eff:
  assumes "\<And>x. x \<noteq> Owed \<Longrightarrow> co_spec fits letter_step (\<lambda>x r. x \<noteq> Owed) x p"
  shows "none_owed (co_eff p)" "var_none_owed (co_eff p)"
proof -
  have "co_spec (ctx_fits fits) (ctx_step letter_step) (\<lambda>g r. clear d g) (x, c) (co_eff p)"
    "co_spec (var_fits fits) (ctx_step letter_step) (\<lambda>g r. clear d g) (x, c) (co_eff p)"
    if "x \<noteq> Owed" "wc_raw_event c = JObj d" for x c
    using that by (auto intro!: co_spec_mono [OF co_spec_eff(1) [OF assms]] co_spec_mono [OF co_spec_eff(2) [OF assms]])
  then show "none_owed (co_eff p)" "var_none_owed (co_eff p)" by (auto simp: owes_none_def)
qed

lemma clear_undead:
  assumes "co_leads (undead durable) p"
  shows "none_owed (co_eff p)" "var_none_owed (co_eff p)"
  by (rule clear_eff; rule co_spec_mono [OF spec_undead [OF assms]]; simp)+

lemma clear_raw:
  assumes "none_owed (f (JObj d))"
  shows "none_owed (co_bind (sync (gets (\<lambda>(c, w). wc_raw_event c))) f)"
  using assms unfolding owes_none_def by (auto intro!: co_spec_gets [where x = "JObj d"] simp: ctx_fits_def)

lemma clear_catching: "none_owed (h e) \<Longrightarrow> none_owed (co_catching c h e)"
  by (simp add: co_catching_def clear_intros)

lemma clear_up: "none_owed p \<Longrightarrow> var_none_owed (co_up p)"
  unfolding owes_none_def by (blast intro: co_spec_up)

lemma send_context_clear: "none_owed (send_context_co S cfg et em rc)"
  unfolding send_context_co_def owes_none_def
proof (intro allI impI)
  fix g assume g: "clear d g"
  obtain x c where xc: "g = (x, c)" by (cases g)
  have "none_owed (co_eff (dlq_send_co S cfg (JObj d) et em rc dlq_topic_default pa off))" for pa off
    by (rule clear_eff(1) [OF dlq_send_pays])
  with g show "co_spec (ctx_fits fits) (ctx_step letter_step) (\<lambda>g r. clear d g) g (co_bind (sync (gets fst)) (\<lambda>c.
      co_eff (dlq_send_co S cfg (wc_raw_event c) et em rc dlq_topic_default (wc_kafka_partition c) (wc_kafka_offset c))))"
    unfolding owes_none_def xc by (intro co_spec_gets [where x = c]) (auto simp: ctx_fits_def)
qed

lemma give_up_clear: "var_none_owed (give_up_co S cfg ev et exc)"
  unfolding give_up_co_def
  by (intro clear_intros owes_none_gets clear_up send_context_clear clear_undead undead_calls.release_co_leads)

lemma DeviceStateHandler_clear: "none_owed (DeviceStateHandler_co S (sync (ret ())))"
proof -
  have up: "co_leads (undead durable) (co_try (upsert_device_state_co S (device_id ev) (event_id ev) (event_type ev)
      (timestamp ev) (payload ev)) (co_catching ''Exception'' (\<lambda>exc. sync (ret ()))))" for ev
    by (intro undead_intros undead_calls.database_co_leads)
  have count: "none_owed (sync (eff (inc (EVENTS_PROCESSED ty))))" for ty
    by (rule owes_none_sync) (auto simp: eff_def inc_def modify_def undead_def none_dead_def split: prod.splits)
  have clock: "none_owed (sync (eff (ask_host (h_monotonic (host_of S)))))"
    by (rule owes_none_sync) (auto simp: eff_def ask_host_def undead_def none_dead_def split: prod.splits)
  have mark: "none_owed (sync (modify (\<lambda>(c, w). (c\<lparr>wc_processed := True\<rparr>, w))))"
    by (rule owes_none_sync) (auto simp: modify_def undead_def none_dead_def)
  have "none_owed (case e of None \<Rightarrow> sync (ret ()) | Some ev \<Rightarrow> co_andthen
      (co_eff (co_try (upsert_device_state_co S (device_id ev) (event_id ev) (event_type ev) (timestamp ev)
         (payload ev)) (co_catching ''Exception'' (\<lambda>exc. sync (ret ())))))
      (co_andthen (sync (eff (inc (EVENTS_PROCESSED (event_type ev)))))
      (co_bind (sync (eff (ask_host (h_monotonic (host_of S))))) (\<lambda>_.
      (co_andthen (sync (modify (\<lambda>(c, w). (c\<lparr>wc_processed := True\<rparr>, w)))) (sync (ret ())))))))" for e
    by (cases e; simp only: option.case) (intro clear_intros clear_bind clear_undead up count clock mark)+
  then show ?thesis unfolding DeviceStateHandler_co_def by (rule owes_none_gets)
qed

lemma insert_clear: "var_none_owed (with_retry_co S cfg' (insert_once_co S ev))"
  unfolding owes_none_def
proof (intro allI impI)
  fix g assume g: "clear d g"
  have "co_spec (var_fits fits) (ctx_step letter_step) (\<lambda>g' r. g' = g \<and> (\<forall>e. r = Inl e \<longrightarrow> True)) g
      (with_retry_co S cfg' (insert_once_co S ev))"
    by (rule co_spec_keep [OF _ undead_calls.insert_keeps_context [where durable = durable] co_raises_any])
       (auto simp: fits_defs ctx_kept_def dest: undead_stays)
  then show "co_spec (var_fits fits) (ctx_step letter_step) (\<lambda>g r. clear d g) g (with_retry_co S cfg' (insert_once_co S ev))"
    by (rule co_spec_mono) (use g in simp)
qed

lemma PersistenceHandler_clear:
  "none_owed (PersistenceHandler_co S cfg (DeviceStateHandler_co S (sync (ret ()))))"
proof -
  have count: "var_none_owed (sync (eff (inc (DB_ERRORS ty))))" for ty
    unfolding owes_none_def
  proof (intro allI impI, rule co_spec_sync)
    fix g s r s' assume "clear d g" "var_fits fits g s" "eff (inc (DB_ERRORS ty)) s = (r, s')"
    then show "\<exists>g'. var_fits fits g' s' \<and> ctx_step letter_step g s s' g' \<and> clear d g'"
      using undead_stays [of durable cfg d "fst g" "snd s" "snd s'"]
      by (intro exI [of _ g]) (auto simp: fits_defs eff_def inc_def modify_def undead_def none_dead_def split: prod.splits)
  qed
  have fails: "var_none_owed (if isinstance exc ''PostgresError'' then
                co_andthen (sync (eff (inc (DB_ERRORS (exn_name exc))))) (give_up_co S cfg ev (lit ''DB_ERROR'') exc)
              else if isinstance exc ''Exception'' then give_up_co S cfg ev (exn_name exc) exc
              else sync (raise exc))" for exc ev
    by (simp add: clear_intros count give_up_clear)
  have body: "var_none_owed (co_try
      (co_andthen (with_retry_co S cfg (insert_once_co S ev)) (co_up (DeviceStateHandler_co S (sync (ret ())))))
      (\<lambda>exc. if isinstance exc ''PostgresError'' then
                co_andthen (sync (eff (inc (DB_ERRORS (exn_name exc))))) (give_up_co S cfg ev (lit ''DB_ERROR'') exc)
              else if isinstance exc ''Exception'' then give_up_co S cfg ev (exn_name exc) exc
              else sync (raise exc)))" for ev
    by (intro clear_intros insert_clear clear_up DeviceStateHandler_clear fails)
  have "none_owed (co_with_var 0 (co_try
      (co_andthen (with_retry_co S cfg (insert_once_co S ev)) (co_up (DeviceStateHandler_co S (sync (ret ())))))
      (\<lambda>exc. if isinstance exc ''PostgresError'' then
                co_andthen (sync (eff (inc (DB_ERRORS (exn_name exc))))) (give_up_co S cfg ev (lit ''DB_ERROR'') exc)
              else if isinstance exc ''Exception'' then give_up_co S cfg ev (exn_name exc) exc
              else sync (raise exc))))" for ev
    unfolding owes_none_def
    by (intro allI impI co_spec_with_var, erule body [unfolded owes_none_def, rule_format])
  then show ?thesis
    unfolding PersistenceHandler_co_def by (intro owes_none_gets) (auto split: option.split intro: clear_intros)
qed

lemma WorkerValidationHandler_clear:
  assumes "none_owed p" shows "none_owed (WorkerValidationHandler_co S cfg p)"
proof -
  have store: "none_owed (sync (modify (\<lambda>(c, w). (c\<lparr>wc_event := Some ev\<rparr>, w))))" for ev
    by (rule owes_none_sync) (auto simp: modify_def undead_def none_dead_def)
  have "none_owed (co_bind (sync (of_result r)) (\<lambda>ev.
      co_andthen (sync (modify (\<lambda>(c, w). (c\<lparr>wc_event := Some ev\<rparr>, w)))) p))" for r
    by (cases r; simp only: co_bind_result) (intro clear_intros store assms)+
  then show ?thesis
    unfolding WorkerValidationHandler_co_def
    by (intro clear_raw) (simp only: dict_get.simps co_bind_result, intro clear_intros clear_catching send_context_clear)
qed

lemma IdempotencyHandler_clear:
  assumes "none_owed p" shows "none_owed (IdempotencyHandler_co S cfg p)"
proof -
  have new: "co_leads (undead durable) (is_new_co S cfg i)" for i
    unfolding is_new_co_def by (intro undead_intros undead_calls.timed_co_leads) simp
  have "none_owed (co_bind (co_eff (is_new_co S cfg i)) (\<lambda>new. if \<not> new then sync (ret ()) else p))" for i
    by (rule clear_bind [OF clear_undead(1) [OF new]]) (simp add: assms clear_intros)
  then show ?thesis
    unfolding IdempotencyHandler_co_def
    by (intro clear_raw) (simp only: dict_get.simps co_bind_result, simp add: assms split: option.split)
qed

lemma handlers_clear: "none_owed (execute_co wc_get_id wc_set_id (ask_host (h_uuid4 (host_of S))) (worker_co_handlers S cfg))"
proof -
  have trace: "none_owed (sync (ensure_trace wc_get_id wc_set_id (ask_host (h_uuid4 (host_of S)))))"
    by (rule owes_none_sync)
       (auto simp: ensure_trace_def io_defs wc_set_id_def undead_def none_dead_def split: prod.splits if_splits)
  have "none_owed (dispatch_co (worker_co_handlers S cfg) 0)"
    unfolding worker_co_handlers_def dispatch_co_Cons dispatch_co_Nil
    by (intro IdempotencyHandler_clear WorkerValidationHandler_clear PersistenceHandler_clear)
  with trace show ?thesis
    unfolding execute_co_def worker_co_handlers_def by (simp, intro clear_intros)
qed

lemma process_pays:
  assumes "x \<noteq> Owed"
  shows "co_spec fits letter_step (\<lambda>x r. x \<noteq> Owed) x (process_co S cfg (JObj d) part off)"
proof -
  let ?Q = "\<lambda>x r. x \<noteq> Owed"
  have keep: "co_spec fits letter_step ?Q x (sync m)"
    if "leads (undead durable) m" "x \<noteq> Owed" for x and m :: "(('r, 'p, 'k, 'h) world, 'a) io"
    by (rule co_spec_mono [OF spec_undead [OF co_leads_sync [OF that(1)]]]) (use that(2) in simp)
  have inner: "co_spec fits letter_step ?Q x (co_hide (new_worker_context (JObj d) t part off t0)
      (execute_co wc_get_id wc_set_id (ask_host (h_uuid4 (host_of S))) (worker_co_handlers S cfg)))"
    if "x \<noteq> Owed" for x t t0
    by (rule co_spec_in_context, rule co_spec_mono, rule handlers_clear [unfolded owes_none_def, rule_format])
       (use that in \<open>auto simp: new_worker_context_def\<close>)
  have fin: "co_spec fits letter_step (\<lambda>g' u. case u of Inl e \<Rightarrow> g' \<noteq> Owed | Inr _ \<Rightarrow> g' \<noteq> Owed) x (sync m)"
    if "leads (undead durable) m" "x \<noteq> Owed" for x and m :: "(('r, 'p, 'k, 'h) world, unit) io"
    by (rule co_spec_mono [OF keep [OF that]]) (simp split: sum.split)
  have clock: "leads (undead durable) (ask_host (h_monotonic (host_of S)) :: (('r, 'p, 'k, 'h) world, rat) io)"
    by (rule undead_calls.calls)
  have body: "co_spec fits letter_step ?Q x (timed_co PROCESSING_LATENCY
      (co_bind (sync (of_result (dict_get (JObj d) (lit ''_trace_id'')))) (\<lambda>t.
       co_bind (sync (ask_host (h_monotonic (host_of S)))) (\<lambda>t0.
         co_hide (new_worker_context (JObj d) (get_default t (JStr [])) part off t0)
           (execute_co wc_get_id wc_set_id (ask_host (h_uuid4 (host_of S))) (worker_co_handlers S cfg))))))"
    if "x \<noteq> Owed" for x
    unfolding timed_co_def dict_get.simps co_bind_result
    by (rule co_spec_finally [OF ghost_letter co_spec_bind [OF ghost_letter keep [OF clock that] inner]])
       (assumption, assumption, rule fin [OF undead_calls.metrics(3)], assumption)
  have "co_spec fits letter_step ?Q x (co_finally (timed_co PROCESSING_LATENCY
      (co_bind (sync (of_result (dict_get (JObj d) (lit ''_trace_id'')))) (\<lambda>t.
       co_bind (sync (ask_host (h_monotonic (host_of S)))) (\<lambda>t0.
         co_hide (new_worker_context (JObj d) (get_default t (JStr [])) part off t0)
           (execute_co wc_get_id wc_set_id (ask_host (h_uuid4 (host_of S))) (worker_co_handlers S cfg))))))
      (sync (add_gauge ACTIVE_TASKS (- 1))))"
    if "x \<noteq> Owed" for x
    by (rule co_spec_finally [OF ghost_letter body [OF that]]) (intro fin leads_undead_gauge)
  then show ?thesis
    unfolding process_co_def
    by (intro co_spec_andthen [OF ghost_letter keep [OF leads_undead_gauge assms]]) auto
qed

end

interpretation sample_letters: dead_letters good_worker rk_durable rk_pending worker_defaults sample_dict
  by (intro dead_letters.intro dead_letters_axioms.intro good_kafka sample_key)

text \<open>A task has counted no dead letter before one is owed.\<close>

lemma letter_unless_uncounted:
  assumes "counted g w w' g'" "letter_step x w w' x'" "x \<noteq> Unneeded \<or> (\<forall>t. g \<noteq> Some (EVENTS_DLQ t))"
  shows "x' \<noteq> Unneeded \<or> (\<forall>t. g' \<noteq> Some (EVENTS_DLQ t))"
proof (rule disjCI)
  assume "\<not> (\<forall>t. g' \<noteq> Some (EVENTS_DLQ t))"
  then obtain t where t: "g' = Some (EVENTS_DLQ t)" by blast
  show "x' \<noteq> Unneeded"
  proof
    assume "x' = Unneeded"
    with assms(2) have x: "x = Unneeded" "none_dead w w'" by (auto simp: letter_step_def)
    with assms(3) have "g \<noteq> Some (EVENTS_DLQ t)" by blast
    with assms(1) t have "one_outcome (EVENTS_DLQ t) w w'" by (auto simp: counted_def)
    with x(2) show False by (simp add: one_outcome_def none_dead_def) (metis zero_neq_one)
  qed
qed

end
