(* ===== verification/Worker_Lossless.thy ===== *)
theory Worker_Lossless
  imports Worker_Accounts Task_Dead
begin

text \<open>
  No event is lost between the database and the dead letters with all tasks of the worker interleaved:
  the contract of the \<open>ledger\<close> once more, now also with what a task owes to the topic of the dead
  letters (\<open>Task_Dead\<close>).
\<close>

text \<open>The calls of the consumer, and the start and the end of the producer, take nothing from the topics.\<close>

definition keeps_log :: "('k \<Rightarrow> krecord multiset) \<Rightarrow> 'k kafka_api \<Rightarrow> 'k consumer_api \<Rightarrow> bool" where
  "keeps_log durable K C \<longleftrightarrow> (let R = \<lambda>x y. durable x \<subseteq># durable y in
     (\<forall>pc. leads R (k_start K pc)) \<and> (\<forall>cc. leads R (c_start C cc)) \<and> leads R (c_stop C) \<and> (\<forall>tps. leads R (c_end_offsets C tps)) \<and> (\<forall>tp. leads R (c_committed C tp)) \<and>
     (\<forall>tp n. leads R (c_commit C tp n)) \<and> leads R (k_stop K))"

lemma leads_log_kept: "leads (\<lambda>x y. durable x \<subseteq># durable y) m \<Longrightarrow> leads (log_kept durable) (on_kafka m)"
  by (auto simp: leads_def on_kafka_def log_kept_def split: prod.splits)

lemma log_process_frame:
  fixes S :: "('r, 'p, 'k, 'h) services"
  assumes "kafka_log (kafka_of S) durable pending" "keeps_log durable (kafka_of S) C"
  shows "process_frame S (log_kept durable) C"
proof -
  have send: "leads (\<lambda>x y. durable x \<subseteq># durable y) (k_send_and_wait (kafka_of S) t v k)" for t v k
  proof (rule leadsI)
    fix x r x' assume run: "k_send_and_wait (kafka_of S) t v k x = (r, x')"
    show "durable x \<subseteq># durable x'"
    proof (cases r)
      case (Inl e)
      with run kafka_log.send_and_wait_fails [OF assms(1)] show ?thesis by blast
    next
      case (Inr u)
      with run kafka_log.send_and_wait_ok [OF assms(1)] have "durable x + {#(t, v, k)#} \<subseteq># durable x'" by blast
      then show ?thesis by (meson mset_subset_eq_add_left subset_mset.order_trans)
    qed
  qed
  have "\<And>pc. leads (log_kept durable) (on_kafka (k_start (kafka_of S) pc) :: (('r, 'p, 'k, 'h) world, unit) io)"
    "\<And>cc. leads (log_kept durable) (on_kafka (c_start C cc) :: (('r, 'p, 'k, 'h) world, unit) io)"
    "leads (log_kept durable) (on_kafka (c_stop C) :: (('r, 'p, 'k, 'h) world, unit) io)"
    "\<And>tps. leads (log_kept durable) (on_kafka (c_end_offsets C tps) :: (('r, 'p, 'k, 'h) world, _) io)"
    "\<And>tp. leads (log_kept durable) (on_kafka (c_committed C tp) :: (('r, 'p, 'k, 'h) world, _) io)"
    "\<And>tp n. leads (log_kept durable) (on_kafka (c_commit C tp n) :: (('r, 'p, 'k, 'h) world, unit) io)"
    "leads (log_kept durable) (on_kafka (k_stop (kafka_of S)) :: (('r, 'p, 'k, 'h) world, unit) io)"
    using assms(2) by (auto simp: keeps_log_def Let_def intro: leads_log_kept)
  then show ?thesis
    by unfold_locales
       (auto simp: log_kept_def preorder_rel_def inc_def set_gauge_def add_gauge_def observe_def bump_def
         intro!: world_calls_same leads_modify leads_log_kept [OF send] intro: subset_mset.order_trans)
qed

section \<open>What a task owes\<close>

definition letter_course :: "('k \<Rightarrow> krecord multiset) \<Rightarrow> worker_settings \<Rightarrow> consumer_record \<Rightarrow> counter option \<Rightarrow>
    (('r, 'p, 'k, 'h) world, unit) pause \<Rightarrow> ('r, 'p, 'k, 'h) world \<Rightarrow> bool" where
  "letter_course durable cfg m g q w \<longleftrightarrow> (\<exists>d x. cr_value m = Inr (JObj d) \<and>
     pause_spec (letter_fits durable cfg d) letter_step (\<lambda>x r. x \<noteq> Owed) x q \<and>
     letter_fits durable cfg d x w \<and> (x \<noteq> Unneeded \<or> (\<forall>t. g \<noteq> Some (EVENTS_DLQ t))))"

definition lettered :: "('k \<Rightarrow> krecord multiset) \<Rightarrow> worker_settings \<Rightarrow> consumer_record \<Rightarrow> counter \<Rightarrow>
    ('r, 'p, 'k, 'h) world \<Rightarrow> bool" where
  "lettered durable cfg m c w \<longleftrightarrow>
     (\<forall>t. c = EVENTS_DLQ t \<longrightarrow> (\<exists>d. cr_value m = Inr (JObj d) \<and> dead_letter durable cfg d w))"

lemma letter_course_begins:
  assumes "kafka_log (kafka_of S) durable pending" "kafka_up (kafka_of S)" "keyed m"
    and "counted None w (snd (task_co S cfg m w)) g"
  shows "letter_course durable cfg m g (fst (task_co S cfg m w)) (snd (task_co S cfg m w))"
proof -
  from assms(3) obtain d where d: "cr_value m = Inr (JObj d)" "\<exists>key. dlq_key (dlq_id_of d) = Inr key"
    by (auto simp: keyed_def)
  have "dead_letters S durable pending d"
    by (intro dead_letters.intro dead_letters_axioms.intro assms(1,2) d(2))
  note pays = dead_letters.process_pays [OF this, where cfg = cfg, of Unneeded "Some (cr_partition m)" "Some (cr_offset m)"]
  let ?p = "process_co S cfg (JObj d) (Some (cr_partition m)) (Some (cr_offset m))"
  obtain x where x: "letter_fits durable cfg d x (snd (?p w))" "letter_step Unneeded w (snd (?p w)) x"
    "pause_spec (letter_fits durable cfg d) letter_step (\<lambda>x r. x \<noteq> Owed) x (fst (?p w))"
    by (rule co_specD [OF pays, of w]) (simp_all add: letter_fits_def)
  moreover have "x \<noteq> Unneeded \<or> (\<forall>t. g \<noteq> Some (EVENTS_DLQ t))"
    using letter_unless_uncounted [OF assms(4), of Unneeded x] x(2) by (simp add: task_co_def d(1))
  ultimately show ?thesis using d(1) by (auto simp: letter_course_def task_co_def)
qed

lemma letter_course_resumes:
  assumes "letter_course durable cfg m g (Paused k) w" "counted g w (snd (k Proceed w)) g'"
  shows "letter_course durable cfg m g' (fst (k Proceed w)) (snd (k Proceed w))"
proof -
  from assms(1) obtain d x where d: "cr_value m = Inr (JObj d)"
    and x: "pause_spec (letter_fits durable cfg d) letter_step (\<lambda>x r. x \<noteq> Owed) x (Paused k)"
      "letter_fits durable cfg d x w" "x \<noteq> Unneeded \<or> (\<forall>t. g \<noteq> Some (EVENTS_DLQ t))"
    unfolding letter_course_def by blast
  from x(1,2) obtain x' where "letter_fits durable cfg d x' (snd (k Proceed w))" "letter_step x w (snd (k Proceed w)) x'"
    "pause_spec (letter_fits durable cfg d) letter_step (\<lambda>x r. x \<noteq> Owed) x' (fst (k Proceed w))"
    by (elim spec_PausedE) blast
  with letter_unless_uncounted [OF assms(2) _ x(3)] d show ?thesis unfolding letter_course_def by blast
qed

lemma letter_course_ends: "letter_course durable cfg m (Some c) (Done r) w \<Longrightarrow> lettered durable cfg m c w"
  by (auto simp: letter_course_def lettered_def letter_fits_def elim!: spec_DoneE) (metis letter.exhaust)+

lemma letters_kept:
  "log_kept durable w w' \<Longrightarrow> letter_course durable cfg m g q w \<Longrightarrow> letter_course durable cfg m g q w'"
  "log_kept durable w w' \<Longrightarrow> lettered durable cfg m c w \<Longrightarrow> lettered durable cfg m c w'"
  unfolding letter_course_def lettered_def letter_fits_def using dead_letter_kept by blast+

lemma lossless_ledger:
  assumes "well_behaved S" "pg_server (pg_of S) tables now_of"
    and "kafka_log (kafka_of S) durable pending" "kafka_up (kafka_of S)" "keeps_log durable (kafka_of S) C"
  shows "ledger S C cfg (\<lambda>w w'. pg_evolves tables w w' \<and> log_kept durable w w') keyed
    (\<lambda>m g q w. on_course tables S m g q w \<and> letter_course durable cfg m g q w)
    (\<lambda>m c w. accounted tables S m c w \<and> lettered durable cfg m c w)"
proof
  note stored = stored_ledger [OF assms(1,2), of C cfg]
  show "pg_evolves tables (ws_world s) (ws_world s') \<and> log_kept durable (ws_world s) (ws_world s')"
    if "worker_run S C cfg (worker_init cfg w0) n s" "worker_step S C cfg s s'" for w0 n s s'
    using ledger.related [OF stored that] process_frame.frame_run_step [OF log_process_frame [OF assms(3,5)] that] ..
  show "\<exists>g. counted None w (snd (task_co S cfg m w)) g \<and>
      on_course tables S m g (fst (task_co S cfg m w)) (snd (task_co S cfg m w)) \<and>
      letter_course durable cfg m g (fst (task_co S cfg m w)) (snd (task_co S cfg m w))" if "keyed m" for m w
    using ledger.course_begins [OF stored that] letter_course_begins [OF assms(3,4) that] by blast
  show "\<exists>g'. counted g w (snd (k Proceed w)) g' \<and> on_course tables S m g' (fst (k Proceed w)) (snd (k Proceed w)) \<and>
      letter_course durable cfg m g' (fst (k Proceed w)) (snd (k Proceed w))"
    if "on_course tables S m g (Paused k) w \<and> letter_course durable cfg m g (Paused k) w" for m g k w
    using that resume_on_course letter_course_resumes by blast
  show "r = Inr () \<and> (\<exists>c. g = Some c \<and> accounted tables S m c w \<and> lettered durable cfg m c w)"
    if "on_course tables S m g (Done r) w \<and> letter_course durable cfg m g (Done r) w" for m g r w
    using that ledger.course_ends [OF stored] letter_course_ends by blast
  show "on_course tables S m g q w' \<and> letter_course durable cfg m g q w'"
    if "pg_evolves tables w w' \<and> log_kept durable w w'" "on_course tables S m g q w \<and> letter_course durable cfg m g q w"
    for w w' m g q
    using that by (auto intro: on_course_evolves letters_kept(1))
  show "accounted tables S m c w' \<and> lettered durable cfg m c w'"
    if "pg_evolves tables w w' \<and> log_kept durable w w'" "accounted tables S m c w \<and> lettered durable cfg m c w"
    for w w' m c
    using that by (auto intro: accounted_evolves letters_kept(2))
qed

lemma ref_keeps_log: "keeps_log rk_durable (kafka_of good_worker) ref_consumer"
  by (auto simp: keeps_log_def ref_consumer_def good_worker_def worker_services_def ref_kafka_def rk_call_def
    rk_durable_def io_defs Let_def leads_def split: option.splits)

interpretation good_lossless: ledger good_worker ref_consumer worker_defaults
  "\<lambda>w w'. pg_evolves rp_tables w w' \<and> log_kept rk_durable w w'" keyed
  "\<lambda>m g q w. on_course rp_tables good_worker m g q w \<and> letter_course rk_durable worker_defaults m g q w"
  "\<lambda>m c w. accounted rp_tables good_worker m c w \<and> lettered rk_durable worker_defaults m c w"
  by (rule lossless_ledger [OF good_well_behaved good_worker_pg good_kafka(1,2) ref_keeps_log])

section \<open>The property\<close>

text \<open>An event that is in the table of events or in the topic of the dead letters.\<close>

definition in_safety :: "('p \<Rightarrow> database) \<Rightarrow> ('k \<Rightarrow> krecord multiset) \<Rightarrow> ('r, 'p, 'k, 'h) services \<Rightarrow>
    worker_settings \<Rightarrow> ('r, 'p, 'k, 'h) world \<Rightarrow> consumer_record \<Rightarrow> bool" where
  "in_safety tables durable S cfg w m \<longleftrightarrow> (\<exists>d. cr_value m = Inr (JObj d) \<and>
     ((\<exists>ev. IoTEvent (py_of S) d = Inr ev \<and> rows_with_id (event_id ev) (tables (postgres w)) \<noteq> []) \<or>
      (\<exists>key u n et em rc pa off. dlq_key (dlq_id_of d) = Inr key \<and> (W_KAFKA_TOPIC_DLQ cfg,
         JObj (dlq_envelope cfg u n (JObj d) et em rc dlq_topic_default pa off), Some key) \<in># durable (kafka w))))"

lemma accounted_in_safety:
  assumes "accounted tables S m c w" "lettered durable cfg m c w" "c \<noteq> EVENTS_DUPLICATE"
  shows "in_safety tables durable S cfg w m"
proof -
  from assms(1,3) obtain d where d: "cr_value m = Inr (JObj d)" "may_end (py_of S) d c"
    and row: "\<And>t. c = EVENTS_PROCESSED t \<Longrightarrow> has_row tables (row_id S m) w"
    by (auto simp: accounted_def may_count_def)
  from d(2) consider t where "c = EVENTS_DLQ t" | ev where "IoTEvent (py_of S) d = Inr ev" "c = EVENTS_PROCESSED (event_type ev)"
    by (auto simp: may_end_def late_outcome_def split: sum.splits)
  then show ?thesis
  proof cases
    case 1
    with assms(2) d(1) show ?thesis by (auto simp: lettered_def dead_letter_def in_safety_def)
  next
    case 2
    with row d(1) show ?thesis by (auto simp: in_safety_def has_row_def row_id_def)
  qed
qed

lemma only_duplicates_missing:
  "list_all2 (\<lambda>m c. accounted tables S m c w \<and> lettered durable cfg m c w) ms cs \<Longrightarrow>
   length (filter (\<lambda>m. \<not> in_safety tables durable S cfg w m) ms) \<le> count_list cs EVENTS_DUPLICATE"
  by (induction ms cs rule: list_all2_induct) (auto dest: accounted_in_safety)

text \<open>C3: No event is lost between the database and the dead letters, however the tasks of the worker
  interleave. Suppose that no service call is cancelled, that the DLQ topic accepts records and keeps
  them, and that the ids of the records received can be made keys. Then in every state before \<open>main\<close> has
  returned, whatever Redis and PostgreSQL have done, each record that has been processed validates and
  has a row with its id in the table of events, or the DLQ topic holds an envelope with the event as it
  came, but for at most as many records as have been counted as duplicates.\<close>

theorem no_event_lost_interleaved:
  assumes "well_behaved S" "pg_server (pg_of S) tables now_of"
    and "kafka_log (kafka_of S) durable pending" "kafka_up (kafka_of S)" "keeps_log durable (kafka_of S) C"
    and "0 \<le> W_MAX_CONCURRENT_TASKS cfg"
    and "worker_run S C cfg (worker_init cfg w0) n s" "\<not> main_returned s"
    and "\<forall>m\<in>set (ws_received s). \<exists>d key. cr_value m = Inr (JObj d) \<and> dlq_key (dlq_id_of d) = Inr key"
  shows "tally EVENTS_DUPLICATE w0 +
      length (filter (\<lambda>m. \<not> in_safety tables durable S cfg (ws_world s) m) (ws_processed s))
    \<le> tally EVENTS_DUPLICATE (ws_world s)"
proof -
  have keys: "\<forall>m\<in>set (ws_received s). keyed m" using assms(9) unfolding keyed_def .
  from ledger.accounts_balance [OF lossless_ledger [OF assms(1-5)] assms(6-8) keys] obtain cs xs where
    cs: "list_all2 (\<lambda>m c. accounted tables S m c (ws_world s) \<and> lettered durable cfg m c (ws_world s))
      (ws_processed s) cs"
    and tally: "\<And>c. outcome_counter c \<Longrightarrow> tally c (ws_world s) = tally c w0 + count_list (cs @ xs) c"
    by blast
  from only_duplicates_missing [OF cs] tally [of EVENTS_DUPLICATE] show ?thesis by simp
qed

theorem no_event_lost_interleaved_witness:
  "\<exists>n s. worker_run good_worker ref_consumer worker_defaults (worker_init worker_defaults worker_world) n s \<and>
     ws_processed s = [sample_record 1] \<and> in_flight s = [sample_record 0] \<and>
     (0 < tally EVENTS_DUPLICATE (ws_world s) \<or>
        in_safety rp_tables rk_durable good_worker worker_defaults (ws_world s) (sample_record 1))"
proof -
  obtain n s where s: "worker_run good_worker ref_consumer worker_defaults (worker_init worker_defaults worker_world) n s"
    "\<not> main_returned s" "ws_received s = [sample_record 0, sample_record 1]" "ws_processed s = [sample_record 1]"
    "in_flight s = [sample_record 0]" using overtaking_worker_run by blast
  obtain key where key: "dlq_key (dlq_id_of sample_dict) = Inr key" using sample_key by blast
  have "0 \<le> W_MAX_CONCURRENT_TASKS worker_defaults" by (simp add: worker_defaults_def)
  from no_event_lost_interleaved [OF good_well_behaved good_worker_pg good_kafka(1,2) ref_keeps_log
      this s(1,2)] s(3) key
  have "tally EVENTS_DUPLICATE worker_world + length (filter (\<lambda>m. \<not> in_safety rp_tables rk_durable good_worker
      worker_defaults (ws_world s) m) (ws_processed s)) \<le> tally EVENTS_DUPLICATE (ws_world s)"
    by simp
  with s(4) have "0 < tally EVENTS_DUPLICATE (ws_world s) \<or>
      in_safety rp_tables rk_durable good_worker worker_defaults (ws_world s) (sample_record 1)"
    by (auto split: if_splits)
  with s show ?thesis by blast
qed

end
