(* ===== verification/Simulator.thy ===== *)
theory Simulator
  imports Ingest_Handlers
begin

text \<open>
  \<open>scripts/simulate_iot.py\<close>, the program that stands for the devices. The random generator, the
  clock and the MQTT client are parameters; \<open>simulator\<close> states what is relied on of the first two.
  The lemmas connect the script with the services: its messages are on topics from which the
  ingestion service reads the device id, and they validate.
\<close>

record 'm sim_api =
  s_connect :: "pystr \<Rightarrow> int \<Rightarrow> ('m, unit) io"
  s_publish :: "pystr \<Rightarrow> json \<Rightarrow> int \<Rightarrow> ('m, unit) io" \<comment> \<open>topic, the value whose JSON is sent, qos\<close>
  s_disconnect :: "('m, unit) io"
  s_choices :: "pystr \<Rightarrow> nat \<Rightarrow> ('m, pystr) io" \<comment> \<open>\<open>random.choices(chars, k=k)\<close>\<close>
  s_uniform :: "rat \<Rightarrow> rat \<Rightarrow> ('m, pyfloat) io" \<comment> \<open>\<open>round(random.uniform(a, b), 2)\<close>\<close>
  s_randint :: "int \<Rightarrow> int \<Rightarrow> ('m, int) io"
  s_now_iso :: "('m, pystr) io"
  s_sleep :: "rat \<Rightarrow> ('m, unit) io"

definition BROKER_PORT :: int where "BROKER_PORT = 11883"

definition EVENTS_PER_DEVICE :: nat where "EVENTS_PER_DEVICE = 3"

definition NUM_DEVICES :: nat where "NUM_DEVICES = 5"

definition ulid_chars :: pystr where
  "ulid_chars = lit ''0123456789ABCDEFGHJKMNPQRSTVWXYZ''"

definition generate_ulid :: "'m sim_api \<Rightarrow> ('m, pystr) io" where
  "generate_ulid M = s_choices M ulid_chars 26"

definition sim_payload :: "pystr \<Rightarrow> pystr \<Rightarrow> pystr \<Rightarrow> pyfloat \<Rightarrow> pyfloat \<Rightarrow> int \<Rightarrow> dict" where
  "sim_payload ulid device now temperature humidity battery =
     [(lit ''event_id'', JStr ulid),
      (lit ''device_id'', JStr device),
      (lit ''event_type'', JStr (lit ''telemetry'')),
      (lit ''timestamp'', JStr now),
      (lit ''payload'', JObj [(lit ''temperature'', JFloat temperature),
         (lit ''humidity'', JFloat humidity), (lit ''battery'', JInt battery)]),
      (lit ''metadata'', JObj [(lit ''firmware'', JStr (lit ''v2.1.0''))]),
      (lit ''schema_version'', JStr (lit ''1.0''))]"

text \<open>\<open>TOPIC_TEMPLATE.format(device_id=device_id)\<close>\<close>

definition sim_topic :: "pystr \<Rightarrow> pystr" where
  "sim_topic device = lit ''devices/'' @ device @ lit ''/events''"

definition simulate_event :: "'m sim_api \<Rightarrow> pystr \<Rightarrow> ('m, unit) io" where
  "simulate_event M device =
     bind (generate_ulid M) (\<lambda>ulid.
     bind (s_now_iso M) (\<lambda>now.
     bind (s_uniform M 20 30) (\<lambda>temperature.
     bind (s_uniform M 40 60) (\<lambda>humidity.
     bind (s_randint M 70 100) (\<lambda>battery.
     andthen (s_publish M (sim_topic device) (JObj (sim_payload ulid device now temperature humidity battery)) 1)
       (s_sleep M 1))))))"

fun times :: "nat \<Rightarrow> ('m, unit) io \<Rightarrow> ('m, unit) io" where
  "times 0 m = ret ()"
| "times (Suc n) m = andthen m (times n m)"

definition simulate_device :: "'m sim_api \<Rightarrow> pystr \<Rightarrow> ('m, unit) io" where
  "simulate_device M device =
     andthen (s_connect M (lit ''localhost'') BROKER_PORT)
       (andthen (times EVENTS_PER_DEVICE (simulate_event M device)) (s_disconnect M))"

text \<open>\<open>f"sensor-{i:03d}"\<close>\<close>

definition device_name :: "nat \<Rightarrow> pystr" where
  "device_name i = (let s = nat_str i in lit ''sensor-'' @ replicate (3 - length s) 48 @ s)"

definition device_names :: "pystr list" where
  "device_names = map device_name [0..<NUM_DEVICES]"

section \<open>What the messages are\<close>

text \<open>The characters are drawn from those given, and \<open>now\<close> is the text of a UTC time. \<open>sent m\<close> are the
  messages the client has accepted.\<close>

locale simulator =
  fixes M :: "'m sim_api" and py :: pylib and sent :: "'m \<Rightarrow> (pystr \<times> json) list"
  assumes choices_ok: "s_choices M cs k m = (Inr s, m') \<Longrightarrow> length s = k \<and> set s \<subseteq> set cs \<and> sent m' = sent m"
    and now_ok: "s_now_iso M m = (Inr s, m') \<Longrightarrow> sent m' = sent m \<and>
      (\<exists>dt. fromisoformat py (replace_char 90 (lit ''+00:00'') s) = Some dt \<and>
        valid_datetime dt \<and> utcoffset dt = Some 0)"
    and publish_ok: "s_publish M t v q m = (r, m') \<Longrightarrow> sent m' = sent m \<or> sent m' = sent m @ [(t, v)]"
    and quiet_rest: "s_choices M cs k m = (Inl e, m') \<Longrightarrow> sent m' = sent m"
      "s_now_iso M m = (Inl e, m') \<Longrightarrow> sent m' = sent m"
      "s_uniform M a b m = (ru, m') \<Longrightarrow> sent m' = sent m"
      "s_randint M i j m = (ri, m') \<Longrightarrow> sent m' = sent m"
      "s_sleep M d m = (rs, m') \<Longrightarrow> sent m' = sent m"
      "s_connect M h p m = (rc, m') \<Longrightarrow> sent m' = sent m"
      "s_disconnect M m = (rd, m') \<Longrightarrow> sent m' = sent m"

definition acceptable :: "pylib \<Rightarrow> pystr \<Rightarrow> pystr \<times> json \<Rightarrow> bool" where
  "acceptable py device msg' \<longleftrightarrow> device_of_topic (fst msg') = device \<and>
     (\<exists>ev. IoTEvent_of py (snd msg') = Inr ev \<and> valid_iot_event ev \<and> device_id ev = device)"

lemma chars_crockford: "c \<in> set ulid_chars \<Longrightarrow> crockford c"
  by (auto simp: ulid_chars_def lit_def crockford_def)

lemma sim_payload_validates:
  assumes "length u = 26" "set u \<subseteq> set ulid_chars" "1 \<le> length device" "length device \<le> 128" "encodable device"
    and "fromisoformat py (replace_char 90 (lit ''+00:00'') now) = Some dt"
    and "valid_datetime dt" "utcoffset dt = Some 0"
  shows "\<exists>ev. IoTEvent py (sim_payload u device now t h b) = Inr ev \<and> valid_iot_event ev \<and>
    device_id ev = device \<and> event_id ev = u"
proof -
  let ?d = "sim_payload u device now t h b"
  have "list_all ulid_cp u" using assms(2) chars_crockford by (auto simp: list_all_iff ulid_cp_def)
  then have "event_id_field ?d = Inr u"
    using validate_ulid_fixed assms(1)
    using ulid_encodable by (simp add: event_id_field_def str_field_def sim_payload_def)
  moreover have "str_field ?d ''device_id'' 1 (Some 128) = Inr device"
    "str_field ?d ''event_type'' 1 (Some 64) = Inr (lit ''telemetry'')"
    "str_field ?d ''schema_version'' 0 None = Inr (lit ''1.0'')"
    "dict_field ?d ''payload'' = Inr [(lit ''temperature'', JFloat t), (lit ''humidity'', JFloat h),
       (lit ''battery'', JInt b)]"
    "dict_field ?d ''metadata'' = Inr [(lit ''firmware'', JStr (lit ''v2.1.0''))]"
    "map_of ?d (lit ''schema_version'') = Some (JStr (lit ''1.0''))"
    "map_of ?d (lit ''metadata'') = Some (JObj [(lit ''firmware'', JStr (lit ''v2.1.0''))])"
    using assms(3-5) by (auto simp: str_field_def dict_field_def sim_payload_def not_less)
  moreover have "timestamp_field py ?d = Inr (Inr dt)"
    using assms(6,8)
    by (simp add: timestamp_field_def sim_payload_def ensure_utc_def astimezone_utc_fixed)
  ultimately show ?thesis
    using assms(1,3-5,7,8) \<open>list_all ulid_cp u\<close>
    by (simp add: IoTEvent_def Let_def with_default_def valid_iot_event_def)
qed

text \<open>The ingestion service reads the device id back from the topic.\<close>

lemma device_of_sim_topic:
  assumes "47 \<notin> set device" shows "device_of_topic (sim_topic device) = device"
proof -
  have "split_on 47 (sim_topic device) = [lit ''devices'', device, lit ''events'']"
    using assms by (simp add: sim_topic_def lit_def split_on_append)
  then show ?thesis by (simp add: device_of_topic_def)
qed

definition adds_acceptable :: "('m \<Rightarrow> (pystr \<times> json) list) \<Rightarrow> pylib \<Rightarrow> pystr \<Rightarrow> nat \<Rightarrow> 'm \<Rightarrow> 'm \<Rightarrow> bool" where
  "adds_acceptable sent py device n m m' \<longleftrightarrow>
     (\<exists>ms. sent m' = sent m @ ms \<and> length ms \<le> n \<and> (\<forall>x \<in> set ms. acceptable py device x))"

lemma adds_none: "sent m' = sent m \<Longrightarrow> adds_acceptable sent py device n m m'"
  by (simp add: adds_acceptable_def)

lemma adds_trans:
  assumes "adds_acceptable sent py device i m1 m2" "adds_acceptable sent py device j m2 m3"
  shows "adds_acceptable sent py device (i + j) m1 m3"
proof -
  from assms obtain ms ms' where "sent m2 = sent m1 @ ms" "sent m3 = sent m2 @ ms'"
    "length ms \<le> i" "length ms' \<le> j" "\<forall>x \<in> set ms \<union> set ms'. acceptable py device x"
    unfolding adds_acceptable_def by blast
  then show ?thesis unfolding adds_acceptable_def by (intro exI [of _ "ms @ ms'"]) auto
qed

lemma adds_chain:
  "sent m2 = sent m1 \<Longrightarrow> adds_acceptable sent py device n m2 m3 \<Longrightarrow>
   adds_acceptable sent py device n m1 m3"
  by (simp add: adds_acceptable_def)

text \<open>Composition of actions of which the first one sends nothing.\<close>

lemma adds_bind:
  assumes "bind m f s = (r, s')" "\<And>q t. m s = (q, t) \<Longrightarrow> sent t = sent s"
    and "\<And>x t r s'. m s = (Inr x, t) \<Longrightarrow> f x t = (r, s') \<Longrightarrow> adds_acceptable sent py device n t s'"
  shows "adds_acceptable sent py device n s s'"
proof -
  obtain q t where q: "m s = (q, t)" by fastforce
  show ?thesis
  proof (cases q)
    case (Inl e)
    with q assms(1,2) show ?thesis by (auto simp: bind_def intro: adds_none)
  next
    case (Inr x)
    with q assms(1) have "f x t = (r, s')" by (simp add: bind_def)
    from assms(2) [OF q] assms(3) [OF q [unfolded Inr] this] show ?thesis by (rule adds_chain)
  qed
qed

context simulator
begin

lemma publish_adds:
  assumes "acceptable py device (t, v)"
    and "andthen (s_publish M t v q) (s_sleep M d) m = (r, m')"
  shows "adds_acceptable sent py device 1 m m'"
proof -
  obtain p m1 where p: "s_publish M t v q m = (p, m1)" by fastforce
  have "sent m' = sent m1"
    using assms(2) p quiet_rest(5) by (auto simp: andthen_def bind_def split: sum.splits prod.splits)
  with publish_ok [OF p] assms(1) show ?thesis by (auto simp: adds_acceptable_def)
qed

lemma event_adds:
  assumes "1 \<le> length device" "length device \<le> 128" "47 \<notin> set device" "encodable device"
    and "simulate_event M device m = (r, m')"
  shows "adds_acceptable sent py device 1 m m'"
  using assms(5) unfolding simulate_event_def generate_ulid_def
proof (rule adds_bind)
  fix q t assume "s_choices M ulid_chars 26 m = (q, t)"
  then show "sent t = sent m" using choices_ok quiet_rest(1) by (cases q) blast+
next
  fix u m1 r m'
  assume "s_choices M ulid_chars 26 m = (Inr u, m1)"
    and rest: "bind (s_now_iso M) (\<lambda>now. bind (s_uniform M 20 30) (\<lambda>temperature.
      bind (s_uniform M 40 60) (\<lambda>humidity. bind (s_randint M 70 100) (\<lambda>battery.
      andthen (s_publish M (sim_topic device) (JObj (sim_payload u device now temperature humidity battery)) 1)
       (s_sleep M 1))))) m1 = (r, m')"
  then have u: "length u = 26" "set u \<subseteq> set ulid_chars" using choices_ok by blast+
  from rest show "adds_acceptable sent py device 1 m1 m'"
  proof (rule adds_bind)
    fix q t assume "s_now_iso M m1 = (q, t)"
    then show "sent t = sent m1" using now_ok quiet_rest(2) by (cases q) blast+
  next
    fix now m2 r m'
    assume "s_now_iso M m1 = (Inr now, m2)"
      and rest: "bind (s_uniform M 20 30) (\<lambda>temperature.
        bind (s_uniform M 40 60) (\<lambda>humidity. bind (s_randint M 70 100) (\<lambda>battery.
        andthen (s_publish M (sim_topic device) (JObj (sim_payload u device now temperature humidity battery)) 1)
         (s_sleep M 1)))) m2 = (r, m')"
    then have "acceptable py device (sim_topic device, JObj (sim_payload u device now t h b))" for t h b
      using now_ok sim_payload_validates [OF u assms(1,2,4)] device_of_sim_topic [OF assms(3)]
      by (fastforce simp: acceptable_def IoTEvent_of_def)
    with rest show "adds_acceptable sent py device 1 m2 m'"
      by (auto elim!: adds_bind simp: quiet_rest(3,4) intro: publish_adds [unfolded One_nat_def])
  qed
qed

lemma times_adds:
  assumes "\<And>m r m'. act m = (r, m') \<Longrightarrow> adds_acceptable sent py device 1 m m'" "times n act m = (r, m')"
  shows "adds_acceptable sent py device n m m'"
  using assms(2)
proof (induction n arbitrary: m)
  case 0
  then show ?case by (simp add: ret_def adds_none)
next
  case (Suc n)
  obtain q t where q: "act m = (q, t)" by fastforce
  note one = assms(1) [OF q]
  show ?case
  proof (cases q)
    case (Inl e)
    with q Suc.prems one show ?thesis by (auto simp: andthen_def bind_def adds_acceptable_def)
  next
    case (Inr x)
    with q Suc.prems have "times n act t = (r, m')" by (simp add: andthen_def bind_def)
    from adds_trans [OF one Suc.IH [OF this]] show ?thesis by simp
  qed
qed

lemma device_adds:
  assumes "1 \<le> length device" "length device \<le> 128" "47 \<notin> set device" "encodable device"
    and "simulate_device M device m = (r, m')"
  shows "adds_acceptable sent py device EVENTS_PER_DEVICE m m'"
  using assms(5) unfolding simulate_device_def andthen_def [of "s_connect M h p" for h p]
proof (rule adds_bind)
  fix q t assume "s_connect M (lit ''localhost'') BROKER_PORT m = (q, t)"
  then show "sent t = sent m" by (rule quiet_rest(6))
next
  fix x t r m'
  assume run: "andthen (times EVENTS_PER_DEVICE (simulate_event M device)) (s_disconnect M) t = (r, m')"
  obtain q t1 where q: "times EVENTS_PER_DEVICE (simulate_event M device) t = (q, t1)" by fastforce
  have "sent m' = sent t1"
    using run q quiet_rest(7) by (auto simp: andthen_def bind_def split: sum.splits prod.splits)
  with times_adds [OF event_adds [OF assms(1-4)] q] show "adds_acceptable sent py device EVENTS_PER_DEVICE t m'"
    by (simp add: adds_acceptable_def)
qed

end

section \<open>A reference simulator\<close>

text \<open>The state is what has been sent; the random choices are the first of each range.\<close>

definition ref_sim :: "(pystr \<times> json) list sim_api" where
  "ref_sim = \<lparr>s_connect = (\<lambda>h p. ret ()), s_publish = (\<lambda>t v q. modify (\<lambda>m. m @ [(t, v)])),
     s_disconnect = ret (),
     s_choices = (\<lambda>cs k. if cs = [] then raise AssertionError else ret (replicate k (hd cs))),
     s_uniform = (\<lambda>a b. ret (if a \<le> 20 then Fin 5 2 else Fin 5 3)), s_randint = (\<lambda>i j. ret i),
     s_now_iso = ret (lit ''2026-03-19T14:00:00+00:00''), s_sleep = (\<lambda>d. ret ())\<rparr>"

lemma ref_now_parses:
  "fromisoformat ref_py (replace_char 90 (lit ''+00:00'') (lit ''2026-03-19T14:00:00+00:00'')) =
     Some (DateTime 2026 3 19 14 0 0 0 (Some 0))"
  by (simp add: ref_py_def lit_def replace_char_def iso_parse_def iso_time_def iso_offset_def num_def
      Let_def valid_datetime_def days_in_month_def day_us_def)

interpretation ref_sim: simulator ref_sim ref_py "\<lambda>m. m"
proof unfold_locales
  fix s m m' assume "s_now_iso ref_sim m = (Inr s, m')"
  then have "s = lit ''2026-03-19T14:00:00+00:00''" "m' = m" by (simp_all add: ref_sim_def ret_def)
  with ref_now_parses show "m' = m \<and>
      (\<exists>dt. fromisoformat ref_py (replace_char 90 (lit ''+00:00'') s) = Some dt \<and>
        valid_datetime dt \<and> utcoffset dt = Some 0)"
    by (simp add: valid_datetime_def days_in_month_def day_us_def)
qed (auto simp: ref_sim_def io_defs split: if_splits)

lemma device_names_ok:
  "device \<in> set device_names \<Longrightarrow> 1 \<le> length device \<and> length device \<le> 128 \<and> 47 \<notin> set device \<and> encodable device"
  by (auto simp: encodable_def surrogate_def device_names_def NUM_DEVICES_def device_name_def upt_conv_Cons nat_str.simps
      lit_def numeral_2_eq_2)

text \<open>C40: The simulator speaks the protocol of the services: whatever its device publishes in a run, at
  most three messages, is on a topic from which the ingestion service reads the name of the device,
  and validates to a normal event of this device.\<close>

theorem simulator_messages_accepted:
  assumes "simulator M py sent" "device \<in> set device_names" "simulate_device M device m = (r, m')"
  shows "\<exists>ms. sent m' = sent m @ ms \<and> length ms \<le> 3 \<and>
    (\<forall>(topic, v) \<in> set ms. device_of_topic topic = device \<and>
       (\<exists>ev. IoTEvent_of py v = Inr ev \<and> valid_iot_event ev \<and> device_id ev = device))"
proof -
  from device_names_ok [OF assms(2)]
  have dev: "1 \<le> length device" "length device \<le> 128" "47 \<notin> set device" "encodable device" by simp_all
  from simulator.device_adds [OF assms(1) dev assms(3)] show ?thesis
    by (fastforce simp: adds_acceptable_def acceptable_def EVENTS_PER_DEVICE_def)
qed

theorem simulator_messages_accepted_witness:
  "\<exists>m'. simulate_device ref_sim (device_name 4) [] = (Inr (), m') \<and> length m' = 3 \<and>
     (\<forall>(topic, v) \<in> set m'. device_of_topic topic = device_name 4)"
proof -
  have dev: "device_name 4 \<in> set device_names" by (simp add: device_names_def NUM_DEVICES_def)
  obtain m' where run: "simulate_device ref_sim (device_name 4) [] = (Inr (), m')" and "length m' = 3"
    by (simp add: simulate_device_def simulate_event_def generate_ulid_def EVENTS_PER_DEVICE_def
        numeral_3_eq_3 ref_sim_def io_defs ulid_chars_def)
  moreover from simulator_messages_accepted [OF ref_sim.simulator_axioms dev run]
  have "\<forall>(topic, v) \<in> set m'. device_of_topic topic = device_name 4" by auto
  ultimately show ?thesis by blast
qed

end
