(* ===== verification/Json_Text.thy ===== *)
theory Json_Text
  imports Redis_Store
begin

text \<open>
  \<open>json.dumps\<close> and \<open>json.loads\<close> with their default arguments, the text form in which the services
  exchange values: the serializer of the producer, the deserializer of the consumer, and the JSON
  columns. The text of a finite float (\<open>float.__repr__\<close>) and its reading are parameters, and so is
  the number of levels that are left of the interpreter's recursion limit when writing or reading
  begins: beyond it both raise RecursionError. Both raise ValueError for an int of more than 4300
  digits, the limit of the interpreter for the conversion of ints.
\<close>

section \<open>Writing\<close>

definition hexd :: "nat \<Rightarrow> nat" where
  "hexd n = (if n < 10 then 48 + n else 87 + n)"

definition u_escape :: "nat \<Rightarrow> pystr" where
  "u_escape n = [92, 117, hexd (n div 4096), hexd (n div 256 mod 16), hexd (n div 16 mod 16), hexd (n mod 16)]"

definition short_escape :: "nat \<Rightarrow> nat option" where
  "short_escape c = (if c = 34 \<or> c = 92 then Some c else if c = 10 then Some 110 else if c = 13 then Some 114
     else if c = 9 then Some 116 else if c = 12 then Some 102 else if c = 8 then Some 98 else None)"

definition esc_cp :: "nat \<Rightarrow> pystr" where
  "esc_cp c =
     (case short_escape c of
        Some e \<Rightarrow> [92, e]
      | None \<Rightarrow>
          if 32 \<le> c \<and> c \<le> 126 then [c]
          else if c < 0x10000 then u_escape c
          else let n = c - 0x10000 in u_escape (0xD800 + n div 1024) @ u_escape (0xDC00 + n mod 1024))"

definition dumps_str :: "pystr \<Rightarrow> pystr" where
  "dumps_str s = 34 # concat (map esc_cp s) @ [34]"

definition dumps_float :: "(pyfloat \<Rightarrow> pystr) \<Rightarrow> pyfloat \<Rightarrow> pystr" where
  "dumps_float fl f = (case f of PosInf \<Rightarrow> lit ''Infinity'' | NegInf \<Rightarrow> lit ''-Infinity''
     | NaN \<Rightarrow> lit ''NaN'' | _ \<Rightarrow> fl f)"

fun dumps :: "(pyfloat \<Rightarrow> pystr) \<Rightarrow> json \<Rightarrow> pystr"
  and dumps_list :: "(pyfloat \<Rightarrow> pystr) \<Rightarrow> json list \<Rightarrow> pystr"
  and dumps_members :: "(pyfloat \<Rightarrow> pystr) \<Rightarrow> dict \<Rightarrow> pystr" where
  "dumps fl JNull = lit ''null''"
| "dumps fl (JBool b) = (if b then lit ''true'' else lit ''false'')"
| "dumps fl (JInt i) = int_str i"
| "dumps fl (JFloat f) = dumps_float fl f"
| "dumps fl (JStr s) = dumps_str s"
| "dumps fl (JArr vs) = 91 # dumps_list fl vs @ [93]"
| "dumps fl (JObj ms) = 123 # dumps_members fl ms @ [125]"
| "dumps_list fl [] = []"
| "dumps_list fl [v] = dumps fl v"
| "dumps_list fl (v # vs) = dumps fl v @ [44, 32] @ dumps_list fl vs"
| "dumps_members fl [] = []"
| "dumps_members fl [(k, v)] = dumps_str k @ [58, 32] @ dumps fl v"
| "dumps_members fl ((k, v) # ms) = dumps_str k @ [58, 32] @ dumps fl v @ [44, 32] @ dumps_members fl ms"

text \<open>The exceptions: what \<open>json.dumps\<close> raises, going through the value with \<open>k\<close> levels left, if
  anything.\<close>

definition RecursionError :: exn where
  "RecursionError = Exn [''RecursionError'', ''RuntimeError'', ''Exception'', ''BaseException'']
     (lit ''maximum recursion depth exceeded'')"

definition int_too_long :: exn where
  "int_too_long = ValueError (lit ''Exceeds the limit (4300 digits) for integer string conversion'')"

definition int_fits :: "int \<Rightarrow> bool" where
  "int_fits i \<longleftrightarrow> length (nat_str (nat \<bar>i\<bar>)) \<le> 4300"

fun dump_error :: "nat \<Rightarrow> json \<Rightarrow> exn option"
  and dump_errors :: "nat \<Rightarrow> json list \<Rightarrow> exn option"
  and member_errors :: "nat \<Rightarrow> dict \<Rightarrow> exn option" where
  "dump_error k (JInt i) = (if int_fits i then None else Some int_too_long)"
| "dump_error k (JArr vs) = (case k of 0 \<Rightarrow> Some RecursionError | Suc k \<Rightarrow> dump_errors k vs)"
| "dump_error k (JObj ms) = (case k of 0 \<Rightarrow> Some RecursionError | Suc k \<Rightarrow> member_errors k ms)"
| "dump_error k _ = None"
| "dump_errors k [] = None"
| "dump_errors k (v # vs) = (case dump_error k v of None \<Rightarrow> dump_errors k vs | Some e \<Rightarrow> Some e)"
| "member_errors k [] = None"
| "member_errors k ((key, v) # ms) = (case dump_error k v of None \<Rightarrow> member_errors k ms | Some e \<Rightarrow> Some e)"

section \<open>Reading\<close>

definition JSONDecodeError :: exn where
  "JSONDecodeError = Exn [''JSONDecodeError'', ''ValueError'', ''Exception'', ''BaseException''] []"

definition starts :: "nat \<Rightarrow> pystr \<Rightarrow> bool" where
  "starts c s \<longleftrightarrow> (case s of [] \<Rightarrow> False | d # _ \<Rightarrow> d = c)"

definition json_space :: "nat \<Rightarrow> bool" where
  "json_space c \<longleftrightarrow> c = 32 \<or> c = 9 \<or> c = 10 \<or> c = 13"

definition skip_ws :: "pystr \<Rightarrow> pystr" where
  "skip_ws s = dropWhile json_space s"

definition hexv :: "nat \<Rightarrow> nat option" where
  "hexv c = (if 48 \<le> c \<and> c \<le> 57 then Some (c - 48) else if 97 \<le> c \<and> c \<le> 102 then Some (c - 87)
     else if 65 \<le> c \<and> c \<le> 70 then Some (c - 55) else None)"

fun hex4 :: "pystr \<Rightarrow> (nat \<times> pystr) option" where
  "hex4 (a # b # c # d # r) =
     (case (hexv a, hexv b, hexv c, hexv d) of
        (Some a, Some b, Some c, Some d) \<Rightarrow> Some (((a * 16 + b) * 16 + c) * 16 + d, r)
      | _ \<Rightarrow> None)"
| "hex4 _ = None"

definition unescape :: "nat \<Rightarrow> nat option" where
  "unescape e = (if e = 34 \<or> e = 92 \<or> e = 47 then Some e else if e = 110 then Some 10 else if e = 114 then Some 13
     else if e = 116 then Some 9 else if e = 102 then Some 12 else if e = 98 then Some 8 else None)"

text \<open>The low half of a surrogate pair after the high half \<open>u\<close>.\<close>

definition low_half :: "nat \<Rightarrow> pystr \<Rightarrow> (nat \<times> pystr) option" where
  "low_half u r =
     (if 0xD800 \<le> u \<and> u \<le> 0xDBFF \<and> starts 92 r \<and> starts 117 (tl r) then
        (case hex4 (drop 2 r) of
           Some (v, r') \<Rightarrow> if 0xDC00 \<le> v \<and> v \<le> 0xDFFF
             then Some (0x10000 + (u - 0xD800) * 1024 + (v - 0xDC00), r') else None
         | None \<Rightarrow> None)
      else None)"

definition cons_fst :: "'a \<Rightarrow> ('a list \<times> 'b) option \<Rightarrow> ('a list \<times> 'b) option" where
  "cons_fst x p = map_option (\<lambda>(xs, r). (x # xs, r)) p"

lemma hex4_length: "hex4 s = Some (n, r) \<Longrightarrow> length r < length s"
  by (induction s rule: hex4.induct) (auto split: option.splits)

lemma low_half_length: "low_half u r = Some (n, r') \<Longrightarrow> length r' < length r"
  by (auto simp: low_half_def dest!: hex4_length split: if_splits option.splits)

text \<open>A string after its opening quote.\<close>

function pstring :: "pystr \<Rightarrow> (pystr \<times> pystr) option" where
  "pstring s =
     (case s of [] \<Rightarrow> None
      | c # r \<Rightarrow>
          if c = 34 then Some ([], r)
          else if c = 92 then
            (case r of [] \<Rightarrow> None
             | e # r1 \<Rightarrow>
                 if e = 117 then
                   (case hex4 r1 of
                      None \<Rightarrow> None
                    | Some (u, r2) \<Rightarrow>
                        (case low_half u r2 of
                           Some (c', r3) \<Rightarrow> cons_fst c' (pstring r3)
                         | None \<Rightarrow> cons_fst u (pstring r2)))
                 else (case unescape e of None \<Rightarrow> None | Some c' \<Rightarrow> cons_fst c' (pstring r1)))
          else if c < 32 then None
          else cons_fst c (pstring r))"
  by pat_completeness auto
termination
  by (relation "measure length") (auto dest!: hex4_length low_half_length)

declare pstring.simps [simp del]

definition is_digit :: "nat \<Rightarrow> bool" where
  "is_digit c \<longleftrightarrow> 48 \<le> c \<and> c \<le> 57"

text \<open>The pattern of a number: \<open>(-?(?:0|[1-9]\d*))(\.\d+)?([eE][-+]?\d+)?\<close>\<close>

definition scan_int :: "pystr \<Rightarrow> (pystr \<times> pystr) option" where
  "scan_int s =
     (let sign = (if starts 45 s then [45] else []); r = drop (length sign) s
      in if starts 48 r then Some (sign @ [48], tl r)
         else case takeWhile is_digit r of
                [] \<Rightarrow> None
              | ds \<Rightarrow> Some (sign @ ds, dropWhile is_digit r))"

definition scan_frac :: "pystr \<Rightarrow> pystr \<times> pystr" where
  "scan_frac r = (if starts 46 r \<and> takeWhile is_digit (tl r) \<noteq> []
     then (46 # takeWhile is_digit (tl r), dropWhile is_digit (tl r)) else ([], r))"

definition scan_exp :: "pystr \<Rightarrow> pystr \<times> pystr" where
  "scan_exp r =
     (if starts 101 r \<or> starts 69 r then
        let k = (if starts 43 (tl r) \<or> starts 45 (tl r) then 2 else 1)
        in if takeWhile is_digit (drop k r) = [] then ([], r)
           else (take k r @ takeWhile is_digit (drop k r), dropWhile is_digit (drop k r))
      else ([], r))"

text \<open>None: there is no number here.\<close>

definition pnumber :: "(pystr \<Rightarrow> pyfloat) \<Rightarrow> pystr \<Rightarrow> (exn + json \<times> pystr) option" where
  "pnumber fo s =
     (case scan_int s of
        None \<Rightarrow> None
      | Some (i, r) \<Rightarrow>
          (case scan_frac r of (f, r1) \<Rightarrow>
           case scan_exp r1 of (x, r2) \<Rightarrow>
             if f = [] \<and> x = [] then
               Some (if 4300 < length (if starts 45 i then tl i else i) then Inl int_too_long
                 else case parse_int i of None \<Rightarrow> Inl JSONDecodeError | Some n \<Rightarrow> Inr (JInt n, r2))
             else Some (Inr (JFloat (fo (i @ f @ x)), r2))))"

definition take_word :: "pystr \<Rightarrow> json \<Rightarrow> pystr \<Rightarrow> (json \<times> pystr) option" where
  "take_word t v s = (if take (length t) s = t then Some (v, drop (length t) s) else None)"

definition pscalar :: "(pystr \<Rightarrow> pyfloat) \<Rightarrow> pystr \<Rightarrow> exn + json \<times> pystr" where
  "pscalar fo s =
     (case take_word (lit ''null'') JNull s of Some p \<Rightarrow> Inr p | None \<Rightarrow>
     (case take_word (lit ''true'') (JBool True) s of Some p \<Rightarrow> Inr p | None \<Rightarrow>
     (case take_word (lit ''false'') (JBool False) s of Some p \<Rightarrow> Inr p | None \<Rightarrow>
     (case pnumber fo s of Some p \<Rightarrow> p | None \<Rightarrow>
     (case take_word (lit ''NaN'') (JFloat NaN) s of Some p \<Rightarrow> Inr p | None \<Rightarrow>
     (case take_word (lit ''Infinity'') (JFloat PosInf) s of Some p \<Rightarrow> Inr p | None \<Rightarrow>
     (case take_word (lit ''-Infinity'') (JFloat NegInf) s of Some p \<Rightarrow> Inr p | None \<Rightarrow> Inl JSONDecodeError)))))))"

definition cons_ok :: "'a \<Rightarrow> exn + 'a list \<times> 'b \<Rightarrow> exn + 'a list \<times> 'b" where
  "cons_ok x p = map_sum id (\<lambda>(xs, r). (x # xs, r)) p"

text \<open>The first number bounds the recursion over the text, the second is the number of levels left.\<close>

fun pval :: "(pystr \<Rightarrow> pyfloat) \<Rightarrow> nat \<Rightarrow> nat \<Rightarrow> pystr \<Rightarrow> exn + json \<times> pystr"
  and pelems :: "(pystr \<Rightarrow> pyfloat) \<Rightarrow> nat \<Rightarrow> nat \<Rightarrow> pystr \<Rightarrow> exn + json list \<times> pystr"
  and pmembers :: "(pystr \<Rightarrow> pyfloat) \<Rightarrow> nat \<Rightarrow> nat \<Rightarrow> pystr \<Rightarrow> exn + dict \<times> pystr" where
  "pval fo 0 k s = Inl JSONDecodeError"
| "pval fo (Suc n) k s =
     (if starts 34 s then
        (case pstring (tl s) of None \<Rightarrow> Inl JSONDecodeError | Some (t, r) \<Rightarrow> Inr (JStr t, r))
      else if starts 123 s then
        (case k of 0 \<Rightarrow> Inl RecursionError
         | Suc k \<Rightarrow>
             (let r = skip_ws (tl s)
              in if starts 125 r then Inr (JObj [], tl r)
                 else map_sum id (\<lambda>(ps, r). (JObj (dict_of ps), r)) (pmembers fo n k r)))
      else if starts 91 s then
        (case k of 0 \<Rightarrow> Inl RecursionError
         | Suc k \<Rightarrow>
             (let r = skip_ws (tl s)
              in if starts 93 r then Inr (JArr [], tl r)
                 else map_sum id (\<lambda>(vs, r). (JArr vs, r)) (pelems fo n k r)))
      else pscalar fo s)"
| "pelems fo 0 k s = Inl JSONDecodeError"
| "pelems fo (Suc n) k s =
     (case pval fo n k s of Inl e \<Rightarrow> Inl e
      | Inr (v, r) \<Rightarrow>
          (let r = skip_ws r
           in if starts 44 r then cons_ok v (pelems fo n k (skip_ws (tl r)))
              else if starts 93 r then Inr ([v], tl r) else Inl JSONDecodeError))"
| "pmembers fo 0 k s = Inl JSONDecodeError"
| "pmembers fo (Suc n) k s =
     (if starts 34 s then
        (case pstring (tl s) of None \<Rightarrow> Inl JSONDecodeError
         | Some (key, r) \<Rightarrow>
             (let r = skip_ws r
              in if starts 58 r then
                   (case pval fo n k (skip_ws (tl r)) of Inl e \<Rightarrow> Inl e
                    | Inr (v, r) \<Rightarrow>
                        (let r = skip_ws r
                         in if starts 44 r then cons_ok (key, v) (pmembers fo n k (skip_ws (tl r)))
                            else if starts 125 r then Inr ([(key, v)], tl r) else Inl JSONDecodeError))
                 else Inl JSONDecodeError))
      else Inl JSONDecodeError)"

text \<open>A value takes no more steps than its text is long.\<close>

definition loads :: "(pystr \<Rightarrow> pyfloat) \<Rightarrow> nat \<Rightarrow> pystr \<Rightarrow> exn + json" where
  "loads fo k s =
     (case pval fo (length s + 2) k (skip_ws s) of
        Inr (v, r) \<Rightarrow> if skip_ws r = [] then Inr v else Inl JSONDecodeError
      | Inl e \<Rightarrow> Inl e)"

section \<open>Strings read back\<close>

lemma hexv_hexd: "n < 16 \<Longrightarrow> hexv (hexd n) = Some n"
  by (auto simp: hexv_def hexd_def)

lemma hex_digits:
  "((n div 4096 * 16 + n div 256 mod 16) * 16 + n div 16 mod 16) * 16 + n mod 16 = (n :: nat)"
proof -
  have "n div 16 div 16 = n div 256" "n div 256 div 16 = n div 4096"
    by (simp_all add: div_mult2_eq [symmetric])
  then show ?thesis by (metis div_mult_mod_eq)
qed

lemma u_escape_head: "u_escape n @ r = 92 # 117 # drop 2 (u_escape n) @ r"
  "u_escape n = 92 # 117 # drop 2 (u_escape n)"
  by (simp_all add: u_escape_def)

lemma hex4_u_escape: "n < 65536 \<Longrightarrow> hex4 (drop 2 (u_escape n) @ r) = Some (n, r)"
  using hex_digits [of n] by (simp add: u_escape_def hexv_hexd algebra_simps)

text \<open>A code point reads back, unless what follows makes a surrogate pair with it.\<close>

lemma pstring_esc:
  assumes "c < 0x110000" "low_half c t = None"
  shows "pstring (esc_cp c @ t) = cons_fst c (pstring t)"
proof (cases "short_escape c")
  case (Some e)
  then have "unescape e = Some c" "e \<noteq> 117"
    by (auto simp: short_escape_def unescape_def split: if_splits)
  with Some show ?thesis by (simp add: esc_cp_def pstring.simps [of "92 # e # t"])
next
  case None
  then have c: "c \<noteq> 34" "c \<noteq> 92" by (auto simp: short_escape_def)
  consider (ascii) "32 \<le> c" "c \<le> 126" | (bmp) "\<not> (32 \<le> c \<and> c \<le> 126)" "c < 0x10000"
    | (astral) "0x10000 \<le> c" by linarith
  then show ?thesis
  proof cases
    case ascii
    with None c show ?thesis by (simp add: esc_cp_def pstring.simps [of "c # t"])
  next
    case bmp
    then have "esc_cp c = u_escape c" using None by (auto simp: esc_cp_def)
    then have "esc_cp c @ t = 92 # 117 # drop 2 (u_escape c) @ t"
      using u_escape_head(1) [of c t] by metis
    with bmp hex4_u_escape [of c t] assms(2) show ?thesis
      by (simp add: pstring.simps [of "92 # 117 # drop 2 (u_escape c) @ t"])
  next
    case astral
    let ?n = "c - 0x10000"
    let ?u = "0xD800 + ?n div 1024" and ?v = "0xDC00 + ?n mod 1024"
    have n: "?n div 1024 < 1024" using assms(1) by simp
    have esc: "esc_cp c @ t = 92 # 117 # drop 2 (u_escape ?u) @ u_escape ?v @ t"
      using None astral u_escape_head(1) [of ?u "u_escape ?v @ t"] by (simp add: esc_cp_def Let_def)
    have hi: "hex4 (drop 2 (u_escape ?u) @ u_escape ?v @ t) = Some (?u, u_escape ?v @ t)"
      by (rule hex4_u_escape) (use n in simp)
    have lo: "hex4 (drop 2 (u_escape ?v) @ t) = Some (?v, t)"
      by (rule hex4_u_escape) (simp add: less_imp_le_nat)
    have "0x10000 + (?u - 0xD800) * 1024 + (?v - 0xDC00) = c"
      using astral by (simp add: add.assoc)
    then have "low_half ?u (u_escape ?v @ t) = Some (c, t)"
      using n lo unfolding low_half_def u_escape_head(1) [of ?v t] by (simp add: starts_def)
    with hi show ?thesis
      unfolding esc by (simp add: pstring.simps [of "92 # 117 # drop 2 (u_escape ?u) @ u_escape ?v @ t"])
  qed
qed

text \<open>Two lone surrogates, a high one before a low one, would come back as one character; a valid text
  does not have them.\<close>

fun no_pair :: "pystr \<Rightarrow> bool" where
  "no_pair (c # d # s) \<longleftrightarrow> \<not> (0xD800 \<le> c \<and> c \<le> 0xDBFF \<and> 0xDC00 \<le> d \<and> d \<le> 0xDFFF) \<and> no_pair (d # s)"
| "no_pair _ \<longleftrightarrow> True"

definition valid_text :: "pystr \<Rightarrow> bool" where
  "valid_text s \<longleftrightarrow> list_all (\<lambda>c. c < 0x110000) s \<and> no_pair s"

lemma valid_text_tl: "valid_text (c # s) \<Longrightarrow> c < 0x110000 \<and> valid_text s"
  by (cases s) (auto simp: valid_text_def)

lemma low_half_other:
  assumes "valid_text (c # s)"
  shows "low_half c (concat (map esc_cp s) @ 34 # r) = None"
proof (cases s)
  case Nil
  then show ?thesis by (simp add: low_half_def starts_def)
next
  case (Cons d s')
  let ?rest = "concat (map esc_cp s') @ 34 # r"
  have whole: "concat (map esc_cp s) @ 34 # r = esc_cp d @ ?rest" by (simp add: Cons)
  have d: "d < 0x110000" "\<not> (0xD800 \<le> c \<and> c \<le> 0xDBFF \<and> 0xDC00 \<le> d \<and> d \<le> 0xDFFF)"
    using assms by (auto simp: valid_text_def Cons)
  show ?thesis
  proof (cases "short_escape d")
    case (Some e)
    then have "e \<noteq> 117" by (auto simp: short_escape_def split: if_splits)
    with Some show ?thesis unfolding whole by (simp add: esc_cp_def low_half_def starts_def)
  next
    case None
    then have "d \<noteq> 92" by (auto simp: short_escape_def)
    consider "32 \<le> d" "d \<le> 126" | "\<not> (32 \<le> d \<and> d \<le> 126)" "d < 0x10000" | "0x10000 \<le> d" by linarith
    then show ?thesis
    proof cases
      case 1
      with None \<open>d \<noteq> 92\<close> show ?thesis unfolding whole by (simp add: esc_cp_def low_half_def starts_def)
    next
      case 2
      then have "esc_cp d = u_escape d" using None by (auto simp: esc_cp_def)
      then have "esc_cp d @ ?rest = 92 # 117 # drop 2 (u_escape d) @ ?rest"
        using u_escape_head(1) [of d ?rest] by metis
      with 2 d hex4_u_escape [of d ?rest] show ?thesis unfolding whole by (auto simp: low_half_def)
    next
      case 3
      let ?u = "0xD800 + (d - 0x10000) div 1024" and ?v = "0xDC00 + (d - 0x10000) mod 1024"
      have u: "?u < 0xDC00" using d(1) by simp
      have esc: "esc_cp d @ ?rest = 92 # 117 # drop 2 (u_escape ?u) @ u_escape ?v @ ?rest"
        using None 3 u_escape_head(1) [of ?u "u_escape ?v @ ?rest"] by (simp add: esc_cp_def Let_def)
      have "hex4 (drop 2 (u_escape ?u) @ u_escape ?v @ ?rest) = Some (?u, u_escape ?v @ ?rest)"
        by (rule hex4_u_escape) (use u in simp)
      with u show ?thesis unfolding whole esc by (auto simp: low_half_def)
    qed
  qed
qed

lemma pstring_escaped: "valid_text s \<Longrightarrow> pstring (concat (map esc_cp s) @ 34 # r) = Some (s, r)"
proof (induction s)
  case Nil
  then show ?case by (simp add: pstring.simps)
next
  case (Cons c s)
  from valid_text_tl [OF Cons.prems] Cons.IH
  have "pstring (concat (map esc_cp s) @ 34 # r) = Some (s, r)" "c < 0x110000" by simp_all
  with pstring_esc [OF _ low_half_other [OF Cons.prems], of r] show ?case by (simp add: cons_fst_def)
qed

lemma pstring_dumps: "valid_text s \<Longrightarrow> pstring (tl (dumps_str s @ r)) = Some (s, r)"
  using pstring_escaped [of s r] by (simp add: dumps_str_def)

section \<open>Numbers and words read back\<close>

text \<open>What follows a value inside the text of another one.\<close>

definition delim :: "pystr \<Rightarrow> bool" where
  "delim r \<longleftrightarrow> (case r of [] \<Rightarrow> True | c # _ \<Rightarrow> c = 44 \<or> c = 93 \<or> c = 125)"

lemma delim_cases: "delim r \<Longrightarrow> r = [] \<or> (\<exists>c t. r = c # t \<and> (c = 44 \<or> c = 93 \<or> c = 125))"
  by (cases r) (auto simp: delim_def)

text \<open>No digit comes next.\<close>

definition stops :: "pystr \<Rightarrow> bool" where
  "stops r \<longleftrightarrow> (case r of [] \<Rightarrow> True | c # _ \<Rightarrow> \<not> is_digit c)"

lemma stops_cases: "stops r \<Longrightarrow> r = [] \<or> (\<exists>c t. r = c # t \<and> \<not> is_digit c)"
  by (cases r) (auto simp: stops_def)

lemma delim_stops: "delim r \<Longrightarrow> stops r"
  by (auto simp: stops_def is_digit_def dest!: delim_cases)

lemma nat_str_head: "hd (nat_str n) = 48 \<longleftrightarrow> n = 0"
proof (induction n rule: nat_str.induct)
  case (1 n)
  show ?case
  proof (cases "n < 10")
    case False
    then have "hd (nat_str n) = hd (nat_str (n div 10))" by (subst nat_str.simps) simp
    with False 1 show ?thesis by simp
  qed (simp add: nat_str.simps)
qed

lemma take_digits:
  "list_all is_digit ds \<Longrightarrow> stops r \<Longrightarrow> takeWhile is_digit (ds @ r) = ds \<and> dropWhile is_digit (ds @ r) = r"
  by (induction ds) (auto dest!: stops_cases)

lemma nat_str_all: "list_all is_digit (nat_str n)"
  using nat_str_digits [of n] by (auto simp: list_all_iff is_digit_def)

lemma scan_nat:
  assumes "stops r" shows "scan_int (nat_str n @ r) = Some (nat_str n, r)"
    "scan_int (45 # nat_str n @ r) = Some (45 # nat_str n, r)"
proof -
  obtain c cs where cs: "nat_str n = c # cs" by (cases "nat_str n") auto
  have zero: "c = 48 \<longleftrightarrow> n = 0" using nat_str_head [of n] cs by simp
  have "is_digit c" using nat_str_all [of n] cs by simp
  have zero_str: "n = 0 \<Longrightarrow> cs = []" using cs by (simp add: nat_str.simps)
  note td = take_digits [OF nat_str_all assms, of n, unfolded cs]
  show "scan_int (nat_str n @ r) = Some (nat_str n, r)"
    using zero zero_str td \<open>is_digit c\<close> cs by (auto simp: scan_int_def starts_def is_digit_def Let_def)
  show "scan_int (45 # nat_str n @ r) = Some (45 # nat_str n, r)"
    using zero zero_str td \<open>is_digit c\<close> cs by (auto simp: scan_int_def starts_def is_digit_def Let_def)
qed

lemma scan_none: "delim r \<Longrightarrow> scan_frac r = ([], r) \<and> scan_exp r = ([], r)"
  by (auto simp: scan_frac_def scan_exp_def starts_def dest!: delim_cases)

lemma int_str_digits: "(if starts 45 (int_str i) then tl (int_str i) else int_str i) = nat_str (nat \<bar>i\<bar>)"
proof -
  have "\<not> starts 45 (nat_str n)" for n
    using nat_str_all [of n] by (cases "nat_str n") (auto simp: starts_def is_digit_def)
  then show ?thesis by (simp add: int_str_def starts_def [of _ "45 # _"])
qed

lemma pnumber_int:
  assumes "delim r"
  shows "pnumber fo (int_str i @ r) = Some (if int_fits i then Inr (JInt i, r) else Inl int_too_long)"
proof -
  have "scan_int (int_str i @ r) = Some (int_str i, r)"
    using scan_nat [OF delim_stops [OF assms]] by (simp add: int_str_def)
  then show ?thesis
    using scan_none [OF assms] by (simp add: pnumber_def int_str_digits parse_int_str int_fits_def not_less)
qed

lemma pnumber_head:
  assumes "pnumber fo s = Some p" shows "\<exists>c t. s = c # t \<and> (c = 45 \<or> is_digit c)"
proof (cases s)
  case Nil
  with assms show ?thesis by (simp add: pnumber_def scan_int_def starts_def)
next
  case (Cons c t)
  with assms show ?thesis
    by (auto simp: pnumber_def scan_int_def starts_def is_digit_def Let_def split: if_splits)
qed

lemma take_word_head: "s = c # t \<Longrightarrow> d \<noteq> c \<Longrightarrow> take_word (d # u) v s = None"
  by (simp add: take_word_def)

lemma pscalar_number:
  assumes "pnumber fo s = Some p" shows "pscalar fo s = p"
proof -
  from pnumber_head [OF assms] obtain c t where "s = c # t" "c = 45 \<or> is_digit c" by blast
  then have "take_word (lit ''null'') v s = None" "take_word (lit ''true'') v' s = None"
    "take_word (lit ''false'') v'' s = None" for v v' v''
    by (auto simp: lit_def take_word_def is_digit_def)
  with assms show ?thesis by (simp add: pscalar_def)
qed

lemma pscalar_words:
  "pscalar fo (lit ''null'' @ r) = Inr (JNull, r)"
  "pscalar fo (lit ''true'' @ r) = Inr (JBool True, r)"
  "pscalar fo (lit ''false'' @ r) = Inr (JBool False, r)"
  "pscalar fo (lit ''NaN'' @ r) = Inr (JFloat NaN, r)"
  "pscalar fo (lit ''Infinity'' @ r) = Inr (JFloat PosInf, r)"
  "pscalar fo (lit ''-Infinity'' @ r) = Inr (JFloat NegInf, r)"
  by (simp_all add: pscalar_def take_word_def lit_def pnumber_def scan_int_def starts_def is_digit_def Let_def)

section \<open>Values read back\<close>

text \<open>The reading of the text of a finite double gives the double.\<close>

locale float_codec =
  fixes fl :: "pyfloat \<Rightarrow> pystr" and fo :: "pystr \<Rightarrow> pyfloat"
  assumes float_back: "delim r \<Longrightarrow> double f \<Longrightarrow> finite_float f \<Longrightarrow>
      pnumber fo (fl f @ r) = Some (Inr (JFloat f, r))"
    and float_ascii: "double f \<Longrightarrow> finite_float f \<Longrightarrow> list_all (\<lambda>c. c < 128) (fl f)"

fun wf_json :: "json \<Rightarrow> bool" and wf_list :: "json list \<Rightarrow> bool" and wf_members :: "dict \<Rightarrow> bool" where
  "wf_json (JFloat f) = double f"
| "wf_json (JStr s) = valid_text s"
| "wf_json (JArr vs) = wf_list vs"
| "wf_json (JObj ms) = (distinct (map fst ms) \<and> wf_members ms)"
| "wf_json _ = True"
| "wf_list [] = True"
| "wf_list (v # vs) = (wf_json v \<and> wf_list vs)"
| "wf_members [] = True"
| "wf_members ((k, v) # ms) = (valid_text k \<and> wf_json v \<and> wf_members ms)"

lemma wf_iff: "wf_list vs \<longleftrightarrow> (\<forall>v \<in> set vs. wf_json v)"
    "wf_members ms \<longleftrightarrow> (\<forall>(k, v) \<in> set ms. valid_text k \<and> wf_json v)"
  by (induction vs, simp_all) (induction ms, auto)

fun depth :: "json \<Rightarrow> nat" and depth_list :: "json list \<Rightarrow> nat" and depth_members :: "dict \<Rightarrow> nat" where
  "depth (JArr vs) = Suc (depth_list vs)"
| "depth (JObj ms) = Suc (depth_members ms)"
| "depth _ = 1"
| "depth_list [] = 0"
| "depth_list (v # vs) = Suc (max (depth v) (depth_list vs))"
| "depth_members [] = 0"
| "depth_members ((k, v) # ms) = Suc (max (depth v) (depth_members ms))"

lemma depth_pos: "0 < depth v"
  by (cases v) simp_all

lemma skip_ws_head: "\<not> json_space c \<Longrightarrow> skip_ws (c # s) = c # s"
  by (simp add: skip_ws_def)

lemma skip_ws_delim: "delim r \<Longrightarrow> skip_ws r = r"
  by (auto simp: skip_ws_def json_space_def dest!: delim_cases)

text \<open>The first character of the text of a value is no space and closes nothing.\<close>

definition opens :: "pystr \<Rightarrow> bool" where
  "opens s \<longleftrightarrow> (case s of [] \<Rightarrow> False | c # _ \<Rightarrow> \<not> json_space c \<and> c \<noteq> 93 \<and> c \<noteq> 125)"

lemma opens_skip: "opens s \<Longrightarrow> skip_ws (s @ r) = s @ r \<and> \<not> starts 93 (s @ r) \<and> \<not> starts 125 (s @ r)"
  by (cases s) (auto simp: opens_def skip_ws_def starts_def)

lemma opens_append: "opens s \<Longrightarrow> opens (s @ r)"
  by (cases s) (auto simp: opens_def)

context float_codec
begin

lemma number_opens: "pnumber fo s = Some p \<Longrightarrow> opens s"
  by (auto simp: opens_def json_space_def is_digit_def dest!: pnumber_head)

lemma dumps_opens: assumes "wf_json v" shows "opens (dumps fl v)"
proof (cases v)
  case (JInt i)
  with number_opens [OF pnumber_int [of "[]" fo i]] show ?thesis by (simp add: delim_def)
next
  case (JFloat f)
  show ?thesis
  proof (cases "finite_float f")
    case True
    with float_back [of "[]" f] assms JFloat have "opens (fl f)"
      by (intro number_opens) (simp add: delim_def)
    with True JFloat show ?thesis by (cases f) (simp_all add: dumps_float_def)
  next
    case False
    with JFloat show ?thesis
      by (cases f) (simp_all add: dumps_float_def opens_def lit_def json_space_def)
  qed
qed (auto simp: opens_def lit_def json_space_def dumps_str_def)

lemma dumps_list_opens: "wf_list vs \<Longrightarrow> vs \<noteq> [] \<Longrightarrow> opens (dumps_list fl vs)"
  by (cases vs rule: list.exhaust, simp, rename_tac v ws, case_tac ws)
     (simp_all add: dumps_opens opens_append)

lemma scalar_back:
  assumes "pscalar fo (s @ r) = Inr (v, r)" "\<not> starts 34 (s @ r)" "\<not> starts 123 (s @ r)" "\<not> starts 91 (s @ r)"
    and "0 < n"
  shows "pval fo n k (s @ r) = Inr (v, r)"
  using assms by (cases n) simp_all

lemma number_back:
  assumes "pnumber fo (s @ r) = Some (Inr (v, r))" "0 < n" shows "pval fo n k (s @ r) = Inr (v, r)"
  using pnumber_head [OF assms(1)]
  by (intro scalar_back trans [OF pscalar_number [OF assms(1)]] assms(2))
     (auto simp: starts_def is_digit_def)

lemma word_back:
  assumes "0 < n" shows
    "pval fo n k (lit ''null'' @ r) = Inr (JNull, r)" "pval fo n k (lit ''true'' @ r) = Inr (JBool True, r)"
    "pval fo n k (lit ''false'' @ r) = Inr (JBool False, r)" "pval fo n k (lit ''NaN'' @ r) = Inr (JFloat NaN, r)"
    "pval fo n k (lit ''Infinity'' @ r) = Inr (JFloat PosInf, r)"
    "pval fo n k (lit ''-Infinity'' @ r) = Inr (JFloat NegInf, r)"
  by ((rule scalar_back [OF _ _ _ _ assms], rule pscalar_words; simp add: starts_def lit_def))+

lemma str_back: "valid_text s \<Longrightarrow> 0 < n \<Longrightarrow> pval fo n k (dumps_str s @ r) = Inr (JStr s, r)"
  using pstring_dumps [of s r] by (cases n) (simp_all add: dumps_str_def starts_def)

lemma arr_back:
  assumes "opens (dumps_list fl vs)" "pelems fo n k (dumps_list fl vs @ 93 # r) = Inr (vs, r)"
  shows "pval fo (Suc n) (Suc k) (dumps fl (JArr vs) @ r) = Inr (JArr vs, r)"
  using opens_skip [OF assms(1), of "93 # r"] assms(2) by (simp add: starts_def [of _ "91 # _"] Let_def)

lemma members_open: "ms \<noteq> [] \<Longrightarrow> opens (dumps_members fl ms)"
  by (cases "(fl, ms)" rule: dumps_members.cases) (auto simp: opens_def dumps_str_def json_space_def)

lemma obj_back:
  assumes "opens (dumps_members fl ms)" "pmembers fo n k (dumps_members fl ms @ 125 # r) = Inr (ms, r)"
    and "distinct (map fst ms)"
  shows "pval fo (Suc n) (Suc k) (dumps fl (JObj ms) @ r) = Inr (JObj ms, r)"
  using opens_skip [OF assms(1), of "125 # r"] assms(2) dict_of_distinct [OF assms(3)]
  by (simp add: starts_def [of _ "123 # _"] Let_def)

text \<open>One element or member, and what comes after it.\<close>

lemma elem_last:
  assumes "pval fo n k (s @ 93 # r) = Inr (v, 93 # r)" shows "pelems fo (Suc n) k (s @ 93 # r) = Inr ([v], r)"
  using assms by (simp add: skip_ws_def json_space_def starts_def)

lemma elem_next:
  assumes "pval fo n k (s @ 44 # 32 # u @ 93 # r) = Inr (v, 44 # 32 # u @ 93 # r)"
    and "opens u" "pelems fo n k (u @ 93 # r) = Inr (vs, r)"
  shows "pelems fo (Suc n) k (s @ [44, 32] @ u @ 93 # r) = Inr (v # vs, r)"
  using assms opens_skip [OF assms(2), of "93 # r"]
  by (simp add: skip_ws_def json_space_def starts_def cons_ok_def)

lemma member_key:
  assumes "valid_text key" "opens s"
  shows "pmembers fo (Suc n) k (dumps_str key @ [58, 32] @ s @ r) =
    (case pval fo n k (s @ r) of Inl e \<Rightarrow> Inl e
     | Inr (v, r') \<Rightarrow>
         (let r' = skip_ws r'
          in if starts 44 r' then cons_ok (key, v) (pmembers fo n k (skip_ws (tl r')))
             else if starts 125 r' then Inr ([(key, v)], tl r') else Inl JSONDecodeError))"
proof -
  have "starts 34 (dumps_str key @ [58, 32] @ s @ r)" by (simp add: dumps_str_def starts_def)
  moreover have "skip_ws (58 # 32 # s @ r) = 58 # 32 # s @ r" "skip_ws (32 # s @ r) = s @ r"
    using opens_skip [OF assms(2), of r] by (simp_all add: skip_ws_def json_space_def)
  ultimately show ?thesis
    using pstring_dumps [OF assms(1), of "[58, 32] @ s @ r"]
    by (simp add: starts_def [of 58])
qed

lemma member_last:
  assumes "valid_text key" "opens s" "pval fo n k (s @ 125 # r) = Inr (v, 125 # r)"
  shows "pmembers fo (Suc n) k (dumps_str key @ [58, 32] @ s @ 125 # r) = Inr ([(key, v)], r)"
  unfolding member_key [OF assms(1,2)] using assms(3) by (simp add: skip_ws_def json_space_def starts_def)

lemma member_next:
  assumes "valid_text key" "opens s"
    and "pval fo n k (s @ [44, 32] @ u @ 125 # r) = Inr (v, [44, 32] @ u @ 125 # r)"
    and "opens u" "pmembers fo n k (u @ 125 # r) = Inr (ms, r)"
  shows "pmembers fo (Suc n) k (dumps_str key @ [58, 32] @ s @ [44, 32] @ u @ 125 # r) = Inr ((key, v) # ms, r)"
  unfolding member_key [OF assms(1,2)] using assms(3,5) opens_skip [OF assms(4), of "125 # r"]
  by (simp add: skip_ws_def json_space_def starts_def cons_ok_def)

definition reads_back :: "json \<Rightarrow> bool" where
  "reads_back v \<longleftrightarrow> (\<forall>n k r. wf_json v \<longrightarrow> depth v \<le> n \<longrightarrow> dump_error k v = None \<longrightarrow> delim r \<longrightarrow>
     pval fo n k (dumps fl v @ r) = Inr (v, r))"

lemma reads_backD:
  "reads_back v \<Longrightarrow> wf_json v \<Longrightarrow> depth v \<le> n \<Longrightarrow> dump_error k v = None \<Longrightarrow> delim r \<Longrightarrow>
   pval fo n k (dumps fl v @ r) = Inr (v, r)"
  by (simp add: reads_back_def)

lemma elems_back:
  assumes "\<forall>v \<in> set vs. reads_back v" "wf_list vs" "vs \<noteq> []" "depth_list vs \<le> n" "dump_errors k vs = None"
  shows "pelems fo n k (dumps_list fl vs @ 93 # r) = Inr (vs, r)"
  using assms
proof (induction vs arbitrary: n)
  case (Cons v vs)
  then obtain j where j: "n = Suc j" "depth v \<le> j" "depth_list vs \<le> j" by (cases n) auto
  have v: "reads_back v" "wf_json v" "dump_error k v = None" and vs_ok: "wf_list vs" "dump_errors k vs = None"
    using Cons.prems by (simp_all split: option.splits)
  show ?case
  proof (cases vs)
    case Nil
    have "pval fo j k (dumps fl v @ 93 # r) = Inr (v, 93 # r)"
      by (rule reads_backD [OF v(1,2) j(2) v(3)]) (simp add: delim_def)
    with elem_last show ?thesis by (simp add: Nil j(1))
  next
    case (Cons w ws)
    then have "vs \<noteq> []" by simp
    with Cons.IH [of j] j(3) vs_ok \<open>\<forall>x \<in> set (v # vs). reads_back x\<close>
    have rest: "pelems fo j k (dumps_list fl vs @ 93 # r) = Inr (vs, r)" by simp
    have "pval fo j k (dumps fl v @ 44 # 32 # dumps_list fl vs @ 93 # r) =
        Inr (v, 44 # 32 # dumps_list fl vs @ 93 # r)"
      by (rule reads_backD [OF v(1,2) j(2) v(3)]) (simp add: delim_def)
    from elem_next [OF this dumps_list_opens [OF vs_ok(1) \<open>vs \<noteq> []\<close>] rest] show ?thesis
      by (simp add: Cons j(1) del: pelems.simps)
  qed
qed simp

lemma members_back:
  assumes "\<forall>p \<in> set ms. reads_back (snd p)" "wf_members ms" "ms \<noteq> []" "depth_members ms \<le> n"
    and "member_errors k ms = None"
  shows "pmembers fo n k (dumps_members fl ms @ 125 # r) = Inr (ms, r)"
  using assms
proof (induction ms arbitrary: n)
  case (Cons m ms)
  obtain key v where m: "m = (key, v)" by (cases m)
  with Cons.prems obtain j where j: "n = Suc j" "depth v \<le> j" "depth_members ms \<le> j" by (cases n) auto
  have v: "reads_back v" "wf_json v" "dump_error k v = None" and key: "valid_text key"
    and ms_ok: "wf_members ms" "member_errors k ms = None"
    using Cons.prems m by (simp_all split: option.splits)
  note opens = dumps_opens [OF v(2)]
  show ?case
  proof (cases ms)
    case Nil
    have "pval fo j k (dumps fl v @ 125 # r) = Inr (v, 125 # r)"
      by (rule reads_backD [OF v(1,2) j(2) v(3)]) (simp add: delim_def)
    from member_last [OF key opens this] show ?thesis by (simp add: Nil j(1) m del: pmembers.simps)
  next
    case (Cons m' ms')
    then have "ms \<noteq> []" by simp
    with Cons.IH [of j] j(3) ms_ok \<open>\<forall>p \<in> set (m # ms). reads_back (snd p)\<close>
    have rest: "pmembers fo j k (dumps_members fl ms @ 125 # r) = Inr (ms, r)" by simp
    have "pval fo j k (dumps fl v @ [44, 32] @ dumps_members fl ms @ 125 # r) =
        Inr (v, [44, 32] @ dumps_members fl ms @ 125 # r)"
      by (rule reads_backD [OF v(1,2) j(2) v(3)]) (simp add: delim_def)
    from member_next [OF key opens this members_open [OF \<open>ms \<noteq> []\<close>] rest] show ?thesis
      by (simp add: Cons j(1) m del: pmembers.simps)
  qed
qed simp

lemma all_read_back: "reads_back v"
proof (induction v)
  case JNull
  then show ?case by (simp add: reads_back_def word_back)
next
  case (JBool b)
  then show ?case by (simp add: reads_back_def word_back)
next
  case (JInt i)
  then show ?case by (simp add: reads_back_def number_back pnumber_int)
next
  case (JFloat f)
  then show ?case
    by (cases f) (simp_all add: reads_back_def dumps_float_def word_back number_back float_back del: double.simps)
next
  case (JStr s)
  then show ?case by (simp add: reads_back_def str_back)
next
  case (JArr vs)
  have "pval fo n k (dumps fl (JArr vs) @ r) = Inr (JArr vs, r)"
    if vs: "wf_list vs" "Suc (depth_list vs) \<le> n" "dump_error k (JArr vs) = None" for n k r
  proof -
    obtain j where j: "n = Suc j" "depth_list vs \<le> j" using vs(2) by (cases n) auto
    obtain l where l: "k = Suc l" "dump_errors l vs = None" using vs(3) by (cases k) auto
    show ?thesis
    proof (cases "vs = []")
      case True
      with j l show ?thesis by (simp add: starts_def skip_ws_def json_space_def)
    next
      case False
      with arr_back [OF dumps_list_opens [OF vs(1) False] elems_back [OF _ vs(1) False j(2) l(2)]] JArr j(1) l(1)
      show ?thesis by simp
    qed
  qed
  then show ?case by (simp add: reads_back_def del: dump_error.simps)
next
  case (JObj ms)
  have ms: "\<forall>p \<in> set ms. reads_back (snd p)" using JObj by (auto simp: snds.simps)
  have "pval fo n k (dumps fl (JObj ms) @ r) = Inr (JObj ms, r)"
    if wf: "wf_members ms" "Suc (depth_members ms) \<le> n" "distinct (map fst ms)" "dump_error k (JObj ms) = None" for n k r
  proof -
    obtain j where j: "n = Suc j" "depth_members ms \<le> j" using wf(2) by (cases n) auto
    obtain l where l: "k = Suc l" "member_errors l ms = None" using wf(4) by (cases k) auto
    show ?thesis
    proof (cases "ms = []")
      case True
      with j l show ?thesis by (simp add: starts_def skip_ws_def json_space_def)
    next
      case False
      from obj_back [OF members_open [OF False] members_back [OF ms wf(1) False j(2) l(2)] wf(3)] j(1) l(1)
      show ?thesis by simp
    qed
  qed
  then show ?case by (simp add: reads_back_def del: dump_error.simps)
qed

lemma opens_length: "opens s \<Longrightarrow> 1 \<le> length s"
  by (cases s) (auto simp: opens_def)

text \<open>A value is not deeper than its text is long.\<close>

definition fits :: "json \<Rightarrow> bool" where
  "fits v \<longleftrightarrow> depth v \<le> length (dumps fl v)"

lemma fits_list: "\<forall>v \<in> set vs. fits v \<Longrightarrow> depth_list vs \<le> length (dumps_list fl vs) + 1"
proof (induction vs)
  case (Cons v vs)
  then show ?case by (cases vs) (auto simp: fits_def)
qed simp

lemma fits_members: "\<forall>p \<in> set ms. fits (snd p) \<Longrightarrow> depth_members ms \<le> length (dumps_members fl ms) + 1"
proof (induction ms)
  case (Cons m ms)
  obtain k v where "m = (k, v)" by (cases m)
  with Cons show ?case by (cases ms) (auto simp: fits_def)
qed simp

lemma fits_scalar: "wf_json v \<Longrightarrow> depth v = 1 \<Longrightarrow> fits v"
  using opens_length [OF dumps_opens, of v] by (simp add: fits_def)

lemma all_fit: "wf_json v \<Longrightarrow> fits v"
proof (induction v)
  case (JArr vs)
  with fits_list [of vs] show ?case by (simp add: fits_def wf_iff)
next
  case (JObj ms)
  then have "\<forall>p \<in> set ms. fits (snd p)" by (fastforce simp: snds.simps wf_iff)
  with fits_members [of ms] show ?case by (simp add: fits_def)
qed (simp_all add: fits_scalar)

text \<open>\<open>json.loads\<close> is inverse to \<open>json.dumps\<close>.\<close>

lemma loads_dumps:
  assumes "wf_json v" "dump_error k v = None" shows "loads fo k (dumps fl v) = Inr v"
proof -
  have "depth v \<le> length (dumps fl v) + 2" using all_fit [OF assms(1)] by (simp add: fits_def)
  from reads_backD [OF all_read_back assms(1) this assms(2), of "[]"]
  have "pval fo (length (dumps fl v) + 2) k (dumps fl v) = Inr (v, [])" by (simp add: delim_def)
  moreover have "skip_ws (dumps fl v) = dumps fl v" using opens_skip [OF dumps_opens [OF assms(1)], of "[]"] by simp
  ultimately show ?thesis by (simp add: loads_def skip_ws_def)
qed

text \<open>The text is ASCII, also that of a value with characters that are not.\<close>

lemma u_escape_ascii: "n < 65536 \<Longrightarrow> list_all (\<lambda>c. c < 128) (u_escape n)"
  by (simp add: u_escape_def hexd_def) (auto simp: less_Suc_eq_le div_le_dividend)

lemma esc_ascii:
  assumes "c < 0x110000" shows "list_all (\<lambda>c. c < 128) (esc_cp c)"
proof (cases "short_escape c")
  case (Some e)
  then show ?thesis by (auto simp: esc_cp_def short_escape_def split: if_splits)
next
  case None
  have "(c - 0x10000) div 1024 < 1024" using assms by simp
  with None show ?thesis
    by (auto simp: esc_cp_def Let_def intro!: u_escape_ascii)
qed

lemma dumps_str_ascii: "valid_text s \<Longrightarrow> list_all (\<lambda>c. c < 128) (dumps_str s)"
  by (induction s) (auto simp: dumps_str_def esc_ascii dest!: valid_text_tl)

lemma int_str_all_ascii: "list_all (\<lambda>c. c < 128) (int_str i)"
  using nat_str_digits by (fastforce simp: int_str_def list_all_iff)

lemma dumps_float_ascii: "double f \<Longrightarrow> list_all (\<lambda>c. c < 128) (dumps_float fl f)"
  using float_ascii [of f] by (cases f) (simp_all add: dumps_float_def del: double.simps, simp_all add: lit_def)

lemma words_ascii: "list_all (\<lambda>c. c < 128) (lit ''null'')" "list_all (\<lambda>c. c < 128) (lit ''true'')"
  "list_all (\<lambda>c. c < 128) (lit ''false'')"
  by (simp_all add: lit_def)

lemma dumps_ascii:
  "wf_json v \<Longrightarrow> list_all (\<lambda>c. c < 128) (dumps fl v)"
  "wf_list vs \<Longrightarrow> list_all (\<lambda>c. c < 128) (dumps_list fl vs)"
  "wf_members ms \<Longrightarrow> list_all (\<lambda>c. c < 128) (dumps_members fl ms)"
proof (induction v and vs and ms rule: wf_json_wf_list_wf_members.induct)
  case (7 v vs)
  then show ?case by (cases vs) auto
next
  case (9 k v ms)
  then show ?case by (cases ms) (auto simp: dumps_str_ascii)
qed (auto simp: dumps_str_ascii words_ascii dumps_float_ascii int_str_all_ascii)

end

section \<open>On the wire\<close>

text \<open>\<open>bytes.decode("utf-8")\<close>: no overlong forms, no surrogates, nothing above U+10FFFF.\<close>

definition cont :: "nat list \<Rightarrow> nat \<Rightarrow> bool" where
  "cont r i \<longleftrightarrow> i < length r \<and> 0x80 \<le> r ! i \<and> r ! i \<le> 0xBF"

definition utf8_one :: "nat \<Rightarrow> nat list \<Rightarrow> (nat \<times> nat list) option" where
  "utf8_one b r =
     (if b < 0x80 then Some (b, r)
      else if 0xC2 \<le> b \<and> b \<le> 0xDF \<and> cont r 0 then Some ((b - 0xC0) * 64 + (r ! 0 - 0x80), drop 1 r)
      else if 0xE0 \<le> b \<and> b \<le> 0xEF \<and> cont r 0 \<and> cont r 1 then
        let c = ((b - 0xE0) * 64 + (r ! 0 - 0x80)) * 64 + (r ! 1 - 0x80)
        in if 0x800 \<le> c \<and> \<not> surrogate c then Some (c, drop 2 r) else None
      else if 0xF0 \<le> b \<and> b \<le> 0xF4 \<and> cont r 0 \<and> cont r 1 \<and> cont r 2 then
        let c = (((b - 0xF0) * 64 + (r ! 0 - 0x80)) * 64 + (r ! 1 - 0x80)) * 64 + (r ! 2 - 0x80)
        in if 0x10000 \<le> c \<and> c < 0x110000 then Some (c, drop 3 r) else None
      else None)"

lemma utf8_one_length: "utf8_one b r = Some (c, r') \<Longrightarrow> length r' \<le> length r"
  by (auto simp: utf8_one_def Let_def split: if_splits)

function utf8_decode :: "nat list \<Rightarrow> pystr option" where
  "utf8_decode [] = Some []"
| "utf8_decode (b # r) =
     (case utf8_one b r of None \<Rightarrow> None | Some (c, r') \<Rightarrow> map_option ((#) c) (utf8_decode r'))"
  by pat_completeness auto
termination
  by (relation "measure length") (auto simp: less_Suc_eq_le dest!: utf8_one_length)

definition UnicodeDecodeError :: exn where
  "UnicodeDecodeError = Exn [''UnicodeDecodeError'', ''UnicodeError'', ''ValueError'', ''Exception'',
     ''BaseException''] []"

text \<open>\<open>value_serializer=lambda v: json.dumps(v).encode("utf-8")\<close> of the producer and
  \<open>value_deserializer=lambda v: json.loads(v.decode("utf-8"))\<close> of the consumer.\<close>

definition value_serializer :: "(pyfloat \<Rightarrow> pystr) \<Rightarrow> nat \<Rightarrow> json \<Rightarrow> exn + nat list" where
  "value_serializer fl k v =
     (case dump_error k v of Some e \<Rightarrow> Inl e | None \<Rightarrow> utf8_encode (dumps fl v))"

definition value_deserializer :: "(pystr \<Rightarrow> pyfloat) \<Rightarrow> nat \<Rightarrow> nat list \<Rightarrow> exn + json" where
  "value_deserializer fo k b =
     (case utf8_decode b of None \<Rightarrow> Inl UnicodeDecodeError | Some s \<Rightarrow> loads fo k s)"

lemma utf8_ascii: "list_all (\<lambda>c. c < 128) s \<Longrightarrow> utf8_encode s = Inr s \<and> utf8_decode s = Some s"
proof -
  assume s: "list_all (\<lambda>c. c < 128) s"
  then have "encodable s" by (intro encodable_ascii) (simp add: list_all_iff)
  moreover have "concat (map utf8_cp s) = s" using s by (induction s) (simp_all add: utf8_cp_def)
  moreover have "utf8_decode s = Some s" using s by (induction s) (simp_all add: utf8_one_def)
  ultimately show ?thesis by (simp add: utf8_encode_def)
qed

text \<open>What the producer serializes the consumer deserializes.\<close>

lemma value_round_trip:
  assumes "float_codec fl fo" "wf_json v" "dump_error k v = None" "dump_error k' v = None"
  shows "\<exists>b. value_serializer fl k v = Inr b \<and> list_all (\<lambda>c. c < 128) b \<and> value_deserializer fo k' b = Inr v"
  using utf8_ascii [OF float_codec.dumps_ascii(1) [OF assms(1,2)]] float_codec.dumps_ascii(1) [OF assms(1,2)]
    float_codec.loads_dumps [OF assms(1,2,4)] assms(3)
  by (simp add: value_serializer_def value_deserializer_def)

text \<open>What does not decode raises a ValueError, of one of three classes, or a RecursionError.\<close>

definition decode_error :: "exn \<Rightarrow> bool" where
  "decode_error e \<longleftrightarrow> (isinstance e ''ValueError'' \<or> isinstance e ''RecursionError'') \<and> ordinary e"

lemma decode_errors: "decode_error JSONDecodeError" "decode_error RecursionError" "decode_error int_too_long"
  "decode_error UnicodeDecodeError"
  by (simp_all add: decode_error_def JSONDecodeError_def RecursionError_def int_too_long_def ValueError_def
      UnicodeDecodeError_def)

lemma pscalar_fails: "pscalar fo s = Inl e \<Longrightarrow> decode_error e"
  by (auto simp: pscalar_def pnumber_def decode_errors split: option.splits prod.splits if_splits)

lemma read_fails:
  "pval fo n k s = Inl e \<Longrightarrow> decode_error e" "pelems fo n k s = Inl e \<Longrightarrow> decode_error e"
  "pmembers fo n k s = Inl e \<Longrightarrow> decode_error e"
proof (induction fo n k s and fo n k s and fo n k s arbitrary: e and e and e rule: pval_pelems_pmembers.induct)
  case (2 fo n k s)
  show ?case
  proof (cases "starts 34 s \<or> \<not> (starts 123 s \<or> starts 91 s)")
    case True
    with 2(3) show ?thesis by (auto simp: decode_errors dest: pscalar_fails split: option.splits if_splits)
  next
    case False
    show ?thesis
    proof (cases k)
      case 0
      with False 2(3) show ?thesis by (auto simp: decode_errors split: if_splits)
    next
      case (Suc j)
      show ?thesis
      proof (cases "starts 123 s")
        case True
        with False 2(1) [of j "skip_ws (tl s)"] 2(3) Suc show ?thesis
          by (cases "pmembers fo n j (skip_ws (tl s))") (auto simp: Let_def split: if_splits)
      next
        case not_obj: False
        with False 2(2) [of j "skip_ws (tl s)"] 2(3) Suc show ?thesis
          by (cases "pelems fo n j (skip_ws (tl s))") (auto simp: Let_def split: if_splits)
      qed
    qed
  qed
next
  case (4 fo n k s)
  show ?case
  proof (cases "pval fo n k s")
    case (Inl e')
    with 4(1,3) show ?thesis by simp
  next
    case (Inr p)
    obtain v r where p: "p = (v, r)" by (cases p)
    show ?thesis
    proof (cases "starts 44 (skip_ws r)")
      case True
      with 4(2) [OF Inr p [symmetric] refl] 4(3) Inr p show ?thesis
        by (cases "pelems fo n k (skip_ws (tl (skip_ws r)))") (auto simp: cons_ok_def Let_def)
    next
      case False
      with 4(3) Inr p show ?thesis by (auto simp: decode_errors Let_def split: if_splits)
    qed
  qed
next
  case (6 fo n k s)
  show ?case
  proof (cases "starts 34 s \<and> (\<exists>key r. pstring (tl s) = Some (key, r) \<and> starts 58 (skip_ws r))")
    case False
    with 6(3) show ?thesis by (auto simp: decode_errors Let_def split: option.splits if_splits)
  next
    case True
    then obtain key r where start: "starts 34 s" "pstring (tl s) = Some (key, r)" "starts 58 (skip_ws r)" by blast
    show ?thesis
    proof (cases "pval fo n k (skip_ws (tl (skip_ws r)))")
      case (Inl e')
      with 6(1) [OF start(1,2) refl refl start(3)] 6(3) start show ?thesis by (simp add: Let_def)
    next
      case (Inr p)
      obtain v t where p: "p = (v, t)" by (cases p)
      show ?thesis
      proof (cases "starts 44 (skip_ws t)")
        case True
        with 6(2) [OF start(1,2) refl refl start(3) Inr p [symmetric] refl] 6(3) start Inr p show ?thesis
          by (cases "pmembers fo n k (skip_ws (tl (skip_ws t)))") (auto simp: cons_ok_def Let_def)
      next
        case False
        with 6(3) start Inr p show ?thesis by (auto simp: decode_errors Let_def split: if_splits)
      qed
    qed
  qed
qed (simp_all add: decode_errors)

lemma loads_fails: "loads fo k s = Inl e \<Longrightarrow> decode_error e"
  by (auto simp: loads_def decode_errors dest: read_fails(1) simp del: pval.simps
      split: sum.splits prod.splits if_splits)

lemma value_deserializer_fails: "value_deserializer fo k b = Inl e \<Longrightarrow> decode_error e"
  by (auto simp: value_deserializer_def decode_errors dest: loads_fails split: option.splits)

section \<open>A reference codec for floats\<close>

text \<open>The mantissa, the letter e and the exponent of 2.\<close>

definition ref_fl :: "pyfloat \<Rightarrow> pystr" where
  "ref_fl f = (case f of Fin m e \<Rightarrow> int_str m @ 101 # int_str e | _ \<Rightarrow> lit ''-0e0'')"

definition ref_fo :: "pystr \<Rightarrow> pyfloat" where
  "ref_fo t = (if t = lit ''-0e0'' then NegZero else case split_on 101 t of
     [m, e] \<Rightarrow> (case (parse_int m, parse_int e) of (Some m, Some e) \<Rightarrow> Fin m e | _ \<Rightarrow> NaN)
   | _ \<Rightarrow> NaN)"

lemma int_str_no_e: "101 \<notin> set (int_str i)"
  by (auto simp: int_str_def split: if_splits dest: nat_str_digits [THEN bspec])

lemma int_str_neg_zero: "int_str m @ 101 # u \<noteq> lit ''-0e0''"
proof
  assume eq: "int_str m @ 101 # u = lit ''-0e0''"
  have "takeWhile (\<lambda>c. c \<noteq> 101) (int_str m @ 101 # u) = int_str m"
    using int_str_no_e [of m] by (subst takeWhile_append2) auto
  moreover have "takeWhile (\<lambda>c. c \<noteq> 101) (lit ''-0e0'') = [45, 48]" by (simp add: lit_def)
  ultimately have neg: "int_str m = [45, 48]" using eq by simp
  then have "parse_int (int_str m) = Some 0" by (simp add: parse_int_def)
  then show False using neg parse_int_str [of m] by (simp add: int_str_def nat_str.simps)
qed

lemma ref_fo_fl: "ref_fo (ref_fl (Fin m e)) = Fin m e"
  by (simp add: ref_fo_def ref_fl_def int_str_neg_zero split_on_append int_str_no_e split_on_no_sep parse_int_str)

lemma scan_exp_int:
  assumes "stops r" shows "scan_exp (101 # int_str e @ r) = (101 # int_str e, r)"
proof -
  have digits: "takeWhile is_digit (nat_str n @ r) = nat_str n" "dropWhile is_digit (nat_str n @ r) = r" for n
    using take_digits [OF nat_str_all assms] by simp_all
  have "\<not> starts 43 (nat_str n @ r)" "\<not> starts 45 (nat_str n @ r)" for n
    using nat_str_all [of n] by (cases "nat_str n"; simp add: starts_def is_digit_def)+
  then show ?thesis
    by (simp add: scan_exp_def int_str_def digits starts_def [of _ "101 # _"] starts_def [of _ "45 # _"] Let_def)
qed

interpretation ref_float: float_codec ref_fl ref_fo
proof unfold_locales
  fix r f assume r: "delim r" and f: "finite_float f"
  show "pnumber ref_fo (ref_fl f @ r) = Some (Inr (JFloat f, r))"
  proof (cases f)
    case (Fin m e)
    have "scan_int (int_str m @ 101 # int_str e @ r) = Some (int_str m, 101 # int_str e @ r)"
      using scan_nat [of "101 # int_str e @ r"] by (simp add: stops_def is_digit_def int_str_def)
    moreover have "scan_frac (101 # int_str e @ r) = ([], 101 # int_str e @ r)"
      by (simp add: scan_frac_def starts_def)
    ultimately show ?thesis
      using scan_exp_int [OF delim_stops [OF r]] ref_fo_fl [of m e]
      by (simp add: pnumber_def ref_fl_def Fin)
  next
    case NegZero
    have zero: "lit ''-0e0'' = 45 # 48 # 101 # int_str 0" by (simp add: lit_def int_str_def nat_str.simps)
    have "scan_int (45 # 48 # 101 # int_str 0 @ r) = Some ([45, 48], 101 # int_str 0 @ r)"
      by (simp add: scan_int_def starts_def Let_def)
    moreover have "scan_frac (101 # int_str 0 @ r) = ([], 101 # int_str 0 @ r)"
      by (simp add: scan_frac_def starts_def)
    moreover have "ref_fo (45 # 48 # 101 # int_str 0) = NegZero" by (simp add: ref_fo_def zero)
    ultimately show ?thesis
      using scan_exp_int [OF delim_stops [OF r]] by (simp add: pnumber_def ref_fl_def NegZero zero)
  qed (use f in simp_all)
next
  fix f assume "finite_float f"
  then show "list_all (\<lambda>c. c < 128) (ref_fl f)"
  proof (cases f)
    case (Fin m e)
    then show ?thesis by (auto simp: ref_fl_def int_str_def list_all_iff dest: nat_str_digits [THEN bspec])
  qed (simp_all add: ref_fl_def lit_def)
qed

end
