(* ===== verification/Wire.thy ===== *)
theory Wire
  imports Json_Text Consumer
begin

text \<open>
  What the producer of the ingestion service writes and the consumer of the worker reads: the keys
  of the records, beside the values of \<open>Json_Text\<close>, and UTF-8 in both directions.
\<close>

section \<open>UTF-8\<close>

lemma utf8_one_byte: "c < 0x80 \<Longrightarrow> utf8_one c r = Some (c, r)"
  by (simp add: utf8_one_def)

lemma utf8_two_bytes:
  assumes "2 \<le> h" "h < 32" "d < 64"
  shows "utf8_one (0xC0 + h) ((0x80 + d) # r) = Some (h * 64 + d, r)"
  using assms by (simp add: utf8_one_def cont_def)

lemma utf8_three_bytes:
  assumes "h < 16" "d < 64" "e < 64" "c = (h * 64 + d) * 64 + e" "0x800 \<le> c" "\<not> surrogate c"
  shows "utf8_one (0xE0 + h) ((0x80 + d) # (0x80 + e) # r) = Some (c, r)"
  using assms by (simp add: utf8_one_def cont_def Let_def)

lemma utf8_four_bytes:
  assumes "h < 5" "d < 64" "e < 64" "f < 64" "c = ((h * 64 + d) * 64 + e) * 64 + f" "0x10000 \<le> c" "c < 0x110000"
  shows "utf8_one (0xF0 + h) ((0x80 + d) # (0x80 + e) # (0x80 + f) # r) = Some (c, r)"
  using assms by (simp add: utf8_one_def cont_def Let_def)

text \<open>The digits of a code point in base 64, which its bytes carry.\<close>

lemma base64_digits:
  fixes c :: nat
  shows "c = c div 64 * 64 + c mod 64" "c = (c div 4096 * 64 + c div 64 mod 64) * 64 + c mod 64"
    "c = ((c div 262144 * 64 + c div 4096 mod 64) * 64 + c div 64 mod 64) * 64 + c mod 64"
proof -
  have quot: "c div 4096 = c div 64 div 64" "c div 262144 = c div 64 div 64 div 64"
    by (simp_all add: div_mult2_eq [symmetric])
  show "c = c div 64 * 64 + c mod 64" by simp
  show "c = (c div 4096 * 64 + c div 64 mod 64) * 64 + c mod 64"
    unfolding quot by (simp only: div_mult_mod_eq)
  show "c = ((c div 262144 * 64 + c div 4096 mod 64) * 64 + c div 64 mod 64) * 64 + c mod 64"
    unfolding quot by (simp only: div_mult_mod_eq)
qed

lemma utf8_one_cp:
  assumes "c < 0x110000" "\<not> surrogate c"
  obtains b t where "utf8_cp c = b # t" "\<And>r. utf8_one b (t @ r) = Some (c, r)"
proof -
  consider "c < 0x80" | "0x80 \<le> c" "c < 0x800" | "0x800 \<le> c" "c < 0x10000" | "0x10000 \<le> c" by linarith
  then show thesis
  proof cases
    case 1
    show ?thesis by (rule that [of c "[]"]) (use 1 in \<open>simp_all add: utf8_cp_def utf8_one_byte\<close>)
  next
    case 2
    then have "2 \<le> c div 64" "c div 64 < 32" by linarith+
    from utf8_two_bytes [OF this, of "c mod 64"] show ?thesis
      by (intro that [of "0xC0 + c div 64" "[0x80 + c mod 64]"]) (use 2 in \<open>simp_all add: utf8_cp_def\<close>)
  next
    case 3
    then have "c div 4096 < 16" by linarith
    from utf8_three_bytes [OF this _ _ base64_digits(2) 3(1) assms(2)] show ?thesis
      by (intro that [of "0xE0 + c div 4096" "[0x80 + c div 64 mod 64, 0x80 + c mod 64]"])
         (use 3 in \<open>simp_all add: utf8_cp_def\<close>)
  next
    case 4
    from assms(1) have "c div 262144 < 5" by linarith
    from utf8_four_bytes [OF this _ _ _ base64_digits(3) 4 assms(1)] show ?thesis
      by (intro that [of "0xF0 + c div 262144" "[0x80 + c div 4096 mod 64, 0x80 + c div 64 mod 64, 0x80 + c mod 64]"])
         (use 4 in \<open>simp_all add: utf8_cp_def\<close>)
  qed
qed

lemma utf8_round_trip:
  assumes "utf8_encode s = Inr b" "\<forall>c \<in> set s. c < 0x110000"
  shows "utf8_decode b = Some s"
proof -
  have "utf8_decode (concat (map utf8_cp s)) = Some s"
    if "list_all (\<lambda>c. \<not> surrogate c) s" "\<forall>c \<in> set s. c < 0x110000"
    using that
  proof (induction s)
    case (Cons c s)
    then obtain b t where "utf8_cp c = b # t" "\<And>r. utf8_one b (t @ r) = Some (c, r)"
      using utf8_one_cp [of c] by auto
    with Cons show ?case by simp
  qed simp
  with assms show ?thesis by (simp add: utf8_encode_def encodable_def split: if_splits)
qed

section \<open>Keys\<close>

text \<open>\<open>key_deserializer=lambda k: k.decode("utf-8") if k else None\<close>\<close>

definition key_deserializer :: "nat list option \<Rightarrow> exn + pystr option" where
  "key_deserializer k =
     (case k of None \<Rightarrow> Inr None
      | Some b \<Rightarrow> if b = [] then Inr None
                  else (case utf8_decode b of None \<Rightarrow> Inl UnicodeDecodeError | Some s \<Rightarrow> Inr (Some s)))"

lemma utf8_encode_empty: "utf8_encode s = Inr [] \<longleftrightarrow> s = []"
  by (cases s) (auto simp: utf8_encode_def encodable_def utf8_cp_def)

lemma key_round_trip:
  assumes "key_serializer (Some s) = Inr k" "\<forall>c \<in> set s. c < 0x110000"
  shows "key_deserializer k = Inr (if s = [] then None else Some s)"
proof (cases "s = []")
  case False
  with assms(1) obtain b where "k = Some b" "utf8_encode s = Inr b"
    by (auto simp: key_serializer_def split: sum.splits)
  with False assms(2) utf8_round_trip [of s b] utf8_encode_empty [of s] show ?thesis
    by (auto simp: key_deserializer_def)
qed (use assms(1) in \<open>simp add: key_serializer_def key_deserializer_def\<close>)

section \<open>Records\<close>

text \<open>C23: What the producer serializes the consumer deserializes. Take a value whose dicts have
  distinct keys, whose texts are valid (no code point out of range, no lone high surrogate before a
  lone low one), whose floats are doubles, and which the interpreter can read and write: no list or
  dict nests deeper than the recursion limit of either side, no integer has more than the 4300 digits
  that int and str convert. Then the bytes are ASCII, also when the value has lone surrogates or
  other characters that are not, and the deserializer makes the same value of them, negative zero,
  infinities and nan included. A key of any characters but surrogates comes back as it was, and the
  empty key as none. Of Python's float formatting it is assumed that the text of a finite double is
  ASCII and reads back as that double.\<close>

theorem wire_round_trip:
  assumes "float_codec fl fo" "wf_json v" "dump_error k v = None" "dump_error k' v = None"
    and "encodable s" "\<forall>c \<in> set s. c < 0x110000"
  shows "\<exists>b x. value_serializer fl k v = Inr b \<and> list_all (\<lambda>c. c < 128) b \<and>
    value_deserializer fo k' b = Inr v \<and>
    key_serializer (Some s) = Inr x \<and> key_deserializer x = Inr (if s = [] then None else Some s)"
proof -
  obtain x where x: "key_serializer (Some s) = Inr x"
    using assms(5) by (cases "s = []") (auto simp: key_serializer_def utf8_encode_def)
  from value_round_trip [OF assms(1-4)] x key_round_trip [OF x assms(6)] show ?thesis by blast
qed

definition wire_sample :: json where
  "wire_sample = JObj [(lit ''a'', JArr [JStr [0x1F600, 0xD800], JFloat (Fin 3 (- 1)), JFloat NegZero, JFloat NaN, JNull])]"

theorem wire_round_trip_witness:
  "\<exists>b x. value_serializer ref_fl 2 wire_sample = Inr b \<and> list_all (\<lambda>c. c < 128) b \<and>
    value_deserializer ref_fo 1000 b = Inr wire_sample \<and>
    key_serializer (Some [100, 0xE9, 0x20AC, 0x1F600]) = Inr x \<and>
    key_deserializer x = Inr (Some [100, 0xE9, 0x20AC, 0x1F600])"
proof -
  have key: "encodable [100, 0xE9, 0x20AC, 0x1F600]" by (simp add: encodable_def surrogate_def)
  have wf: "wf_json wire_sample"
    by (simp add: wire_sample_def valid_text_def lit_def)
  have fits: "dump_error 2 wire_sample = None" "dump_error 1000 wire_sample = None"
    by (simp_all add: wire_sample_def)
  from wire_round_trip [OF ref_float.float_codec_axioms wf fits key] show ?thesis by simp
qed

end
