(* ===== verification/Spec2Isabelle.thy ===== *)
theory Spec2Isabelle
  imports Ingest_Main Rate_Limiter Kafka_Batch Worker_Lossless Worker_Main Simulator Wire
begin

text \<open>
  IoTFlow takes events of devices from MQTT, validates them, limits their rate per device and
  publishes them to a Kafka topic (the ingestion service, \<open>apps/ingestion\<close>); workers consume the
  topic, drop events they have seen, validate again, store the events in PostgreSQL with retries,
  keep the latest state of each device, and send what they cannot store to a dead letter topic and
  an audit table (\<open>apps/worker\<close>). \<open>libs/shared\<close> holds the handler pipeline and the event model that
  both use. The development models the code of both services and proves what it does, also where
  that is not what its comments and documents say.

  \<^bold>\<open>How the code is modelled.\<close> An operation of the code is an action of the type \<open>('s, 'a) io\<close>, a
  function from a state to an exception or a value and the next state (\<open>Iot_Prelude\<close>); every
  \<open>raise\<close>, \<open>except\<close> and \<open>finally\<close> of the source is a branch of it. An exception carries the names
  of its classes, so that \<open>except\<close> clauses match as they do in Python, and \<open>CancelledError\<close> is no
  \<open>Exception\<close>. Python's texts are lists of code points (\<open>pystr\<close>), as lone surrogates matter; JSON
  values are the datatype \<open>json\<close> and dicts association lists in insertion order (\<open>Json\<close>). Ints are
  \<open>int\<close>; the floats within JSON values are IEEE doubles, one value of \<open>pyfloat\<close> each (\<open>double\<close>,
  \<open>double_unique\<close>); the floats of the code itself (delays, clocks) are rationals. Log output is not modelled. The state is
  the record \<open>world\<close> (\<open>World\<close>): the states of Redis, PostgreSQL, Kafka and the host, whose types are
  parameters, the metrics, and the two client variables that outlive a call. All definitions
  compute.

  \<^bold>\<open>What is a parameter.\<close> Redis, PostgreSQL, Kafka, the clock, the random generator, MQTT and the
  date functions of the libraries are the arguments \<open>services\<close>, \<open>consumer_api\<close> and \<open>sim_api\<close> of the
  definitions. What a property needs of them is the predicate of a locale: \<open>redis_store\<close> (SET NX EX,
  DEL, INCR, EXPIRE, scripts, a clock and times to live), \<open>kafka_log\<close> (durable and pending records),
  \<open>pg_server\<close> (a statement that succeeds does what \<open>exec_sql\<close> says at the time of the server, one that
  fails does this or nothing), \<open>iso_codec\<close>, \<open>float_codec\<close> (the text of a finite double reads back as it), \<open>host_timer\<close>, \<open>simulator\<close>, and \<open>uncancelled\<close> for the
  absence of cancellations. Each has an interpretation on a reference service that is defined here
  (\<open>Redis_Store\<close>, \<open>Kafka_Log\<close>, \<open>Database\<close>, \<open>Datetimes\<close>, \<open>Retry\<close>, \<open>Simulator\<close>, \<open>Json_Text\<close>, \<open>Reference\<close>); the witnesses
  of the properties run on these.

  \<^bold>\<open>The theories.\<close>

  \<^item> \<open>Config\<close>, \<open>Metrics\<close>: the settings with their defaults; the metrics as declared and the counters,
    gauges and histograms the model updates.
  \<^item> \<open>Datetimes\<close>: the proleptic Gregorian calendar, \<open>astimezone(utc)\<close> and an ISO codec. \<open>Models\<close>:
    \<open>libs/shared/models.py\<close>, the constructor of \<open>IoTEvent\<close> field by field, and \<open>to_kafka_dict\<close>, which
    turns NaN and the infinities of the payload into None, as pydantic does in its JSON mode. \<open>Event_Contract\<close>: what a
    validated event satisfies, how validation fails, and how the published value reads back.
  \<^item> \<open>Pipeline\<close>: \<open>libs/shared/pipeline.py\<close>; its locale \<open>has_trace_id\<close> is interpreted by the contexts
    of both services.
  \<^item> \<open>Rate_Limiter\<close>, \<open>Kafka_Producer\<close> with \<open>Kafka_Batch\<close>, \<open>Ingest_Handlers\<close>, \<open>Ingest_Main\<close>: the ingestion
    service. The name \<open>raw_payload\<close> that \<open>LoggingHandler\<close> reads is not defined in the code, so that the
    handlers take its value as an argument \<open>glob\<close>: \<open>raw_payload_global\<close>, which is \<open>None\<close>, is the
    code as it is, and \<open>Some\<close> the payload is the pipeline that its comments describe. \<open>Ingest_Main\<close>
    is the step relation of the three tasks (subscriber, dispatcher, gauge updater) on the bounded
    queue.
  \<^item> \<open>Idempotency\<close>, \<open>Database\<close>, \<open>Retry\<close>, \<open>Worker_Handlers\<close>, \<open>Processor\<close>: the worker up to
    \<open>EventProcessor.process\<close>. \<open>Database\<close> holds the tables of \<open>001_initial.sql\<close> with their keys,
    partitions and the foreign key, and what the statements of \<open>db.py\<close> do to them. \<open>Claim_Release\<close>:
    what \<open>process\<close> does with the claim of an event that it gives up, for the two ids of an event.
  \<^item> \<open>Consumer\<close>, \<open>Worker_Main\<close>: the step relation of the consume loop and its tasks with the commits,
    its invariants, order and progress; the lag sampling, start and stop of the loop and of the
    process, and the logging configuration. A call of \<open>process\<close> is one step of \<open>consume_step\<close>.
  \<^item> \<open>Coroutine\<close>, \<open>Coroutine_Spec\<close>: coroutines as trees of pauses, with the combinators of the code
    (\<open>await\<close>, sequence, \<open>try\<close>, \<open>finally\<close>, local variables); at a pause the other tasks may change the
    state, and the coroutine is told to go on or that it is cancelled, before or after the call took
    effect. A logic with ghost values for a coroutine among others.
  \<^item> \<open>Worker_Tasks\<close>: the code of the worker up to \<open>process\<close> as coroutines (the definitions with the
    suffix \<open>_co\<close>), with \<open>run_process_co\<close>: run alone they are the actions of the theories before.
    \<open>Worker_Process\<close>: the step relation \<open>worker_step\<close> of the whole process from the moment at which \<open>main\<close>
    waits: the starts of the producer and of the consumer, the consume loop, the \<open>finally\<close> of
    \<open>run_consumer_loop\<close>, the \<open>finally\<close> of \<open>main\<close>, and the tasks alternate at their awaits, a stop signal may
    come at each of them, up to the end of \<open>asyncio.run\<close>, which cancels what is left. \<open>Worker_Refines\<close> relates the two models of the
    loop: the runs of \<open>consume_step\<close> are runs of \<open>worker_step\<close>.
  \<^item> \<open>Worker_End\<close>, \<open>Worker_Kill\<close>: the shutdown ends within a bound; what the stretches of the coroutines
    keep, a run keeps; a task that is killed keeps its claim, and a stop signal that comes late leaves the
    Kafka clients open. \<open>Task_Outcome\<close>, \<open>Task_Stored\<close>, \<open>Task_Dead\<close>: a
    task counts one outcome, stores its event before it counts it as processed, and has sent what it
    counted as dead when it ends. \<open>Ledger\<close>: what such facts about a task give for the runs of the process;
    \<open>Worker_Accounts\<close>, \<open>Worker_Lossless\<close>: each processed record was counted once, and none was lost.
  \<^item> \<open>Json_Text\<close>: \<open>json.dumps\<close> and \<open>json.loads\<close> and UTF-8, which make the bytes of a Kafka record, with
    what they raise: RecursionError beyond a depth that is an argument, ValueError for an integer of
    more than 4300 digits, JSONDecodeError. In the other theories a record carries the JSON value it stands for, or the exception that decoding it
    raises. \<open>Wire\<close>: the keys, and that what the producer writes the consumer reads.
  \<^item> \<open>Simulator\<close>: \<open>scripts/simulate_iot.py\<close>.
  \<^item> this theory: the properties of the two services together.

  \<^bold>\<open>How the lemmas are organised.\<close> \<open>raises P m\<close> and \<open>leads R m\<close> (\<open>Iot_Prelude\<close>) say what an action may
  raise and what it does to its state; the rules \<open>raises_intros\<close> and \<open>leads_intros\<close> go through an
  action by its syntax, so that \<open>never raises\<close> and \<open>keeps\<close> are proved by \<open>intro\<close>. The locales
  \<open>worker_calls\<close>, \<open>worker_frame\<close> and \<open>worker_database\<close> carry a relation through all handlers of the
  worker once; their interpretations give the balance of the gauge, the growth of the counters and
  the constraints of the schema. \<open>ingest_fate\<close> is the specification of the ingestion handlers without
  continuations, \<open>firsts\<close> the one of the idempotency checks, \<open>fixed_window\<close> the one of the rate limiter. \<open>goes_on\<close> is what the progress of the
  consume loop rests on. Of coroutines, \<open>ends_within\<close>, \<open>co_leads\<close>, \<open>co_raises\<close>, \<open>co_dies\<close> and \<open>co_spec\<close> say how
  often they pause, what their stretches do, what they raise, what a cancellation does to them, and
  what they do in terms of a ghost value; each has a rule for each combinator. \<open>tasks_all\<close> and \<open>loop_all\<close>
  carry such a predicate to the coroutines of every state of a run, the locales \<open>loop_frame\<close> and
  \<open>process_frame\<close> a relation to all its steps. The locale \<open>ledger\<close> is the contract between a task and the
  process.

  \<^bold>\<open>Bounds.\<close> All functions are total. The retry loop is a recursion on the list of the attempts, as
  the code's \<open>range\<close>; the dispatch of the handlers decreases the number of handlers left; the readers
  of strings and of UTF-8 decrease the length of the text. Fuel bounds only the descent of the
  JSON reader, \<open>loads\<close> gives it the length of the text, and a text is longer than its value is deep
  (\<open>all_fit\<close>); the recursion limit of the interpreter is another argument, beyond which the reader and
  the writer raise. The loops that run forever (subscriber, dispatcher, consume loop) are step relations, and
  their properties hold of every run of any length. A call of \<open>process\<close> awaits at most
  \<open>max_pauses\<close> times (two times for each attempt of the insertion, a check, a release, two messages and
  three statements), which is proved of every path through it (\<open>within_process\<close>), and
  \<open>run_consumer_loop\<close> and \<open>main\<close> await two calls each when they end; the bound of the shutdown is made of these.

  \<^bold>\<open>Not modelled.\<close> The libraries (aiokafka, asyncpg, redis-py, aiomqtt, FastAPI, pydantic, structlog,
  prometheus\_client) beyond what the code relies on; log output; in the theories in which a record
  carries a JSON value, the values that are too deep, or whose integers are too long, for
  \<open>json.dumps\<close>; the rebalance listener of the
  consumer, which only logs; the answer of an await is a
  step that happens, so that a call that is never answered is a run that stops there; the container,
  Kubernetes, Prometheus and Grafana files.
\<close>

section \<open>Delivered again\<close>

text \<open>C30: An event that is delivered again while its claim lasts has no effect: if Redis answers, \<open>process\<close>
  returns, so that the offset is committed; the event is counted as a duplicate and as nothing else,
  and neither the database nor Kafka has been touched, whatever the event says.\<close>

theorem redelivery_has_no_effect:
  assumes "redis_store (redis_of S) value_at clock"
    and "map_of d (lit ''event_id'') = Some (JStr s)" "s \<noteq> []"
    and "claim_lasts value_at clock (py_of S) until s (redis w)"
    and "r_set_nx (redis_of S) (idempotency_key (py_of S) (JStr s)) (lit ''1'')
      (W_IDEMPOTENCY_TTL_SECONDS cfg) (redis w) = (Inr b, x)" "clock x < until"
  shows "\<exists>w'. process S cfg (JObj d) part off w = (Inr (), w') \<and> one_outcome EVENTS_DUPLICATE w w' \<and>
    kafka w' = kafka w \<and> postgres w' = postgres w"
  using claimed_is_duplicate [OF assms] .

section \<open>From the device to the database\<close>

text \<open>The value that is published makes a key for the dead letters, as its id is that of the event.\<close>

lemma published_value_key:
  assumes "IoTEvent py d = Inr ev" "valid_lib py" "iso_codec (fromisoformat py) (ser_datetime py)"
    and "kafka_value py ev trace = Inr val"
  shows "IoTEvent py val = Inr (dumped py ev) \<and> (\<exists>key. dlq_key (dlq_id_of val) = Inr key)"
  using value_reads_back [OF assms] valid_id_key by blast

text \<open>C4: An event that the ingestion pipeline (with the payload bound) marks processed reaches the
  database. Its value, with the payload and the metadata as pydantic dumps them, is in the topic of
  raw events, once. Let a worker process this value, in any state in which its pool is set, with
  services that may fail at every call, but cancel none, and with a Kafka client whose errors are
  KafkaErrors, as those of aiokafka are. Then \<open>process\<close> returns and the event is a duplicate; or it is
  counted as processed, under its own type, and the table of events holds a row with its id, and only
  rows of this event (as dumped) if that was so before; or it is sent to the dead letters, but never
  because it does not validate.\<close>

theorem published_event_is_delivered:
  assumes "uncancelled I" "timely (py_of I) d" "kafka_log (kafka_of I) durable pending"
    and "pending (kafka w) = {#}"
    and "ingest_execute I icfg (Some (JObj d)) (new_ingestion_context m, w) = (r, (c', w'))" "ic_processed c'"
    and "py_of S = py_of I" "valid_lib (py_of S)"
    and "iso_codec (fromisoformat (py_of S)) (ser_datetime (py_of S))"
    and "well_behaved S" "pg_server (pg_of S) tables now_of" "pool_set v"
  shows "\<exists>ev val k. IoTEvent (py_of S) d = Inr ev \<and> IoTEvent (py_of S) val = Inr (dumped (py_of S) ev) \<and>
    durable (kafka w') = durable (kafka w) + {#(I_KAFKA_TOPIC_RAW icfg, JObj val, k)#} \<and>
    (\<forall>part off. \<exists>v'. process S cfg (JObj val) part off v = (Inr (), v') \<and>
      (one_outcome EVENTS_DUPLICATE v v' \<or>
       one_outcome (EVENTS_PROCESSED (event_type ev)) v v' \<and>
         rows_with_id (event_id ev) (tables (postgres v')) \<noteq> [] \<and>
         (only_rows (dumped (py_of S) ev) (tables (postgres v)) \<longrightarrow>
          only_rows (dumped (py_of S) ev) (tables (postgres v'))) \<or>
       (\<exists>et. one_outcome (EVENTS_DLQ et) v v' \<and> dead_lettered S cfg val et v v')))"
proof -
  from publishes_once [OF assms(1-6)] obtain ev val k where ev: "IoTEvent (py_of S) d = Inr ev"
    and kv: "kafka_value (py_of S) ev (ic_trace_id c') = Inr val"
    and sent: "durable (kafka w') = durable (kafka w) + {#(I_KAFKA_TOPIC_RAW icfg, JObj val, k)#}"
    using assms(7) by auto
  from published_value_key [OF ev assms(8,9) kv] obtain key where val: "IoTEvent (py_of S) val = Inr (dumped (py_of S) ev)"
    and key: "dlq_key (dlq_id_of val) = Inr key" by blast
  have "\<exists>v'. process S cfg (JObj val) part off v = (Inr (), v') \<and>
      (one_outcome EVENTS_DUPLICATE v v' \<or>
       one_outcome (EVENTS_PROCESSED (event_type ev)) v v' \<and>
         rows_with_id (event_id ev) (tables (postgres v')) \<noteq> [] \<and>
         (only_rows (dumped (py_of S) ev) (tables (postgres v)) \<longrightarrow>
          only_rows (dumped (py_of S) ev) (tables (postgres v'))) \<or>
       (\<exists>et. one_outcome (EVENTS_DLQ et) v v' \<and> dead_lettered S cfg val et v v'))" for part off
  proof -
    from process_ends [OF assms(10) key, of cfg part off v] obtain v' where
      run: "process S cfg (JObj val) part off v = (Inr (), v')"
      and ends: "one_outcome EVENTS_DUPLICATE v v' \<or> late_end S cfg val (dumped (py_of S) ev) v v'"
      using val by (auto simp: valid_end_def)
    then show ?thesis
      using persisted_rows [OF assms(11,12), of cfg "dumped (py_of S) ev"]
      unfolding late_end_def processed_end_def dead_end_def dumped_fields by blast
  qed
  with ev val sent show ?thesis by blast
qed

section \<open>Witnesses\<close>

lemma good_worker_parts: "py_of good_worker = ref_py" "redis_of good_worker = ref_redis 1 (\<lambda>_. None)"
  by (simp_all add: good_worker_def worker_services_def)

text \<open>A worker world in which the id of the sample event is claimed.\<close>

definition claimed_world :: "(ref_redis, ref_pg, ref_kafka, ref_host) world" where
  "claimed_world = worker_world\<lparr>redis := \<lparr>rr_now = 1, rr_store =
     [idempotency_key ref_py (JStr (event_id sample_event)) \<mapsto> (lit ''1'', Some 259201)]\<rparr>\<rparr>"

theorem redelivery_has_no_effect_witness:
  "\<exists>w'. process good_worker worker_defaults (JObj sample_dict) (Some 0) (Some 7) claimed_world = (Inr (), w') \<and>
     one_outcome EVENTS_DUPLICATE claimed_world w'"
proof -
  let ?id = "event_id sample_event"
  let ?k = "idempotency_key (py_of good_worker) (JStr ?id)"
  let ?x = "(redis claimed_world)\<lparr>rr_now := 2\<rparr>"
  have store: "redis_store (redis_of good_worker) rr_at rr_now"
    unfolding good_worker_parts by (rule rr.redis_store_axioms)
  have id: "map_of sample_dict (lit ''event_id'') = Some (JStr ?id)" "?id \<noteq> []"
    by (simp_all add: sample_dict_def sample_event_def)
  have lasts: "claim_lasts rr_at rr_now (py_of good_worker) 259201 ?id (redis claimed_world)"
    by (simp add: claim_lasts_def claimed_world_def rr_at_def good_worker_parts)
  have "r_set_nx (redis_of good_worker) ?k (lit ''1'') (W_IDEMPOTENCY_TTL_SECONDS worker_defaults)
      (redis claimed_world) = (Inr False, ?x)" "rr_now ?x < 259201"
    by (simp_all add: good_worker_parts ref_redis_def rr_call_def rr_set_nx_def rr_at_def claimed_world_def)
  from redelivery_has_no_effect [OF store id lasts this] show ?thesis by blast
qed

theorem published_event_is_delivered_witness:
  "\<exists>val k v'. rk_durable (kafka (snd (snd sample_ingest))) =
       rk_durable (kafka ingest_world) + {#(lit ''iot.events.raw'', JObj val, k)#} \<and>
     process good_worker worker_defaults (JObj val) (Some 0) (Some 7) worker_world = (Inr (), v')"
proof -
  have log: "kafka_log (kafka_of good_services) rk_durable rk_pending"
    using rk.kafka_log_axioms by (simp add: good_services_def ingest_services_def)
  have libs: "py_of good_worker = py_of good_services" "valid_lib (py_of good_worker)"
    "iso_codec (fromisoformat (py_of good_worker)) (ser_datetime (py_of good_worker))"
    using ref_valid_lib sample_codec by (simp_all add: good_worker_parts)
  have "rk_pending (kafka ingest_world) = {#}"
    by (simp add: ingest_world_def rk_pending_def empty_kafka_def)
  from published_event_is_delivered [OF good.uncancelled_axioms sample_timely log this sample_ingest_run
      sample_processed [THEN conjunct2] libs good_well_behaved good_worker_pg worker_world_pool(1), of worker_defaults]
  show ?thesis by (simp add: ingest_defaults_def) blast
qed

end
